(* ===== verification/Ctp_Prelude.thy ===== *)
theory Ctp_Prelude
  imports Main "HOL-Library.Word" "HOL-Library.Multiset"
begin

text \<open>
  The prelude of the development: the names of the model's basic types, the propagation of
  errors (Rust's \<open>?\<close> operator), the rendering of numbers and lists by \<open>format!\<close> and \<open>join\<close>,
  and the generic facts on lists that several components share.

  A HOL \<open>char\<close> is exactly an 8-bit byte. A Rust \<open>Vec<u8>\<close> is therefore a \<open>char list\<close>, and a
  Rust \<open>String\<close>, which is a byte vector that holds UTF-8, is one too: \<open>length\<close> is \<open>len()\<close>.
  Unicode scalar values (Rust \<open>char\<close>) are decoded from it in the theory \<open>Ctp_Utf8\<close>.
\<close>

section \<open>Names of the basic types\<close>

type_synonym bytes = "char list"
type_synonym uuid = "128 word"
type_synonym u32 = "32 word"
type_synonym u64 = "64 word"
type_synonym nanos = nat

text \<open>
  The collections of rewrite rules and case rules the component theories extend:
  \<open>run_simps\<close> unfolds a composed operation down to its component's results,
  \<open>wf_intros\<close> collects the preservation of the component invariants.
\<close>

named_theorems run_simps \<open>unfoldings of the composed operations\<close>
named_theorems wf_intros \<open>preservation of the component invariants\<close>

section \<open>Error propagation\<close>

text \<open>\<open>Result\<close> is the sum type with the error on the left; \<open>and_then\<close> is the \<open>?\<close> operator.\<close>

fun and_then :: "'e + 'a \<Rightarrow> ('a \<Rightarrow> 'e + 'b) \<Rightarrow> 'e + 'b" where
  "and_then (Inl e) k = Inl e"
| "and_then (Inr a) k = k a"

lemma and_then_Inr_iff: "and_then r k = Inr b \<longleftrightarrow> (\<exists>a. r = Inr a \<and> k a = Inr b)"
  by (cases r) auto

lemma and_then_Inl_iff:
  "and_then r k = Inl e \<longleftrightarrow> r = Inl e \<or> (\<exists>a. r = Inr a \<and> k a = Inl e)"
  by (cases r) auto

lemma and_then_assoc: "and_then (and_then r f) g = and_then r (\<lambda>a. and_then (f a) g)"
  by (cases r) auto

lemma and_then_cong [fundef_cong]:
  "r = r' \<Longrightarrow> (\<And>a. r' = Inr a \<Longrightarrow> k a = k' a) \<Longrightarrow> and_then r k = and_then r' k'"
  by (cases r') auto

text \<open>\<open>guard_else c e\<close> is the early return \<open>if c { return Err(e) }\<close>.\<close>

definition fail_if :: "bool \<Rightarrow> 'e \<Rightarrow> 'e + unit" where
  "fail_if c e = (if c then Inl e else Inr ())"

lemma fail_if_simps [simp]:
  "fail_if True e = Inl e"
  "fail_if False e = Inr ()"
  by (simp_all add: fail_if_def)

lemma fail_if_Inr_iff [simp]: "fail_if c e = Inr u \<longleftrightarrow> \<not> c"
  by (simp add: fail_if_def)

lemma fail_if_Inl_iff [simp]: "fail_if c e = Inl e' \<longleftrightarrow> c \<and> e' = e"
  by (auto simp: fail_if_def)

text \<open>The first failing element of a fallible pass over a list.\<close>

fun try_map :: "('a \<Rightarrow> 'e + 'b) \<Rightarrow> 'a list \<Rightarrow> 'e + 'b list" where
  "try_map f [] = Inr []"
| "try_map f (x # xs) = and_then (f x) (\<lambda>y. and_then (try_map f xs) (\<lambda>ys. Inr (y # ys)))"

lemma try_map_Inr_iff:
  "try_map f xs = Inr ys \<longleftrightarrow> list_all2 (\<lambda>x y. f x = Inr y) xs ys"
  by (induction xs arbitrary: ys)
    (auto simp: and_then_Inr_iff list_all2_Cons1)

lemma try_map_length: "try_map f xs = Inr ys \<Longrightarrow> length ys = length xs"
  by (simp add: try_map_Inr_iff list_all2_lengthD)

lemma try_map_Inl_ex: "try_map f xs = Inl e \<Longrightarrow> \<exists>x \<in> set xs. f x = Inl e"
  by (induction xs) (auto simp: and_then_Inl_iff)

lemma try_map_fails_iff: "(\<exists>e. try_map f xs = Inl e) \<longleftrightarrow> (\<exists>x \<in> set xs. \<exists>e. f x = Inl e)"
  by (induction xs) (auto simp: and_then_Inl_iff, metis sumE)

section \<open>Rendering\<close>

definition digit_char :: "nat \<Rightarrow> char" where
  "digit_char d = char_of (48 + d)"

fun show_nat :: "nat \<Rightarrow> string" where
  "show_nat n = (if n < 10 then [digit_char n] else show_nat (n div 10) @ [digit_char (n mod 10)])"

declare show_nat.simps [simp del]

lemma show_nat_small [simp]: "n < 10 \<Longrightarrow> show_nat n = [digit_char n]"
  by (subst show_nat.simps) simp

lemma show_nat_step: "10 \<le> n \<Longrightarrow> show_nat n = show_nat (n div 10) @ [digit_char (n mod 10)]"
  by (subst show_nat.simps) simp

lemma show_nat_nonempty [simp]: "show_nat n \<noteq> []"
  by (subst show_nat.simps) simp

text \<open>\<open>slice.join(sep)\<close>.\<close>

fun join_with :: "string \<Rightarrow> string list \<Rightarrow> string" where
  "join_with sep [] = []"
| "join_with sep [x] = x"
| "join_with sep (x # y # ys) = x @ sep @ join_with sep (y # ys)"

lemma join_with_length_le:
  "x \<in> set xs \<Longrightarrow> length x \<le> length (join_with sep xs)"
  by (induction sep xs rule: join_with.induct) auto

section \<open>Lists\<close>

text \<open>Searching for a contiguous block (\<open>str::contains\<close>, \<open>[T]::windows(n).any\<close>).\<close>

definition has_block :: "'a list \<Rightarrow> 'a list \<Rightarrow> bool" where
  "has_block p xs \<longleftrightarrow> (\<exists>i \<in> set [0..<Suc (length xs)]. take (length p) (drop i xs) = p)"

lemma has_block_iff: "has_block p xs \<longleftrightarrow> (\<exists>us vs. xs = us @ p @ vs)"
proof
  assume "has_block p xs"
  then obtain i where i: "take (length p) (drop i xs) = p"
    by (auto simp: has_block_def)
  have "xs = take i xs @ take (length p) (drop i xs) @ drop (length p) (drop i xs)"
    by (metis append_take_drop_id)
  with i show "\<exists>us vs. xs = us @ p @ vs" by metis
next
  assume "\<exists>us vs. xs = us @ p @ vs"
  then obtain us vs where "xs = us @ p @ vs" by blast
  then have "take (length p) (drop (length us) xs) = p" "length us < Suc (length xs)"
    by auto
  then show "has_block p xs"
    unfolding has_block_def by (metis atLeastLessThan_iff atLeast_upt set_upt zero_le)
qed

text \<open>The search for a block, for evaluation.\<close>

fun begins :: "'a list \<Rightarrow> 'a list \<Rightarrow> bool" where
  "begins [] ys \<longleftrightarrow> True"
| "begins (x # xs) [] \<longleftrightarrow> False"
| "begins (x # xs) (y # ys) \<longleftrightarrow> x = y \<and> begins xs ys"

lemma begins_iff: "begins p s \<longleftrightarrow> (\<exists>vs. s = p @ vs)"
  by (induction p s rule: begins.induct) auto

lemma has_block_code [code]:
  "has_block p [] \<longleftrightarrow> p = []"
  "has_block p (x # xs) \<longleftrightarrow> begins p (x # xs) \<or> has_block p xs"
proof -
  show "has_block p [] \<longleftrightarrow> p = []" by (auto simp: has_block_iff)
  have "has_block p (x # xs) \<longleftrightarrow> (\<exists>vs. x # xs = p @ vs) \<or> (\<exists>us vs. xs = us @ p @ vs)"
  proof
    assume "has_block p (x # xs)"
    then obtain us vs where "x # xs = us @ p @ vs" by (auto simp: has_block_iff)
    then show "(\<exists>vs. x # xs = p @ vs) \<or> (\<exists>us vs. xs = us @ p @ vs)" by (cases us) auto
  next
    assume "(\<exists>vs. x # xs = p @ vs) \<or> (\<exists>us vs. xs = us @ p @ vs)"
    then show "has_block p (x # xs)" unfolding has_block_iff by (metis append_Cons append_Nil)
  qed
  then show "has_block p (x # xs) \<longleftrightarrow> begins p (x # xs) \<or> has_block p xs"
    by (simp only: begins_iff has_block_iff)
qed

lemma has_block_append [intro]: "has_block p xs \<Longrightarrow> has_block p (us @ xs @ vs)"
  unfolding has_block_iff by (metis append.assoc)

lemma length_filter_pos_iff: "0 < length (filter P xs) \<longleftrightarrow> (\<exists>x \<in> set xs. P x)"
  by (induction xs) auto

lemma length_filter_zero_iff: "length (filter P xs) = 0 \<longleftrightarrow> (\<forall>x \<in> set xs. \<not> P x)"
  by (induction xs) auto

lemma length_filter_mset_cong:
  "mset xs = mset ys \<Longrightarrow> length (filter P xs) = length (filter P ys)"
  by (metis mset_filter size_mset)

end
