(* ===== verification/Core_Verdict.thy ===== *)
theory Core_Verdict
  imports Ctp_Prelude
begin

text \<open>
  The decision vocabulary of \<open>ctp-core/src/verdict.rs\<close> and the direction and identity types of
  \<open>payload.rs\<close>: severities, findings, the layer report whose verdict is derived from its
  findings, and the terminal decision.
\<close>

section \<open>The closed vocabularies\<close>

datatype direction = Inbound | Outbound

fun show_direction :: "direction \<Rightarrow> string" where
  "show_direction Inbound = ''inbound''"
| "show_direction Outbound = ''outbound''"

datatype severity = Info | Low | Medium | High | Critical

fun show_severity :: "severity \<Rightarrow> string" where
  "show_severity Info = ''info''"
| "show_severity Low = ''low''"
| "show_severity Medium = ''medium''"
| "show_severity High = ''high''"
| "show_severity Critical = ''critical''"

text \<open>The derived \<open>Ord\<close>: the order of declaration.\<close>

fun severity_rank :: "severity \<Rightarrow> nat" where
  "severity_rank Info = 0"
| "severity_rank Low = 1"
| "severity_rank Medium = 2"
| "severity_rank High = 3"
| "severity_rank Critical = 4"

lemma severity_rank_inject: "severity_rank a = severity_rank b \<longleftrightarrow> a = b"
  by (cases a; cases b) simp_all

instantiation severity :: linorder
begin

definition less_eq_severity :: "severity \<Rightarrow> severity \<Rightarrow> bool" where
  "less_eq_severity a b \<longleftrightarrow> severity_rank a \<le> severity_rank b"

definition less_severity :: "severity \<Rightarrow> severity \<Rightarrow> bool" where
  "less_severity a b \<longleftrightarrow> severity_rank a < severity_rank b"

instance
  by standard (auto simp: less_eq_severity_def less_severity_def severity_rank_inject)

end

datatype rule_result = RPass | RBlock string severity | RFlag string

datatype verdict = Pass | Block

fun show_verdict :: "verdict \<Rightarrow> string" where
  "show_verdict Pass = ''PASS''"
| "show_verdict Block = ''BLOCK''"

datatype layer = Challenge | Guard | Kernel | Orchestrator

fun show_layer :: "layer \<Rightarrow> string" where
  "show_layer Challenge = ''challenge''"
| "show_layer Guard = ''guard''"
| "show_layer Kernel = ''kernel''"
| "show_layer Orchestrator = ''orchestrator''"

datatype disposition = Blocking | Advisory

section \<open>Findings\<close>

record finding =
  f_source :: string
  f_reason :: string
  f_severity :: severity
  f_disposition :: disposition

definition finding_blocking :: "string \<Rightarrow> string \<Rightarrow> severity \<Rightarrow> finding" where
  "finding_blocking src rsn sev =
     \<lparr>f_source = src, f_reason = rsn, f_severity = sev, f_disposition = Blocking\<rparr>"

definition finding_advisory :: "string \<Rightarrow> string \<Rightarrow> severity \<Rightarrow> finding" where
  "finding_advisory src rsn sev =
     \<lparr>f_source = src, f_reason = rsn, f_severity = sev, f_disposition = Advisory\<rparr>"

abbreviation is_blocking :: "finding \<Rightarrow> bool" where
  "is_blocking f \<equiv> f_disposition f = Blocking"

abbreviation is_advisory :: "finding \<Rightarrow> bool" where
  "is_advisory f \<equiv> f_disposition f = Advisory"

lemma finding_simps [simp]:
  "f_source (finding_blocking s r v) = s" "f_reason (finding_blocking s r v) = r"
  "f_severity (finding_blocking s r v) = v" "f_disposition (finding_blocking s r v) = Blocking"
  "f_source (finding_advisory s r v) = s" "f_reason (finding_advisory s r v) = r"
  "f_severity (finding_advisory s r v) = v" "f_disposition (finding_advisory s r v) = Advisory"
  by (simp_all add: finding_blocking_def finding_advisory_def)

lemma advisory_iff: "is_advisory f \<longleftrightarrow> \<not> is_blocking f"
  by (cases "f_disposition f") auto

text \<open>The verdict a list of findings calls for.\<close>

definition findings_verdict :: "finding list \<Rightarrow> verdict" where
  "findings_verdict fs = (if list_ex is_blocking fs then Block else Pass)"

lemma findings_verdict_Pass_iff: "findings_verdict fs = Pass \<longleftrightarrow> (\<forall>f \<in> set fs. is_advisory f)"
  by (auto simp: findings_verdict_def list_ex_iff advisory_iff)

lemma findings_verdict_Block_iff: "findings_verdict fs = Block \<longleftrightarrow> (\<exists>f \<in> set fs. is_blocking f)"
  by (auto simp: findings_verdict_def list_ex_iff)

lemma findings_verdict_mset_cong: "mset fs = mset gs \<Longrightarrow> findings_verdict fs = findings_verdict gs"
  using mset_eq_setD [of fs gs] by (simp add: findings_verdict_def list_ex_iff)

section \<open>Layer reports\<close>

record layer_report =
  r_payload_id :: uuid
  r_layer :: layer
  r_session_id :: uuid
  r_verdict :: verdict
  r_findings :: "finding list"
  r_elapsed :: nanos

definition layer_report_new :: "uuid \<Rightarrow> layer \<Rightarrow> uuid \<Rightarrow> finding list \<Rightarrow> nanos \<Rightarrow> layer_report" where
  "layer_report_new pid l sid fs t =
     \<lparr>r_payload_id = pid, r_layer = l, r_session_id = sid,
      r_verdict = (if list_ex is_blocking fs then Block else Pass),
      r_findings = fs, r_elapsed = t\<rparr>"

definition advisory_flags :: "layer_report \<Rightarrow> finding list" where
  "advisory_flags r = filter is_advisory (r_findings r)"

lemma layer_report_new_simps [simp]:
  "r_payload_id (layer_report_new pid l sid fs t) = pid"
  "r_layer (layer_report_new pid l sid fs t) = l"
  "r_session_id (layer_report_new pid l sid fs t) = sid"
  "r_verdict (layer_report_new pid l sid fs t) = findings_verdict fs"
  "r_findings (layer_report_new pid l sid fs t) = fs"
  "r_elapsed (layer_report_new pid l sid fs t) = t"
  by (simp_all add: layer_report_new_def findings_verdict_def)

text \<open>The invariant of a report: its verdict is the one its findings call for.\<close>

definition report_ok :: "layer_report \<Rightarrow> bool" where
  "report_ok r \<longleftrightarrow> r_verdict r = findings_verdict (r_findings r)"

lemma report_ok_new [simp, wf_intros]: "report_ok (layer_report_new pid l sid fs t)"
  by (simp add: report_ok_def)

section \<open>Decisions\<close>

record decision =
  d_verdict :: verdict
  d_layer :: layer
  d_findings :: "finding list"
  d_session_id :: uuid
  d_direction :: direction
  d_elapsed :: nanos

definition into_decision :: "layer_report \<Rightarrow> direction \<Rightarrow> decision" where
  "into_decision r dir =
     \<lparr>d_verdict = r_verdict r, d_layer = r_layer r, d_findings = r_findings r,
      d_session_id = r_session_id r, d_direction = dir, d_elapsed = r_elapsed r\<rparr>"

definition decision_block :: "layer \<Rightarrow> finding list \<Rightarrow> uuid \<Rightarrow> direction \<Rightarrow> nanos \<Rightarrow> decision" where
  "decision_block l fs sid dir t =
     \<lparr>d_verdict = Block, d_layer = l, d_findings = fs,
      d_session_id = sid, d_direction = dir, d_elapsed = t\<rparr>"

definition decision_pass :: "layer \<Rightarrow> finding list \<Rightarrow> uuid \<Rightarrow> direction \<Rightarrow> nanos \<Rightarrow> decision" where
  "decision_pass l fs sid dir t =
     \<lparr>d_verdict = Pass, d_layer = l, d_findings = fs,
      d_session_id = sid, d_direction = dir, d_elapsed = t\<rparr>"

definition is_block :: "decision \<Rightarrow> bool" where
  "is_block d \<longleftrightarrow> d_verdict d = Block"

lemmas decision_defs = into_decision_def decision_block_def decision_pass_def

lemma decision_simps [simp]:
  "d_verdict (decision_block l fs sid dir t) = Block"
  "d_layer (decision_block l fs sid dir t) = l"
  "d_findings (decision_block l fs sid dir t) = fs"
  "d_session_id (decision_block l fs sid dir t) = sid"
  "d_direction (decision_block l fs sid dir t) = dir"
  "d_verdict (decision_pass l fs sid dir t) = Pass"
  "d_layer (decision_pass l fs sid dir t) = l"
  "d_findings (decision_pass l fs sid dir t) = fs"
  "d_session_id (decision_pass l fs sid dir t) = sid"
  "d_direction (decision_pass l fs sid dir t) = dir"
  "d_verdict (into_decision r dir) = r_verdict r"
  "d_layer (into_decision r dir) = r_layer r"
  "d_findings (into_decision r dir) = r_findings r"
  "d_session_id (into_decision r dir) = r_session_id r"
  "d_direction (into_decision r dir) = dir"
  by (simp_all add: decision_defs)

text \<open>A decision is coherent when a PASS carries no blocking finding.\<close>

definition decision_ok :: "decision \<Rightarrow> bool" where
  "decision_ok d \<longleftrightarrow> (d_verdict d = Pass \<longrightarrow> findings_verdict (d_findings d) = Pass)"

lemma decision_ok_block [simp, wf_intros]: "decision_ok (decision_block l fs sid dir t)"
  by (simp add: decision_ok_def)

lemma decision_ok_into [wf_intros]: "report_ok r \<Longrightarrow> decision_ok (into_decision r dir)"
  by (simp add: decision_ok_def report_ok_def)

end
