(* ===== verification/Core_Error.thy ===== *)
theory Core_Error
  imports Core_Verdict
begin

text \<open>
  The error model of \<open>ctp-core/src/error.rs\<close>: the closed set of failures, their model-facing
  rendering (\<open>Display\<close>), the operator-facing detail, and the collapse of every failure into a
  BLOCK decision.
\<close>

datatype tool_failure_class = Timeout | Crashed | InvalidArguments | Unavailable | Other

fun show_failure_class :: "tool_failure_class \<Rightarrow> string" where
  "show_failure_class Timeout = ''timeout''"
| "show_failure_class Crashed = ''crashed''"
| "show_failure_class InvalidArguments = ''invalid_arguments''"
| "show_failure_class Unavailable = ''unavailable''"
| "show_failure_class Other = ''other''"

text \<open>
  The fields of \<open>PolicyDenied\<close> are the tool and the reason, those of \<open>ToolFailed\<close> the tool, the
  class and the audit detail. \<open>IoError\<close> carries the rendering of the \<open>std::io::Error\<close> it wraps.
\<close>

datatype ctp_error =
    Blocked decision
  | GuardUnavailable string
  | GuardTimeout u64
  | GuardContractViolation string
  | TrustViolation string
  | PolicyDenied string string
  | ConfigError string
  | ToolFailed string tool_failure_class string
  | IoError string

fun show_error :: "ctp_error \<Rightarrow> string" where
  "show_error (Blocked d) = ''blocked by '' @ show_layer (d_layer d) @ '' layer''"
| "show_error (GuardUnavailable s) = ''guard unavailable: '' @ s"
| "show_error (GuardTimeout b) = ''guard timed out after '' @ show_nat (unat b) @ '' ms''"
| "show_error (GuardContractViolation s) = ''guard contract violation: '' @ s"
| "show_error (TrustViolation s) = ''trust pipeline violation: '' @ s"
| "show_error (PolicyDenied t r) = ''policy denial for tool '' @ [CHR 0x27] @ t @ [CHR 0x27] @ '': '' @ r"
| "show_error (ConfigError s) = ''configuration error: '' @ s"
| "show_error (ToolFailed t c a) =
     ''tool '' @ [CHR 0x27] @ t @ [CHR 0x27] @ '' execution failed ('' @ show_failure_class c @ '')''"
| "show_error (IoError s) = ''i/o error: '' @ s"

fun is_security_block :: "ctp_error \<Rightarrow> bool" where
  "is_security_block (Blocked d) = True"
| "is_security_block (GuardUnavailable s) = True"
| "is_security_block (GuardTimeout b) = True"
| "is_security_block (GuardContractViolation s) = True"
| "is_security_block (TrustViolation s) = True"
| "is_security_block (PolicyDenied t r) = True"
| "is_security_block (ConfigError s) = False"
| "is_security_block (ToolFailed t c a) = False"
| "is_security_block (IoError s) = False"

fun audit_detail :: "ctp_error \<Rightarrow> string option" where
  "audit_detail (ToolFailed t c a) = Some a"
| "audit_detail _ = None"

text \<open>
  The match of \<open>to_block_decision\<close>: the wrapped decision is returned early, every other error has
  its provenance.
\<close>

fun error_provenance :: "ctp_error \<Rightarrow> decision + (layer \<times> string \<times> severity)" where
  "error_provenance (Blocked d) = Inl d"
| "error_provenance (GuardUnavailable s) = Inr (Guard, ''guard_unavailable'', High)"
| "error_provenance (GuardTimeout b) = Inr (Guard, ''guard_timeout'', High)"
| "error_provenance (GuardContractViolation s) = Inr (Guard, ''guard_contract_violation'', Critical)"
| "error_provenance (TrustViolation s) = Inr (Kernel, ''trust_violation'', Critical)"
| "error_provenance (PolicyDenied t r) = Inr (Kernel, ''policy_denied'', High)"
| "error_provenance (ConfigError s) = Inr (Orchestrator, ''config_error'', High)"
| "error_provenance (ToolFailed t c a) = Inr (Kernel, ''tool_failed'', Medium)"
| "error_provenance (IoError s) = Inr (Orchestrator, ''io_error'', High)"

definition to_block_decision :: "ctp_error \<Rightarrow> uuid \<Rightarrow> direction \<Rightarrow> decision" where
  "to_block_decision e sid dir =
     (case error_provenance e of
        Inl d \<Rightarrow> d
      | Inr (l, src, sev) \<Rightarrow>
          decision_block l [finding_blocking src (show_error e) sev] sid dir 0)"

lemma to_block_decision_Blocked [simp]: "to_block_decision (Blocked d) sid dir = d"
  by (simp add: to_block_decision_def)

text \<open>
  What every error the library raises satisfies: a \<open>Blocked\<close> wraps a BLOCK decision with a
  blocking finding. Embedding code can build one that does not.
\<close>

fun error_ok :: "ctp_error \<Rightarrow> bool" where
  "error_ok (Blocked d) \<longleftrightarrow> d_verdict d = Block \<and> findings_verdict (d_findings d) = Block"
| "error_ok _ \<longleftrightarrow> True"

lemma to_block_decision_blocks: "error_ok e \<Longrightarrow> d_verdict (to_block_decision e sid dir) = Block"
  by (cases e) (auto simp: to_block_decision_def)

lemma to_block_decision_findings:
  "error_ok e \<Longrightarrow> findings_verdict (d_findings (to_block_decision e sid dir)) = Block"
  by (cases e) (auto simp: findings_verdict_Block_iff to_block_decision_def)

text \<open>Every error but a wrapped decision yields a BLOCK with exactly one blocking finding.\<close>

lemma to_block_decision_unwrapped:
  assumes "\<not> (\<exists>d. e = Blocked d)"
  shows "d_verdict (to_block_decision e sid dir) = Block
    \<and> (\<exists>src sev. d_findings (to_block_decision e sid dir) = [finding_blocking src (show_error e) sev])
    \<and> d_session_id (to_block_decision e sid dir) = sid
    \<and> d_direction (to_block_decision e sid dir) = dir"
  using assms by (cases e) (auto simp: to_block_decision_def)

text \<open>Every failure of the library collapses to a BLOCK decision that carries a blocking finding:
  an error which wraps no decision yields exactly one blocking finding with the model-facing
  message, the caller's session and direction and no elapsed time; a wrapped BLOCK decision is
  returned unchanged.\<close>
theorem every_error_collapses_to_block:
  assumes "\<And>d. e = Blocked d \<Longrightarrow> d_verdict d = Block \<and> findings_verdict (d_findings d) = Block"
  shows "is_block (to_block_decision e sid dir) \<and> findings_verdict (d_findings (to_block_decision e sid dir)) = Block
    \<and> ((\<exists>d. e = Blocked d \<and> to_block_decision e sid dir = d)
      \<or> (\<exists>l src sev. to_block_decision e sid dir = decision_block l [finding_blocking src (show_error e) sev] sid dir 0))"
proof -
  have "error_ok e" using assms by (cases e) auto
  with to_block_decision_blocks to_block_decision_findings show ?thesis
    by (cases e) (auto simp: is_block_def, auto simp: to_block_decision_def)
qed

theorem every_error_collapses_to_block_witness:
  "is_block (to_block_decision (GuardTimeout 250) 7 Inbound)"
  using every_error_collapses_to_block [of "GuardTimeout 250" 7 Inbound] by simp

text \<open>The collapse does not check the decision it unwraps: an error that wraps a PASS decision
  collapses to that PASS.\<close>
theorem wrapped_pass_stays_pass:
  "to_block_decision (Blocked (decision_pass l fs sid' dir' t)) sid dir = decision_pass l fs sid' dir' t
    \<and> \<not> is_block (to_block_decision (Blocked (decision_pass l fs sid' dir' t)) sid dir)"
  by (simp add: is_block_def)

end
