(* ===== verification/Ctp_Float.thy ===== *)
theory Ctp_Float
  imports Ctp_Prelude "HOL-Library.Log_Nat"
begin

text \<open>
  Rust's \<open>f64\<close>, as far as the source uses it: comparison, addition, multiplication, \<open>max\<close>,
  conversion from \<open>usize\<close> and \<open>{:.2}\<close> formatting. A finite double is the rational number it
  denotes; the result of an operation is rounded to 53 significant bits, ties to even, with
  the subnormal exponent floor and the overflow to infinity of IEEE 754. Comparisons with NaN
  are false. The two zeroes are identified: the source never observes the sign of a zero.
\<close>

section \<open>Rounding a rational to a double\<close>

text \<open>Round half to even.\<close>

definition rne :: "rat \<Rightarrow> int" where
  "rne x = (let f = \<lfloor>x\<rfloor>; r = x - of_int f in
     if r < 1 / 2 then f else if 1 / 2 < r then f + 1 else if even f then f else f + 1)"

lemma rne_of_int [simp]: "rne (of_int n) = n"
  by (simp add: rne_def)

lemma rne_bounds: "\<lfloor>x\<rfloor> \<le> rne x" "rne x \<le> \<lfloor>x\<rfloor> + 1"
  by (auto simp: rne_def Let_def)

lemma rne_mono:
  assumes "x \<le> y"
  shows "rne x \<le> rne y"
proof (cases "\<lfloor>x\<rfloor> = \<lfloor>y\<rfloor>")
  case True
  with assms show ?thesis by (auto simp: rne_def Let_def)
next
  case False
  with assms have "\<lfloor>x\<rfloor> + 1 \<le> \<lfloor>y\<rfloor>"
    by (metis add1_zle_eq floor_mono order_less_le)
  then show ?thesis
    by (meson order_trans rne_bounds)
qed

text \<open>The exponent of a positive rational: the greatest \<open>k\<close> with \<open>2 ^ k \<le> x\<close>.\<close>

definition ilog2 :: "rat \<Rightarrow> int" where
  "ilog2 x = (let (a, b) = quotient_of x; k = bitlen a - bitlen b in
     if 2 powi k \<le> x then k else k - 1)"

lemma ilog2_bounds:
  assumes "0 < x"
  shows "2 powi ilog2 x \<le> x" "x < 2 powi (ilog2 x + 1)"
proof -
  obtain a b where q: "quotient_of x = (a, b)" by fastforce
  have b: "0 < b" using q by (rule quotient_of_denom_pos)
  have x: "x = of_int a / of_int b" using q by (rule quotient_of_div)
  have a: "0 < a" using assms b by (simp add: x zero_less_divide_iff)
  define k l where "k = bitlen a" and "l = bitlen b"
  have kl: "1 \<le> k" "1 \<le> l"
    using a b bitlen_nonneg[of a] bitlen_nonneg[of b]
    by (auto simp: k_def l_def bitlen_eq_zero_iff order_le_less)
  have "2 ^ nat (k - 1) \<le> a" "a < 2 ^ nat k" using bitlen_bounds [OF a] by (auto simp: k_def)
  moreover have "2 ^ nat (l - 1) \<le> b" "b < 2 ^ nat l" using bitlen_bounds [OF b] by (auto simp: l_def)
  ultimately have *:
    "(2::rat) powi (k - 1) \<le> of_int a" "of_int a < (2::rat) powi k"
    "(2::rat) powi (l - 1) \<le> of_int b" "of_int b < (2::rat) powi l"
    using kl
    by (simp_all add: power_int_def)
  have low: "2 powi (k - l - 1) \<le> x"
  proof -
    have "2 powi (k - l - 1) * of_int b \<le> 2 powi (k - l - 1) * (2::rat) powi l"
      using * by (intro mult_left_mono) auto
    also have "\<dots> = 2 powi (k - 1)"
      by (simp flip: power_int_add)
    finally show ?thesis using * b by (simp add: x pos_le_divide_eq)
  qed
  have high: "x < 2 powi (k - l + 1)"
  proof -
    have "(2::rat) powi k = 2 powi (k - l + 1) * 2 powi (l - 1)"
      by (simp flip: power_int_add)
    also have "\<dots> \<le> 2 powi (k - l + 1) * of_int b"
      using * by (intro mult_left_mono) auto
    finally show ?thesis using * b by (simp add: x pos_divide_less_eq)
  qed
  show "2 powi ilog2 x \<le> x" "x < 2 powi (ilog2 x + 1)"
    using low high by (auto simp: ilog2_def q Let_def k_def [symmetric] l_def [symmetric] algebra_simps)
qed

lemma ilog2_mono:
  assumes "0 < x" "x \<le> y"
  shows "ilog2 x \<le> ilog2 y"
proof (rule ccontr)
  assume "\<not> ?thesis"
  then have "(2::rat) powi (ilog2 y + 1) \<le> 2 powi ilog2 x"
    by (intro power_int_increasing) auto
  with ilog2_bounds [of x] ilog2_bounds [of y] assms show False by auto
qed

text \<open>
  Rounding of a magnitude: the mantissa has 53 bits, so the unit in the last place of \<open>x\<close> is
  \<open>2 ^ (ilog2 x - 52)\<close>, never below the subnormal unit \<open>2 ^ -1074\<close>.
\<close>

definition ulp_exp :: "rat \<Rightarrow> int" where
  "ulp_exp x = max (ilog2 x - 52) (- 1074)"

definition round_mag :: "rat \<Rightarrow> rat" where
  "round_mag x = (if x \<le> 0 then 0
     else of_int (rne (x / 2 powi ulp_exp x)) * 2 powi ulp_exp x)"

definition round53 :: "rat \<Rightarrow> rat" where
  "round53 x = (if 0 \<le> x then round_mag x else - round_mag (- x))"

lemma round_mag_nonneg: "0 \<le> round_mag x"
proof (cases "x \<le> 0")
  case False
  then have "0 \<le> rne (x / 2 powi ulp_exp x)"
    using rne_mono [of 0 "x / 2 powi ulp_exp x"] by (simp add: rne_def [of 0])
  then show ?thesis by (simp add: round_mag_def)
qed (simp add: round_mag_def)

lemma ulp_exp_mono: "0 < x \<Longrightarrow> x \<le> y \<Longrightarrow> ulp_exp x \<le> ulp_exp y"
  unfolding ulp_exp_def using ilog2_mono by fastforce

lemma rne_le_of_less_int: "x < of_int n \<Longrightarrow> rne x \<le> n"
  using rne_mono [of x "of_int n"] by simp

lemma rne_ge_of_int: "of_int n \<le> x \<Longrightarrow> n \<le> rne x"
  using rne_mono [of "of_int n" x] by simp

text \<open>A magnitude below \<open>2 ^ k\<close> rounds to at most \<open>2 ^ k\<close>, one from \<open>2 ^ k\<close> on to at least it.\<close>

lemma round_mag_le_pow:
  assumes "0 < x" "x < 2 powi k" "ulp_exp x \<le> k"
  shows "round_mag x \<le> 2 powi k"
proof -
  let ?e = "ulp_exp x"
  have "x / 2 powi ?e < 2 powi (k - ?e)"
    using assms by (simp add: divide_less_eq flip: power_int_add)
  then have "x / 2 powi ?e < of_int (2 ^ nat (k - ?e))"
    using assms by (simp add: power_int_def)
  then have "rne (x / 2 powi ?e) \<le> 2 ^ nat (k - ?e)"
    by (rule rne_le_of_less_int)
  then have "of_int (rne (x / 2 powi ?e)) \<le> (of_int (2 ^ nat (k - ?e)) :: rat)"
    by (simp only: of_int_le_iff)
  also have "\<dots> = 2 powi (k - ?e)"
    using assms by (simp add: power_int_def)
  finally have "of_int (rne (x / 2 powi ?e)) * 2 powi ?e \<le> 2 powi (k - ?e) * (2::rat) powi ?e"
    by (intro mult_right_mono) auto
  then show ?thesis using assms by (simp add: round_mag_def flip: power_int_add)
qed

lemma round_mag_ge_pow:
  assumes "2 powi k \<le> x" "ulp_exp x \<le> k"
  shows "2 powi k \<le> round_mag x"
proof -
  let ?e = "ulp_exp x"
  have x: "0 < x" using assms by (meson order_less_le_trans zero_less_numeral zero_less_power_int)
  have "2 powi (k - ?e) * 2 powi ?e \<le> x"
    using assms by (simp flip: power_int_add)
  then have "2 powi (k - ?e) \<le> x / 2 powi ?e"
    by (simp add: pos_le_divide_eq)
  then have "of_int (2 ^ nat (k - ?e)) \<le> x / 2 powi ?e"
    using assms by (simp add: power_int_def)
  then have "2 ^ nat (k - ?e) \<le> rne (x / 2 powi ?e)"
    by (rule rne_ge_of_int)
  then have "(of_int (2 ^ nat (k - ?e)) :: rat) \<le> of_int (rne (x / 2 powi ?e))"
    by (simp only: of_int_le_iff)
  then have "2 powi (k - ?e) \<le> (of_int (rne (x / 2 powi ?e)) :: rat)"
    using assms by (simp add: power_int_def)
  then have "2 powi (k - ?e) * (2::rat) powi ?e \<le> of_int (rne (x / 2 powi ?e)) * 2 powi ?e"
    by (intro mult_right_mono) auto
  then show ?thesis using x by (simp add: round_mag_def flip: power_int_add)
qed

lemma round_mag_mono:
  assumes "x \<le> y"
  shows "round_mag x \<le> round_mag y"
proof (cases "0 < x")
  case False
  then have "round_mag x = 0" by (simp add: round_mag_def)
  then show ?thesis by (simp add: round_mag_nonneg)
next
  case x: True
  with assms have y: "0 < y" by simp
  show ?thesis
  proof (cases "ulp_exp x = ulp_exp y")
    case True
    have "x / 2 powi ulp_exp x \<le> y / 2 powi ulp_exp x"
      using assms by (intro divide_right_mono) auto
    then have "rne (x / 2 powi ulp_exp x) \<le> rne (y / 2 powi ulp_exp x)"
      by (rule rne_mono)
    then show ?thesis using x y True by (simp add: round_mag_def)
  next
    case False
    with ulp_exp_mono [OF x assms] have lt: "ulp_exp x < ulp_exp y" by simp
    then have ey: "ulp_exp y = ilog2 y - 52" by (simp add: ulp_exp_def max_def split: if_splits)
    let ?k = "ilog2 y"
    have "ilog2 x < ?k" using lt ey by (simp add: ulp_exp_def max_def split: if_splits)
    then have "(2::rat) powi (ilog2 x + 1) \<le> 2 powi ?k"
      by (intro power_int_increasing) auto
    with ilog2_bounds [OF x] have "x < 2 powi ?k" by simp
    then have "round_mag x \<le> 2 powi ?k"
      using x lt ey by (intro round_mag_le_pow) auto
    also have "\<dots> \<le> round_mag y"
      using ilog2_bounds [OF y] ey by (intro round_mag_ge_pow) auto
    finally show ?thesis .
  qed
qed

lemma round_mag_idem: "round_mag (round_mag x) = round_mag x"
proof (cases "0 < round_mag x")
  case False
  with round_mag_nonneg [of x] have "round_mag x = 0" by simp
  then show ?thesis by (simp add: round_mag_def)
next
  case y: True
  then have x: "0 < x" by (auto simp: round_mag_def split: if_splits)
  let ?e = "ulp_exp x" and ?y = "round_mag x"
  let ?n = "rne (x / 2 powi ?e)"
  have yn: "?y = of_int ?n * 2 powi ?e" using x by (simp add: round_mag_def)
  have le: "?y \<le> 2 powi (ilog2 x + 1)" if "?e = ilog2 x - 52"
    using ilog2_bounds [OF x] x that by (intro round_mag_le_pow) auto
  show ?thesis
  proof (cases "ulp_exp ?y \<le> ?e")
    case True
    have "of_int ?n * 2 powi ?e / (2::rat) powi ulp_exp ?y = of_int ?n * 2 powi (?e - ulp_exp ?y)"
      by (simp add: power_int_diff)
    also have "\<dots> = of_int (?n * 2 ^ nat (?e - ulp_exp ?y))"
      using True by (simp add: power_int_def)
    finally have m: "?y / 2 powi ulp_exp ?y = of_int (?n * 2 ^ nat (?e - ulp_exp ?y))"
      using yn by simp
    have "round_mag ?y = of_int (rne (?y / 2 powi ulp_exp ?y)) * 2 powi ulp_exp ?y"
      using y by (simp add: round_mag_def [of ?y])
    also have "\<dots> = ?y / 2 powi ulp_exp ?y * 2 powi ulp_exp ?y"
      unfolding m by (simp only: rne_of_int)
    finally show ?thesis by simp
  next
    case False
    then have e: "?e < ulp_exp ?y" by simp
    then have ey: "ulp_exp ?y = ilog2 ?y - 52" by (simp add: ulp_exp_def max_def split: if_splits)
    have ge: "2 powi (?e + 53) \<le> ?y"
    proof -
      have "(2::rat) powi (?e + 53) \<le> 2 powi ilog2 ?y"
        using e ey by (intro power_int_increasing) auto
      with ilog2_bounds(1) [OF y] show ?thesis by simp
    qed
    have lt: "x < 2 powi (?e + 53)"
    proof -
      have "(2::rat) powi (ilog2 x + 1) \<le> 2 powi (?e + 53)"
        by (intro power_int_increasing) (auto simp: ulp_exp_def)
      with ilog2_bounds(2) [OF x] show ?thesis by simp
    qed
    with x have "?y \<le> 2 powi (?e + 53)" by (intro round_mag_le_pow) auto
    with ge have yp: "?y = 2 powi (?e + 53)" by simp
    have k: "ilog2 ?y = ?e + 53"
    proof (rule antisym)
      have "(2::rat) powi ilog2 ?y \<le> 2 powi (?e + 53)"
        using ilog2_bounds(1) [OF y] yp by simp
      then show "ilog2 ?y \<le> ?e + 53"
        using power_int_strict_increasing [of "?e + 53" "ilog2 ?y" "2 :: rat"] by force
      have "(2::rat) powi (?e + 53) < 2 powi (ilog2 ?y + 1)"
        using ilog2_bounds(2) [OF y] yp by simp
      then show "?e + 53 \<le> ilog2 ?y"
        using power_int_increasing [of "ilog2 ?y + 1" "?e + 53" "2 :: rat"] by force
    qed
    have "?y / 2 powi ulp_exp ?y = 2 powi 52"
      using k ey by (simp add: yp flip: power_int_diff)
    also have "\<dots> = of_int (2 ^ 52)" by (simp add: power_int_def)
    finally have m: "?y / 2 powi ulp_exp ?y = of_int (2 ^ 52)" .
    have "round_mag ?y = of_int (rne (?y / 2 powi ulp_exp ?y)) * 2 powi ulp_exp ?y"
      using y by (simp add: round_mag_def [of ?y])
    also have "\<dots> = ?y / 2 powi ulp_exp ?y * 2 powi ulp_exp ?y"
      unfolding m by (simp only: rne_of_int)
    finally show ?thesis by simp
  qed
qed

text \<open>Powers of two within the range of the exponents are representable.\<close>

lemma ilog2_pow: "ilog2 (2 powi k) = k"
proof -
  have "(2 :: rat) powi ilog2 (2 powi k) \<le> 2 powi k" "(2 :: rat) powi k < 2 powi (ilog2 (2 powi k) + 1)"
    using ilog2_bounds [of "2 powi k"] by simp_all
  then have "\<not> k + 1 \<le> ilog2 (2 powi k)" "\<not> ilog2 (2 powi k) + 1 \<le> k"
    using power_int_increasing [of "k + 1" "ilog2 (2 powi k)" "2 :: rat"]
      power_int_increasing [of "ilog2 (2 powi k) + 1" k "2 :: rat"]
      power_int_strict_increasing [of k "k + 1" "2 :: rat"] by force+
  then show ?thesis by simp
qed

lemma round53_pow: "- 1074 \<le> k \<Longrightarrow> round53 (2 powi k) = 2 powi k"
proof -
  assume k: "- 1074 \<le> k"
  let ?e = "ulp_exp (2 powi k)"
  have e: "?e \<le> k" using k by (simp add: ulp_exp_def ilog2_pow)
  have "2 powi k / 2 powi ?e = (2 :: rat) powi (k - ?e)"
    by (simp add: power_int_diff)
  also have "\<dots> = of_int (2 ^ nat (k - ?e))" using e by (simp add: power_int_def)
  finally have "2 powi k / 2 powi ?e = (of_int (2 ^ nat (k - ?e)) :: rat)" .
  then have m: "rne (2 powi k / 2 powi ?e) = 2 ^ nat (k - ?e)" by (simp only: rne_of_int)
  have "(of_int (2 ^ nat (k - ?e)) :: rat) * 2 powi ?e = 2 powi (k - ?e) * 2 powi ?e"
    using e by (simp add: power_int_def)
  also have "\<dots> = 2 powi k" by (simp flip: power_int_add)
  finally have "(of_int (2 ^ nat (k - ?e)) :: rat) * 2 powi ?e = 2 powi k" .
  then show ?thesis by (simp add: round53_def round_mag_def not_le m)
qed

text \<open>
  The laws of a rounding function that the arithmetic below rests on: it is monotone, keeps
  what is already representable, keeps zero. Whatever rounds to nearest satisfies them.
\<close>

locale rounding =
  fixes rnd :: "rat \<Rightarrow> rat"
  assumes mono: "x \<le> y \<Longrightarrow> rnd x \<le> rnd y"
    and idem: "rnd (rnd x) = rnd x"
    and zero: "rnd 0 = 0"
begin

lemma nonneg: "0 \<le> x \<Longrightarrow> 0 \<le> rnd x"
  using mono [of 0 x] zero by simp

lemma nonpos: "x \<le> 0 \<Longrightarrow> rnd x \<le> 0"
  using mono [of x 0] zero by simp

lemma add_ge: "rnd a = a \<Longrightarrow> 0 \<le> b \<Longrightarrow> a \<le> rnd (a + b)"
  using mono [of a "a + b"] by simp

lemma scale_le: "rnd a = a \<Longrightarrow> 0 \<le> a \<Longrightarrow> d \<le> 1 \<Longrightarrow> rnd (a * d) \<le> a"
  using mono [of "a * d" a] mult_left_le [of d a] by simp

lemma below: "rnd a = a \<Longrightarrow> a \<le> x \<Longrightarrow> a \<le> rnd x"
  using mono [of a x] by simp

lemma above: "rnd a = a \<Longrightarrow> x \<le> a \<Longrightarrow> rnd x \<le> a"
  using mono [of x a] by simp

end

lemma round53_mono: "x \<le> y \<Longrightarrow> round53 x \<le> round53 y"
  using round_mag_nonneg [of y] round_mag_nonneg [of "- x"]
  by (auto simp: round53_def intro: round_mag_mono order_trans [of _ 0])

lemma round53_idem: "round53 (round53 x) = round53 x"
  using round_mag_nonneg [of x] round_mag_nonneg [of "- x"] round_mag_idem
  by (auto simp: round53_def round_mag_def [of 0])

lemma round53_zero [simp]: "round53 0 = 0"
  by (simp add: round53_def round_mag_def)

interpretation r53: rounding round53
  by unfold_locales (simp_all add: round53_mono round53_idem)

section \<open>The type of doubles and its operations\<close>

datatype f64 = NaN | PosInf | NegInf | Fin rat

definition f64_max_finite_bound :: rat where
  "f64_max_finite_bound = 2 ^ 1024"

text \<open>The same number by few multiplications of integers, for evaluation.\<close>

lemma f64_max_finite_bound_code [code]:
  "f64_max_finite_bound = of_int ((65536 ^ 8) ^ 8)"
  by (simp add: f64_max_finite_bound_def)

definition to_f64 :: "rat \<Rightarrow> f64" where
  "to_f64 x = (let r = round53 x in
     if f64_max_finite_bound \<le> r then PosInf
     else if r \<le> - f64_max_finite_bound then NegInf else Fin r)"

fun f64_add :: "f64 \<Rightarrow> f64 \<Rightarrow> f64" where
  "f64_add (Fin a) (Fin b) = to_f64 (a + b)"
| "f64_add NaN _ = NaN"
| "f64_add _ NaN = NaN"
| "f64_add PosInf NegInf = NaN"
| "f64_add NegInf PosInf = NaN"
| "f64_add PosInf _ = PosInf"
| "f64_add _ PosInf = PosInf"
| "f64_add NegInf _ = NegInf"
| "f64_add _ NegInf = NegInf"

text \<open>The sign of a double, and the product of an infinity with a double of that sign.\<close>

fun f64_sgn :: "f64 \<Rightarrow> int" where
  "f64_sgn NaN = 0"
| "f64_sgn PosInf = 1"
| "f64_sgn NegInf = - 1"
| "f64_sgn (Fin a) = (if 0 < a then 1 else if a < 0 then - 1 else 0)"

definition inf_of_sgn :: "int \<Rightarrow> f64" where
  "inf_of_sgn s = (if 0 < s then PosInf else if s < 0 then NegInf else NaN)"

fun f64_mul :: "f64 \<Rightarrow> f64 \<Rightarrow> f64" where
  "f64_mul (Fin a) (Fin b) = to_f64 (a * b)"
| "f64_mul NaN _ = NaN"
| "f64_mul _ NaN = NaN"
| "f64_mul a b = inf_of_sgn (f64_sgn a * f64_sgn b)"

fun f64_lt :: "f64 \<Rightarrow> f64 \<Rightarrow> bool" where
  "f64_lt NaN _ = False"
| "f64_lt _ NaN = False"
| "f64_lt (Fin a) (Fin b) = (a < b)"
| "f64_lt NegInf NegInf = False"
| "f64_lt NegInf _ = True"
| "f64_lt _ NegInf = False"
| "f64_lt PosInf _ = False"
| "f64_lt _ PosInf = True"

fun f64_le :: "f64 \<Rightarrow> f64 \<Rightarrow> bool" where
  "f64_le NaN _ = False"
| "f64_le _ NaN = False"
| "f64_le (Fin a) (Fin b) = (a \<le> b)"
| "f64_le NegInf _ = True"
| "f64_le _ NegInf = False"
| "f64_le _ PosInf = True"
| "f64_le PosInf _ = False"

text \<open>\<open>f64::max\<close> returns the other operand when one is NaN.\<close>

fun f64_max :: "f64 \<Rightarrow> f64 \<Rightarrow> f64" where
  "f64_max NaN b = b"
| "f64_max a NaN = a"
| "f64_max a b = (if f64_lt a b then b else a)"

definition f64_of_nat :: "nat \<Rightarrow> f64" where
  "f64_of_nat n = to_f64 (of_nat n)"

definition f64_zero :: f64 where
  "f64_zero = Fin 0"

text \<open>A double the program can hold: finite ones are representable and within range.\<close>

fun f64_ok :: "f64 \<Rightarrow> bool" where
  "f64_ok (Fin a) \<longleftrightarrow> round53 a = a \<and> \<bar>a\<bar> < f64_max_finite_bound"
| "f64_ok _ \<longleftrightarrow> True"

abbreviation f64_ge0 :: "f64 \<Rightarrow> bool" where
  "f64_ge0 x \<equiv> f64_le f64_zero x"

subsection \<open>Order\<close>

lemma f64_le_refl: "x \<noteq> NaN \<Longrightarrow> f64_le x x"
  by (cases x) auto

lemma f64_le_trans: "f64_le x y \<Longrightarrow> f64_le y z \<Longrightarrow> f64_le x z"
  by (cases x; cases y; cases z) auto

lemma f64_le_not_NaN: "f64_le x y \<Longrightarrow> x \<noteq> NaN \<and> y \<noteq> NaN"
  by (cases x; cases y) auto

lemma f64_not_le: "x \<noteq> NaN \<Longrightarrow> y \<noteq> NaN \<Longrightarrow> \<not> f64_le x y \<longleftrightarrow> f64_lt y x"
  by (cases x; cases y) auto

lemma f64_lt_imp_le: "f64_lt x y \<Longrightarrow> f64_le x y"
  by (cases x; cases y) auto

lemma f64_lt_le_trans: "f64_lt x y \<Longrightarrow> f64_le y z \<Longrightarrow> f64_lt x z"
  by (cases x; cases y; cases z) auto

lemma f64_le_lt_trans: "f64_le x y \<Longrightarrow> f64_lt y z \<Longrightarrow> f64_lt x z"
  by (cases x; cases y; cases z) auto

lemma f64_lt_irrefl [simp]: "\<not> f64_lt x x"
  by (cases x) auto

lemma f64_le_antisym: "f64_le x y \<Longrightarrow> f64_le y x \<Longrightarrow> x = y"
  by (cases x; cases y) auto

lemma f64_max_ge2: "b \<noteq> NaN \<Longrightarrow> f64_le b (f64_max a b)"
  by (cases a; cases b) auto

lemma f64_max_ge1: "a \<noteq> NaN \<Longrightarrow> f64_le a (f64_max a b)"
  by (cases a; cases b) auto

lemma f64_max_least: "f64_le a c \<Longrightarrow> f64_le b c \<Longrightarrow> f64_le (f64_max a b) c"
  by (cases a; cases b) auto

lemma f64_max_ok: "f64_ok a \<Longrightarrow> f64_ok b \<Longrightarrow> f64_ok (f64_max a b)"
  by (cases a; cases b) auto

lemma f64_max_mono:
  "f64_le a a' \<Longrightarrow> f64_le b b' \<Longrightarrow> f64_le (f64_max a b) (f64_max a' b')"
  by (rule f64_max_least)
    (blast intro: f64_le_trans f64_max_ge1 f64_max_ge2 dest: f64_le_not_NaN)+

subsection \<open>Rounding keeps the order\<close>

lemma to_f64_ok: "f64_ok (to_f64 x)"
  by (auto simp: to_f64_def Let_def r53.idem)

lemma to_f64_mono: "x \<le> y \<Longrightarrow> f64_le (to_f64 x) (to_f64 y)"
  using r53.mono [of x y] by (auto simp: to_f64_def Let_def f64_max_finite_bound_def)

lemma to_f64_id: "f64_ok (Fin a) \<Longrightarrow> to_f64 a = Fin a"
  by (auto simp: to_f64_def Let_def abs_less_iff)

lemma to_f64_pow: "- 1074 \<le> k \<Longrightarrow> k < 1024 \<Longrightarrow> to_f64 (2 powi k) = Fin (2 powi k)"
proof -
  assume k: "- 1074 \<le> k" "k < 1024"
  have "(2 :: rat) powi k < 2 powi 1024" using k(2) by (intro power_int_strict_increasing) auto
  then have "\<bar>(2 :: rat) powi k\<bar> < f64_max_finite_bound" by (simp add: f64_max_finite_bound_def)
  with round53_pow [OF k(1)] show ?thesis by (intro to_f64_id) simp
qed

lemma to_f64_zero [simp]: "to_f64 0 = Fin 0"
  by (simp add: to_f64_def f64_max_finite_bound_def)

lemma to_f64_not_NaN [simp]: "to_f64 x \<noteq> NaN"
  by (simp add: to_f64_def Let_def)

lemma to_f64_ge0: "0 \<le> x \<Longrightarrow> f64_ge0 (to_f64 x)"
  using to_f64_mono [of 0 x] by (simp add: f64_zero_def)

lemma f64_add_ok: "f64_ok a \<Longrightarrow> f64_ok b \<Longrightarrow> f64_ok (f64_add a b)"
  by (cases a; cases b) (auto simp: to_f64_ok)

lemma f64_mul_ok: "f64_ok a \<Longrightarrow> f64_ok b \<Longrightarrow> f64_ok (f64_mul a b)"
  by (cases a; cases b) (auto simp: to_f64_ok inf_of_sgn_def)

lemma f64_of_nat_ok: "f64_ok (f64_of_nat n)"
  by (simp add: f64_of_nat_def to_f64_ok)

lemma f64_of_nat_ge0: "f64_ge0 (f64_of_nat n)"
  by (simp add: f64_of_nat_def to_f64_ge0)

lemma f64_of_nat_0 [simp]: "f64_of_nat 0 = Fin 0"
  by (simp add: f64_of_nat_def)

lemma f64_of_nat_mono: "m \<le> n \<Longrightarrow> f64_le (f64_of_nat m) (f64_of_nat n)"
  by (simp add: f64_of_nat_def to_f64_mono)

text \<open>Adding something non-negative never lowers a value; sums and products of non-negatives are so.\<close>

lemma f64_add_ge: "f64_ok a \<Longrightarrow> a \<noteq> NaN \<Longrightarrow> f64_ge0 b \<Longrightarrow> f64_add a b \<noteq> NaN \<Longrightarrow> f64_le a (f64_add a b)"
proof (cases a; cases b)
  fix x y assume "a = Fin x" "b = Fin y" "f64_ok a" "f64_ge0 b"
  then show ?thesis
    using to_f64_mono [of x "x + y"] to_f64_id [of x] by (simp add: f64_zero_def)
qed (auto simp: f64_zero_def)

lemma f64_add_ge0: "f64_ge0 a \<Longrightarrow> f64_ge0 b \<Longrightarrow> f64_ge0 (f64_add a b)"
  by (cases a; cases b) (auto simp: f64_zero_def intro: to_f64_ge0 [unfolded f64_zero_def])

lemma f64_mul_ge0:
  "f64_ge0 a \<Longrightarrow> f64_ge0 b \<Longrightarrow> f64_mul a b \<noteq> NaN \<Longrightarrow> f64_ge0 (f64_mul a b)"
  by (cases a; cases b)
    (auto simp: f64_zero_def inf_of_sgn_def intro: to_f64_ge0 [unfolded f64_zero_def] split: if_splits)

lemma f64_mul_finite_not_NaN: "a = Fin x \<Longrightarrow> 0 < x \<Longrightarrow> b \<noteq> NaN \<Longrightarrow> f64_mul b a \<noteq> NaN"
  by (cases b) (auto simp: inf_of_sgn_def)

lemma f64_add_mono:
  assumes "f64_le a a'" "f64_le b b'" "f64_ge0 a" "f64_ge0 b"
  shows "f64_le (f64_add a b) (f64_add a' b')"
proof (cases "\<exists>x x' y y'. a = Fin x \<and> a' = Fin x' \<and> b = Fin y \<and> b' = Fin y'")
  case True
  then obtain x x' y y' where "a = Fin x" "a' = Fin x'" "b = Fin y" "b' = Fin y'" by blast
  with assms show ?thesis using to_f64_mono [of "x + y" "x' + y'"] by simp
next
  case False
  with assms show ?thesis
    by (cases a; cases a'; cases b; cases b') (auto simp: f64_zero_def to_f64_def Let_def)
qed

lemma f64_mul_zero [simp]: "f64_mul (Fin 0) (Fin d) = Fin 0"
  by simp

lemma f64_add_zero: "f64_ok a \<Longrightarrow> f64_add a (Fin 0) = a"
  by (cases a) (auto simp: to_f64_id)

text \<open>Scaling a non-negative value by a factor in \<open>(0, 1]\<close> never raises it.\<close>

lemma f64_scale_le:
  assumes "f64_ok a" "f64_ge0 a" "0 < d" "d \<le> 1"
  shows "f64_le (f64_mul a (Fin d)) a"
proof (cases a)
  case (Fin x)
  with assms have "x * d \<le> x" by (simp add: f64_zero_def mult_left_le)
  with Fin assms show ?thesis using to_f64_mono [of "x * d" x] to_f64_id [of x] by simp
qed (use assms in \<open>auto simp: f64_zero_def inf_of_sgn_def\<close>)

lemma f64_scale_ge0:
  assumes "f64_ge0 a" "0 < d"
  shows "f64_ge0 (f64_mul a (Fin d))"
  using assms f64_mul_ge0 [of a "Fin d"] f64_mul_finite_not_NaN [of "Fin d" d a]
  by (force simp: f64_zero_def dest: f64_le_not_NaN)

lemma f64_scale_mono:
  assumes "f64_le a b" "0 < d"
  shows "f64_le (f64_mul a (Fin d)) (f64_mul b (Fin d))"
proof (cases a; cases b)
  fix x y assume ab: "a = Fin x" "b = Fin y"
  with assms have "x * d \<le> y * d" by simp
  with ab show ?thesis by (simp add: to_f64_mono)
qed (use assms in \<open>auto simp: inf_of_sgn_def to_f64_def Let_def\<close>)

lemma f64_mul_nat_mono:
  assumes "m \<le> n" "f64_ge0 w" "f64_mul (f64_of_nat m) w \<noteq> NaN" "f64_mul (f64_of_nat n) w \<noteq> NaN"
  shows "f64_le (f64_mul (f64_of_nat m) w) (f64_mul (f64_of_nat n) w)"
proof -
  have mn: "f64_le (f64_of_nat m) (f64_of_nat n)" using assms by (simp add: f64_of_nat_mono)
  have m0: "f64_ge0 (f64_of_nat m)" by (rule f64_of_nat_ge0)
  show ?thesis
  proof (cases "f64_of_nat m"; cases "f64_of_nat n"; cases w)
    fix a b c assume *: "f64_of_nat m = Fin a" "f64_of_nat n = Fin b" "w = Fin c"
    with mn m0 assms have "a * c \<le> b * c" by (simp add: f64_zero_def mult_right_mono)
    with * show ?thesis by (simp add: to_f64_mono)
  qed (use mn m0 assms in \<open>auto simp: f64_zero_def inf_of_sgn_def to_f64_def Let_def split: if_splits\<close>)
qed

section \<open>Formatting with two decimals\<close>

text \<open>
  \<open>{:.2}\<close> prints the exact value rounded half to even at the second decimal.
\<close>

definition show_cents :: "nat \<Rightarrow> string" where
  "show_cents c = show_nat (c div 100) @ ''.'' @ [digit_char (c div 10 mod 10), digit_char (c mod 10)]"

fun fmt2 :: "f64 \<Rightarrow> string" where
  "fmt2 NaN = ''NaN''"
| "fmt2 PosInf = ''inf''"
| "fmt2 NegInf = ''-inf''"
| "fmt2 (Fin x) =
     (if x < 0 then ''-'' @ show_cents (nat (rne (- x * 100))) else show_cents (nat (rne (x * 100))))"

end
