(* ===== verification/Core_Config.thy ===== *)
theory Core_Config
  imports Core_Error Ctp_Float
begin

text \<open>
  The configuration schema of \<open>ctp-core/src/config.rs\<close>: the records, their defaults, the
  deserialisation the derived \<open>Deserialize\<close> instances perform on a parsed TOML table
  (\<open>deny_unknown_fields\<close>, defaults, required fields; a struct is read from a table, or from an array by
  position), and the validation of the values. The TOML
  parser itself, what its deserialiser makes of surplus elements and of enums that are not strings, the rendering of its
  errors and the parsing of socket addresses are crates:
  arguments of the definitions that use them.
\<close>

section \<open>The configuration records\<close>

datatype rule_action = ActBlock | ActFlag

datatype guard_backend_kind = Mock | Llama

record regex_rule_spec =
  rs_id :: string
  rs_pattern :: string
  rs_action :: rule_action
  rs_severity :: severity
  rs_description :: "string option"

record challenge_config =
  cc_max_payload_bytes :: nat
  cc_rules :: "regex_rule_spec list"

record guard_config =
  g_socket_path :: string
  g_backend :: guard_backend_kind
  g_model_path :: "string option"
  g_timeout_ms :: u64
  g_max_window_bytes :: nat
  g_window_overlap_bytes :: nat
  g_max_concurrent :: nat
  g_prompt_version :: string

record tool_policy =
  tp_enabled :: bool
  tp_max_result_bytes :: nat

record kernel_config =
  k_anomaly_threshold :: f64
  k_anomaly_decay :: f64
  k_anomaly_floor :: f64
  k_flag_weight :: f64
  k_max_sessions :: nat
  k_tools :: "string \<rightharpoonup> tool_policy"

record orchestrator_config =
  o_listen :: string
  o_metrics_listen :: string

record ctp_config =
  c_challenge :: challenge_config
  c_guard :: guard_config
  c_kernel :: kernel_config
  c_orchestrator :: orchestrator_config

section \<open>Defaults\<close>

definition default_max_payload_bytes :: nat where
  "default_max_payload_bytes = 32 * 1024"

definition default_rule_severity :: severity where
  "default_rule_severity = Medium"

definition default_socket_path :: string where
  "default_socket_path = ''/run/ctp/guard.sock''"

definition default_timeout_ms :: u64 where
  "default_timeout_ms = 500"

definition default_max_window_bytes :: nat where
  "default_max_window_bytes = 2048"

definition default_window_overlap_bytes :: nat where
  "default_window_overlap_bytes = 256"

definition default_max_concurrent :: nat where
  "default_max_concurrent = 4"

definition default_prompt_version :: string where
  "default_prompt_version = ''guard_system_v1''"

definition default_anomaly_threshold :: f64 where
  "default_anomaly_threshold = Fin 3"

definition default_anomaly_decay :: f64 where
  "default_anomaly_decay = Fin (1 / 2)"

definition default_anomaly_floor :: f64 where
  "default_anomaly_floor = Fin (1 / 2)"

definition default_flag_weight :: f64 where
  "default_flag_weight = Fin (1 / 2)"

definition default_max_sessions :: nat where
  "default_max_sessions = 10000"

definition default_max_result_bytes :: nat where
  "default_max_result_bytes = 256 * 1024"

definition default_listen :: string where
  "default_listen = ''127.0.0.1:50051''"

definition default_metrics_listen :: string where
  "default_metrics_listen = ''127.0.0.1:9464''"

definition default_tool_policy :: tool_policy where
  "default_tool_policy = \<lparr>tp_enabled = False, tp_max_result_bytes = default_max_result_bytes\<rparr>"

section \<open>Deny-by-default lookup\<close>

definition tool_policy_of :: "kernel_config \<Rightarrow> string \<Rightarrow> tool_policy" where
  "tool_policy_of k name = (case k_tools k name of Some p \<Rightarrow> p | None \<Rightarrow> default_tool_policy)"

lemma tool_policy_enabled_iff:
  "tp_enabled (tool_policy_of k name) \<longleftrightarrow> (\<exists>p. k_tools k name = Some p \<and> tp_enabled p)"
  by (simp add: tool_policy_of_def default_tool_policy_def split: option.splits)

section \<open>Validation\<close>

definition validate_guard :: "guard_config \<Rightarrow> ctp_error + unit" where
  "validate_guard g =
     and_then (fail_if (g_timeout_ms g = 0) (ConfigError ''guard.timeout_ms must be > 0'')) (\<lambda>_.
     and_then (fail_if (\<not> (64 \<le> g_max_window_bytes g \<and> g_max_window_bytes g \<le> 65536))
       (ConfigError ''guard.max_window_bytes must be within 64..=65536'')) (\<lambda>_.
     and_then (fail_if (g_max_window_bytes g \<le> g_window_overlap_bytes g)
       (ConfigError ''guard.window_overlap_bytes must be smaller than guard.max_window_bytes'')) (\<lambda>_.
     fail_if (g_backend g = Llama \<and> g_model_path g = None)
       (ConfigError (''guard.model_path is required for backend = '' @ [CHR 0x22] @ ''llama'' @ [CHR 0x22])))))"

definition validate_kernel :: "kernel_config \<Rightarrow> ctp_error + unit" where
  "validate_kernel k =
     and_then (fail_if (f64_le (k_anomaly_threshold k) f64_zero)
       (ConfigError ''kernel.anomaly_threshold must be > 0'')) (\<lambda>_.
     and_then (fail_if (\<not> (f64_lt f64_zero (k_anomaly_decay k) \<and> f64_le (k_anomaly_decay k) (Fin 1)))
       (ConfigError ''kernel.anomaly_decay must be within (0, 1]'')) (\<lambda>_.
     and_then (fail_if (f64_lt (k_flag_weight k) f64_zero)
       (ConfigError ''kernel.flag_weight must be >= 0'')) (\<lambda>_.
     fail_if (\<not> (f64_le f64_zero (k_anomaly_floor k) \<and> f64_lt (k_anomaly_floor k) (k_anomaly_threshold k)))
       (ConfigError ''kernel.anomaly_floor must be within [0, anomaly_threshold)''))))"

definition validate :: "ctp_config \<Rightarrow> ctp_error + unit" where
  "validate c =
     and_then (validate_guard (c_guard c)) (\<lambda>_.
     and_then (fail_if (cc_max_payload_bytes (c_challenge c) = 0)
       (ConfigError ''challenge.max_payload_bytes must be > 0'')) (\<lambda>_.
     validate_kernel (c_kernel c)))"

text \<open>What a validated configuration guarantees, read off the checks.\<close>

definition guard_valid :: "guard_config \<Rightarrow> bool" where
  "guard_valid g \<longleftrightarrow> g_timeout_ms g \<noteq> 0 \<and> 64 \<le> g_max_window_bytes g \<and> g_max_window_bytes g \<le> 65536
     \<and> g_window_overlap_bytes g < g_max_window_bytes g
     \<and> (g_backend g = Llama \<longrightarrow> g_model_path g \<noteq> None)"

text \<open>
  The weight of a flag may be NaN: the comparison \<open>flag_weight < 0.0\<close> is false for it. The
  threshold may be infinite. NaN is excluded everywhere else.
\<close>

definition kernel_valid :: "kernel_config \<Rightarrow> bool" where
  "kernel_valid k \<longleftrightarrow>
     f64_lt f64_zero (k_anomaly_threshold k)
     \<and> f64_lt f64_zero (k_anomaly_decay k) \<and> f64_le (k_anomaly_decay k) (Fin 1)
     \<and> (k_flag_weight k = NaN \<or> f64_ge0 (k_flag_weight k))
     \<and> f64_ge0 (k_anomaly_floor k) \<and> f64_lt (k_anomaly_floor k) (k_anomaly_threshold k)"

lemma validate_guard_Inr_iff: "validate_guard g = Inr u \<longleftrightarrow> guard_valid g"
  by (auto simp: validate_guard_def guard_valid_def and_then_Inr_iff)

lemma validate_kernel_Inr_iff: "validate_kernel k = Inr u \<longleftrightarrow> kernel_valid k"
proof -
  have w: "\<not> f64_lt w f64_zero \<longleftrightarrow> w = NaN \<or> f64_ge0 w" for w
    by (cases w) (auto simp: f64_zero_def)
  have t: "\<not> f64_le t f64_zero \<and> f64_ge0 f \<and> f64_lt f t \<longleftrightarrow> f64_lt f64_zero t \<and> f64_ge0 f \<and> f64_lt f t" for t f
    by (cases t; cases f) (auto simp: f64_zero_def)
  show ?thesis
    unfolding validate_kernel_def kernel_valid_def and_then_Inr_iff fail_if_Inr_iff
    using w t by blast
qed

lemma validate_Inr_iff:
  "validate c = Inr u \<longleftrightarrow>
     guard_valid (c_guard c) \<and> 0 < cc_max_payload_bytes (c_challenge c) \<and> kernel_valid (c_kernel c)"
  by (auto simp: validate_def and_then_Inr_iff validate_guard_Inr_iff validate_kernel_Inr_iff)

lemma validate_Inl: "validate c = Inl e \<Longrightarrow> \<exists>m. e = ConfigError m"
  by (auto simp: validate_def validate_guard_def validate_kernel_def and_then_Inl_iff)

section \<open>Deserialisation\<close>

datatype toml =
    TomlString string
  | TomlInt int
  | TomlFloat f64
  | TomlBool bool
  | TomlDatetime string
  | TomlArray "toml list"
  | TomlTable "(string \<times> toml) list"

type_synonym toml_table = "(string \<times> toml) list"

datatype de_error = UnknownField string | MissingField string | InvalidLength nat | InvalidType | InvalidValue

text \<open>
  The crates behind \<open>toml::from_str\<close>: the parser of the text (its error rendered), the rendering of
  a deserialisation error, whether the elements of an array that a visitor left over are an error, the name of the
  variant that a value other than a string gives for an enum without fields, if it gives one, and the
  parser of socket addresses.
\<close>

record toml_api =
  toml_parse :: "string \<Rightarrow> string + toml_table"
  toml_show_error :: "de_error \<Rightarrow> string"
  toml_checks_length :: bool
  toml_variant :: "toml \<Rightarrow> string option"
  toml_parse_addr :: "string \<Rightarrow> string option"

text \<open>
  The scalar deserialisers. An integer is accepted where a float is expected; unsigned fields
  refuse negative numbers; no integer visitor takes more than 64 bits; an enum is its lower-case variant name.
\<close>

fun de_string :: "toml \<Rightarrow> de_error + string" where
  "de_string (TomlString s) = Inr s"
| "de_string _ = Inl InvalidType"

fun de_bool :: "toml \<Rightarrow> de_error + bool" where
  "de_bool (TomlBool b) = Inr b"
| "de_bool _ = Inl InvalidType"

fun de_nat :: "toml \<Rightarrow> de_error + nat" where
  "de_nat (TomlInt i) = (if i < 0 \<or> 2 ^ 64 \<le> i then Inl InvalidValue else Inr (nat i))"
| "de_nat _ = Inl InvalidType"

fun de_u64 :: "toml \<Rightarrow> de_error + u64" where
  "de_u64 v = and_then (de_nat v) (\<lambda>n. Inr (of_nat n))"

fun de_f64 :: "toml \<Rightarrow> de_error + f64" where
  "de_f64 (TomlFloat x) = Inr x"
| "de_f64 (TomlInt i) = (if i < - (2 ^ 63) \<or> 2 ^ 64 \<le> i then Inl InvalidType else Inr (to_f64 (of_int i)))"
| "de_f64 _ = Inl InvalidType"

fun de_option :: "(toml \<Rightarrow> de_error + 'a) \<Rightarrow> toml \<Rightarrow> de_error + 'a option" where
  "de_option de v = and_then (de v) (\<lambda>x. Inr (Some x))"

fun de_array :: "(toml \<Rightarrow> de_error + 'a) \<Rightarrow> toml \<Rightarrow> de_error + 'a list" where
  "de_array de (TomlArray vs) = try_map de vs"
| "de_array de _ = Inl InvalidType"

fun de_table :: "toml \<Rightarrow> de_error + toml_table" where
  "de_table (TomlTable t) = Inr t"
| "de_table _ = Inl InvalidType"

definition de_variant :: "toml_api \<Rightarrow> (string \<times> 'a) list \<Rightarrow> toml \<Rightarrow> de_error + 'a" where
  "de_variant api names v =
     (case (case v of TomlString s \<Rightarrow> Some s | _ \<Rightarrow> toml_variant api v) of
        None \<Rightarrow> Inl InvalidType
      | Some s \<Rightarrow> (case map_of names s of Some x \<Rightarrow> Inr x | None \<Rightarrow> Inl InvalidValue))"

text \<open>
  A struct. Its derived visitor takes a table, whose keys must all be fields of the struct
  (\<open>deny_unknown_fields\<close>), and also an array, whose elements are its fields in the order of their
  declaration. Either way a field that is not given takes its default, if it has one. The fields given, and
  whether they were given by position:
\<close>

fun deny_unknown :: "string list \<Rightarrow> toml_table \<Rightarrow> de_error + unit" where
  "deny_unknown known [] = Inr ()"
| "deny_unknown known ((k, v) # t) =
     (if k \<in> set known then deny_unknown known t else Inl (UnknownField k))"

type_synonym given = "bool \<times> toml_table"

fun de_struct :: "toml_api \<Rightarrow> string list \<Rightarrow> toml \<Rightarrow> de_error + given" where
  "de_struct api known (TomlTable t) = and_then (deny_unknown known t) (\<lambda>_. Inr (False, t))"
| "de_struct api known (TomlArray vs) =
     (if toml_checks_length api \<and> length known < length vs then Inl (InvalidLength (length vs))
      else Inr (True, zip known vs))"
| "de_struct api known _ = Inl InvalidType"

definition field :: "string \<Rightarrow> (toml \<Rightarrow> de_error + 'a) \<Rightarrow> 'a option \<Rightarrow> given \<Rightarrow> de_error + 'a" where
  "field name de dflt g =
     (case map_of (snd g) name of
        Some v \<Rightarrow> de v
      | None \<Rightarrow> (case dflt of Some d \<Rightarrow> Inr d
                 | None \<Rightarrow> Inl (if fst g then InvalidLength (length (snd g)) else MissingField name)))"

lemma deny_unknown_Inr_iff: "deny_unknown known t = Inr u \<longleftrightarrow> fst ` set t \<subseteq> set known"
proof (induction t)
  case (Cons kv t)
  then show ?case by (cases kv; cases "fst kv \<in> set known") auto
qed simp

lemma field_Inr_iff:
  "field name de dflt g = Inr x \<longleftrightarrow>
    (\<exists>v. map_of (snd g) name = Some v \<and> de v = Inr x) \<or> (map_of (snd g) name = None \<and> dflt = Some x)"
  by (auto simp: field_def split: option.splits)

definition de_severity :: "toml_api \<Rightarrow> toml \<Rightarrow> de_error + severity" where
  "de_severity api = de_variant api [(''info'', Info), (''low'', Low), (''medium'', Medium),
     (''high'', High), (''critical'', Critical)]"

definition de_rule_action :: "toml_api \<Rightarrow> toml \<Rightarrow> de_error + rule_action" where
  "de_rule_action api = de_variant api [(''block'', ActBlock), (''flag'', ActFlag)]"

definition de_backend :: "toml_api \<Rightarrow> toml \<Rightarrow> de_error + guard_backend_kind" where
  "de_backend api = de_variant api [(''mock'', Mock), (''llama'', Llama)]"

definition de_rule_spec :: "toml_api \<Rightarrow> toml \<Rightarrow> de_error + regex_rule_spec" where
  "de_rule_spec api v =
     and_then (de_struct api [''id'', ''pattern'', ''action'', ''severity'', ''description''] v) (\<lambda>t.
     and_then (field ''id'' de_string None t) (\<lambda>i.
     and_then (field ''pattern'' de_string None t) (\<lambda>p.
     and_then (field ''action'' (de_rule_action api) None t) (\<lambda>a.
     and_then (field ''severity'' (de_severity api) (Some default_rule_severity) t) (\<lambda>s.
     and_then (field ''description'' (de_option de_string) (Some None) t) (\<lambda>d.
     Inr \<lparr>rs_id = i, rs_pattern = p, rs_action = a, rs_severity = s, rs_description = d\<rparr>))))))"

definition de_challenge :: "toml_api \<Rightarrow> toml \<Rightarrow> de_error + challenge_config" where
  "de_challenge api v =
     and_then (de_struct api [''max_payload_bytes'', ''rules''] v) (\<lambda>t.
     and_then (field ''max_payload_bytes'' de_nat (Some default_max_payload_bytes) t) (\<lambda>m.
     and_then (field ''rules'' (de_array (de_rule_spec api)) (Some []) t) (\<lambda>r.
     Inr \<lparr>cc_max_payload_bytes = m, cc_rules = r\<rparr>)))"

definition de_guard :: "toml_api \<Rightarrow> toml \<Rightarrow> de_error + guard_config" where
  "de_guard api v =
     and_then (de_struct api [''socket_path'', ''backend'', ''model_path'', ''timeout_ms'',
       ''max_window_bytes'', ''window_overlap_bytes'', ''max_concurrent'', ''prompt_version''] v) (\<lambda>t.
     and_then (field ''socket_path'' de_string (Some default_socket_path) t) (\<lambda>sp.
     and_then (field ''backend'' (de_backend api) None t) (\<lambda>b.
     and_then (field ''model_path'' (de_option de_string) (Some None) t) (\<lambda>mp.
     and_then (field ''timeout_ms'' de_u64 (Some default_timeout_ms) t) (\<lambda>tm.
     and_then (field ''max_window_bytes'' de_nat (Some default_max_window_bytes) t) (\<lambda>mw.
     and_then (field ''window_overlap_bytes'' de_nat (Some default_window_overlap_bytes) t) (\<lambda>ov.
     and_then (field ''max_concurrent'' de_nat (Some default_max_concurrent) t) (\<lambda>mc.
     and_then (field ''prompt_version'' de_string (Some default_prompt_version) t) (\<lambda>pv.
     Inr \<lparr>g_socket_path = sp, g_backend = b, g_model_path = mp, g_timeout_ms = tm,
          g_max_window_bytes = mw, g_window_overlap_bytes = ov, g_max_concurrent = mc,
          g_prompt_version = pv\<rparr>)))))))))"

definition de_tool_policy :: "toml_api \<Rightarrow> toml \<Rightarrow> de_error + tool_policy" where
  "de_tool_policy api v =
     and_then (de_struct api [''enabled'', ''max_result_bytes''] v) (\<lambda>t.
     and_then (field ''enabled'' de_bool (Some False) t) (\<lambda>e.
     and_then (field ''max_result_bytes'' de_nat (Some default_max_result_bytes) t) (\<lambda>m.
     Inr \<lparr>tp_enabled = e, tp_max_result_bytes = m\<rparr>)))"

text \<open>A \<open>HashMap\<close> field is a table only: every entry of it is deserialised.\<close>

definition de_tools :: "toml_api \<Rightarrow> toml \<Rightarrow> de_error + (string \<rightharpoonup> tool_policy)" where
  "de_tools api v =
     and_then (de_table v) (\<lambda>t.
     and_then (try_map (\<lambda>(k, w). and_then (de_tool_policy api w) (\<lambda>p. Inr (k, p))) t) (\<lambda>ps.
     Inr (map_of ps)))"

definition de_kernel :: "toml_api \<Rightarrow> toml \<Rightarrow> de_error + kernel_config" where
  "de_kernel api v =
     and_then (de_struct api [''anomaly_threshold'', ''anomaly_decay'', ''anomaly_floor'',
       ''flag_weight'', ''max_sessions'', ''tools''] v) (\<lambda>t.
     and_then (field ''anomaly_threshold'' de_f64 (Some default_anomaly_threshold) t) (\<lambda>th.
     and_then (field ''anomaly_decay'' de_f64 (Some default_anomaly_decay) t) (\<lambda>dc.
     and_then (field ''anomaly_floor'' de_f64 (Some default_anomaly_floor) t) (\<lambda>fl.
     and_then (field ''flag_weight'' de_f64 (Some default_flag_weight) t) (\<lambda>fw.
     and_then (field ''max_sessions'' de_nat (Some default_max_sessions) t) (\<lambda>ms.
     and_then (field ''tools'' (de_tools api) (Some Map.empty) t) (\<lambda>ts.
     Inr \<lparr>k_anomaly_threshold = th, k_anomaly_decay = dc, k_anomaly_floor = fl,
          k_flag_weight = fw, k_max_sessions = ms, k_tools = ts\<rparr>)))))))"

definition de_orchestrator :: "toml_api \<Rightarrow> toml \<Rightarrow> de_error + orchestrator_config" where
  "de_orchestrator api v =
     (let de_addr = (\<lambda>w. and_then (de_string w) (\<lambda>s.
        case toml_parse_addr api s of Some a \<Rightarrow> Inr a | None \<Rightarrow> Inl InvalidValue)) in
     and_then (de_struct api [''listen'', ''metrics_listen''] v) (\<lambda>t.
     and_then (field ''listen'' de_addr (Some default_listen) t) (\<lambda>l.
     and_then (field ''metrics_listen'' de_addr (Some default_metrics_listen) t) (\<lambda>m.
     Inr \<lparr>o_listen = l, o_metrics_listen = m\<rparr>))))"

text \<open>The document itself is always a table.\<close>

definition de_config :: "toml_api \<Rightarrow> toml_table \<Rightarrow> de_error + ctp_config" where
  "de_config api doc =
     and_then (de_struct api [''challenge'', ''guard'', ''kernel'', ''orchestrator''] (TomlTable doc)) (\<lambda>t.
     and_then (field ''challenge'' (de_challenge api) None t) (\<lambda>c.
     and_then (field ''guard'' (de_guard api) None t) (\<lambda>g.
     and_then (field ''kernel'' (de_kernel api) None t) (\<lambda>k.
     and_then (field ''orchestrator'' (de_orchestrator api) None t) (\<lambda>orc.
     Inr \<lparr>c_challenge = c, c_guard = g, c_kernel = k, c_orchestrator = orc\<rparr>)))))"

definition toml_from_str :: "toml_api \<Rightarrow> string \<Rightarrow> string + ctp_config" where
  "toml_from_str api raw =
     and_then (toml_parse api raw) (\<lambda>t.
       case de_config api t of
         Inl e \<Rightarrow> Inl (toml_show_error api e)
       | Inr c \<Rightarrow> Inr c)"

definition from_toml_str :: "toml_api \<Rightarrow> string \<Rightarrow> ctp_error + ctp_config" where
  "from_toml_str api raw =
     (case toml_from_str api raw of
        Inl e \<Rightarrow> Inl (ConfigError (''parse: '' @ e))
      | Inr c \<Rightarrow> and_then (validate c) (\<lambda>_. Inr c))"

text \<open>\<open>load\<close>: \<open>read\<close> is \<open>std::fs::read_to_string\<close> on the file system, with its error rendered.\<close>

definition config_load :: "toml_api \<Rightarrow> (string \<Rightarrow> string + string) \<Rightarrow> string \<Rightarrow> ctp_error + ctp_config" where
  "config_load api read path =
     (case read path of
        Inl e \<Rightarrow> Inl (ConfigError (''read '' @ path @ '': '' @ e))
      | Inr raw \<Rightarrow> from_toml_str api raw)"

section \<open>What a loaded configuration guarantees\<close>

lemmas de_simps = de_config_def de_challenge_def de_guard_def de_kernel_def de_orchestrator_def
  de_rule_spec_def de_tool_policy_def Let_def

lemma de_table_Inr_iff [simp]: "de_table v = Inr t \<longleftrightarrow> v = TomlTable t"
  by (cases v) auto

lemma de_bool_Inr_iff [simp]: "de_bool v = Inr b \<longleftrightarrow> v = TomlBool b"
  by (cases v) auto

lemma de_string_Inr_iff [simp]: "de_string v = Inr s \<longleftrightarrow> v = TomlString s"
  by (cases v) auto

lemma from_toml_str_Inr_iff:
  "from_toml_str api raw = Inr c \<longleftrightarrow>
    (\<exists>t. toml_parse api raw = Inr t \<and> de_config api t = Inr c \<and> validate c = Inr ())"
proof (cases "toml_parse api raw")
  case (Inr t)
  then show ?thesis
    by (cases "de_config api t")
      (auto simp: from_toml_str_def toml_from_str_def and_then_Inr_iff)
qed (simp add: from_toml_str_def toml_from_str_def)

lemma from_toml_str_Inl: "from_toml_str api raw = Inl e \<Longrightarrow> \<exists>m. e = ConfigError m"
  by (auto simp: from_toml_str_def and_then_Inl_iff dest: validate_Inl split: sum.splits)

lemma config_load_Inl: "config_load api read path = Inl e \<Longrightarrow> \<exists>m. e = ConfigError m"
  by (auto simp: config_load_def dest: from_toml_str_Inl split: sum.splits)

text \<open>
  What a configuration gives for a field, in the words of the file: the value under the field's key in a
  table, or at its position in an array.
\<close>

fun given_at :: "nat \<Rightarrow> string \<Rightarrow> toml \<Rightarrow> toml option" where
  "given_at i name (TomlTable t) = map_of t name"
| "given_at i name (TomlArray vs) = (if i < length vs then Some (vs ! i) else None)"
| "given_at i name _ = None"

text \<open>A table has only the keys listed; an array has none.\<close>

fun only_keys :: "string list \<Rightarrow> toml \<Rightarrow> bool" where
  "only_keys known (TomlTable t) \<longleftrightarrow> fst ` set t \<subseteq> set known"
| "only_keys known _ \<longleftrightarrow> True"

lemma map_of_zip_nth:
  "distinct known \<Longrightarrow> i < length known \<Longrightarrow> map_of (zip known vs) (known ! i) = (if i < length vs then Some (vs ! i) else None)"
proof (induction known arbitrary: i vs)
  case (Cons k ks)
  then show ?case by (cases vs; cases i) auto
qed simp

lemma de_struct_given:
  assumes "de_struct api known v = Inr g"
  shows "only_keys known v" "distinct known \<Longrightarrow> i < length known \<Longrightarrow> map_of (snd g) (known ! i) = given_at i (known ! i) v"
proof -
  show "only_keys known v" using assms
    by (cases v) (auto simp: and_then_Inr_iff deny_unknown_Inr_iff subset_iff)
  show "map_of (snd g) (known ! i) = given_at i (known ! i) v" if "distinct known" "i < length known"
  proof (cases v)
    case (TomlArray vs)
    then show ?thesis using assms map_of_zip_nth [OF that, of vs] by (auto split: if_splits)
  qed (use assms in \<open>auto simp: and_then_Inr_iff\<close>)
qed

lemma given_tool:
  assumes "de_struct api [''enabled'', ''max_result_bytes''] v = Inr g"
  shows "map_of (snd g) ''enabled'' = given_at 0 ''enabled'' v"
  using de_struct_given(2) [OF assms, of 0] by simp

lemma given_kernel:
  assumes "de_struct api [''anomaly_threshold'', ''anomaly_decay'', ''anomaly_floor'',
    ''flag_weight'', ''max_sessions'', ''tools''] v = Inr g"
  shows "map_of (snd g) ''tools'' = given_at 5 ''tools'' v"
  using de_struct_given(2) [OF assms, of 5] by simp

lemma given_guard:
  assumes "de_struct api [''socket_path'', ''backend'', ''model_path'', ''timeout_ms'',
    ''max_window_bytes'', ''window_overlap_bytes'', ''max_concurrent'', ''prompt_version''] v = Inr g"
  shows "map_of (snd g) ''backend'' = given_at 1 ''backend'' v"
  using de_struct_given(2) [OF assms, of 1] by simp

lemma given_challenge:
  assumes "de_struct api [''max_payload_bytes'', ''rules''] v = Inr g"
  shows "map_of (snd g) ''rules'' = given_at 1 ''rules'' v"
  using de_struct_given(2) [OF assms, of 1] by simp

lemma de_config_sections:
  assumes "de_config api t = Inr c"
  obtains cv gv kv ov where "only_keys [''challenge'', ''guard'', ''kernel'', ''orchestrator''] (TomlTable t)"
    "map_of t ''challenge'' = Some cv" "de_challenge api cv = Inr (c_challenge c)"
    "map_of t ''guard'' = Some gv" "de_guard api gv = Inr (c_guard c)"
    "map_of t ''kernel'' = Some kv" "de_kernel api kv = Inr (c_kernel c)"
    "map_of t ''orchestrator'' = Some ov" "de_orchestrator api ov = Inr (c_orchestrator c)"
proof -
  have req: "\<exists>v. map_of (snd g) name = Some v \<and> de v = Inr x" if "field name de None g = Inr x"
    for g and name :: string and de and x :: 'b using that by (simp add: field_Inr_iff)
  from assms obtain g cc gc kc oc where g: "de_struct api [''challenge'', ''guard'', ''kernel'', ''orchestrator''] (TomlTable t) = Inr g"
    "field ''challenge'' (de_challenge api) None g = Inr cc" "field ''guard'' (de_guard api) None g = Inr gc"
    "field ''kernel'' (de_kernel api) None g = Inr kc" "field ''orchestrator'' (de_orchestrator api) None g = Inr oc"
    "c = \<lparr>c_challenge = cc, c_guard = gc, c_kernel = kc, c_orchestrator = oc\<rparr>"
    unfolding de_config_def and_then_Inr_iff sum.inject by (elim exE conjE) (rule that, assumption+, rule sym, assumption)
  have t: "snd g = t" using g(1) by (auto simp: and_then_Inr_iff)
  from req [OF g(2)] req [OF g(3)] req [OF g(4)] req [OF g(5)] obtain cv gv kv ov where
    "map_of t ''challenge'' = Some cv" "de_challenge api cv = Inr cc" "map_of t ''guard'' = Some gv" "de_guard api gv = Inr gc"
    "map_of t ''kernel'' = Some kv" "de_kernel api kv = Inr kc" "map_of t ''orchestrator'' = Some ov" "de_orchestrator api ov = Inr oc"
    unfolding t by blast
  with de_struct_given(1) [OF g(1)] that show thesis by (simp only: g(6) ctp_config.select_convs)
qed

lemma de_tools_lookup:
  assumes "de_tools api v = Inr m" "m name = Some p"
  obtains t w where "v = TomlTable t" "map_of t name = Some w" "de_tool_policy api w = Inr p"
proof -
  from assms obtain t ps where t: "v = TomlTable t" "m = map_of ps"
    and ps: "list_all2 (\<lambda>x y. (case x of (k, w) \<Rightarrow> and_then (de_tool_policy api w) (\<lambda>p. Inr (k, p))) = Inr y) t ps"
    by (auto simp: de_tools_def and_then_Inr_iff try_map_Inr_iff)
  have "map_of ps name = Some p \<Longrightarrow> \<exists>w. map_of t name = Some w \<and> de_tool_policy api w = Inr p"
    using ps by (induction rule: list_all2_induct) (auto simp: and_then_Inr_iff split: if_splits)
  with assms t that show thesis by auto
qed

lemma de_tools_all:
  assumes "de_tools api v = Inr m"
  obtains t where "v = TomlTable t" "\<forall>(name, w) \<in> set t. \<exists>p. de_tool_policy api w = Inr p"
proof -
  from assms obtain t ps where t: "v = TomlTable t"
    and ps: "list_all2 (\<lambda>x y. (case x of (k, w) \<Rightarrow> and_then (de_tool_policy api w) (\<lambda>p. Inr (k, p))) = Inr y) t ps"
    by (auto simp: de_tools_def and_then_Inr_iff try_map_Inr_iff)
  have "\<forall>(name, w) \<in> set t. \<exists>p. de_tool_policy api w = Inr p"
    using ps by (induction rule: list_all2_induct) (auto simp: and_then_Inr_iff)
  with t that show thesis by blast
qed

lemma de_tool_policy_enabled:
  "de_tool_policy api w = Inr p \<Longrightarrow> tp_enabled p \<Longrightarrow> given_at 0 ''enabled'' w = Some (TomlBool True)"
  by (auto simp: de_tool_policy_def and_then_Inr_iff field_Inr_iff dest: given_tool)

lemma de_kernel_given_tools:
  assumes "de_kernel api v = Inr kc"
  obtains g where "de_struct api [''anomaly_threshold'', ''anomaly_decay'', ''anomaly_floor'',
      ''flag_weight'', ''max_sessions'', ''tools''] v = Inr g"
    "field ''tools'' (de_tools api) (Some Map.empty) g = Inr (k_tools kc)"
  using assms unfolding de_kernel_def and_then_Inr_iff sum.inject by (elim exE conjE) (rule that, assumption, clarsimp)

lemma de_kernel_tools:
  assumes "de_kernel api v = Inr kc" "k_tools kc name = Some p"
  obtains ts where "given_at 5 ''tools'' v = Some ts" "de_tools api ts = Inr (k_tools kc)"
proof -
  obtain g where g: "de_struct api [''anomaly_threshold'', ''anomaly_decay'', ''anomaly_floor'',
      ''flag_weight'', ''max_sessions'', ''tools''] v = Inr g"
    "field ''tools'' (de_tools api) (Some Map.empty) g = Inr (k_tools kc)"
    by (rule de_kernel_given_tools [OF assms(1)])
  have "k_tools kc \<noteq> Map.empty" using assms(2) by auto
  then show thesis using that g(2) given_kernel [OF g(1)] by (auto simp: field_Inr_iff)
qed

text \<open>A configuration in which every section that is a table has only the keys of the schema.\<close>

definition schema_keys :: "toml_table \<Rightarrow> bool" where
  "schema_keys t \<longleftrightarrow>
     fst ` set t \<subseteq> {''challenge'', ''guard'', ''kernel'', ''orchestrator''}
     \<and> (\<forall>v. map_of t ''challenge'' = Some v \<longrightarrow> only_keys [''max_payload_bytes'', ''rules''] v
          \<and> (\<forall>rs r. given_at 1 ''rules'' v = Some (TomlArray rs) \<and> r \<in> set rs
               \<longrightarrow> only_keys [''id'', ''pattern'', ''action'', ''severity'', ''description''] r))
     \<and> (\<forall>v. map_of t ''guard'' = Some v \<longrightarrow> only_keys [''socket_path'', ''backend'', ''model_path'', ''timeout_ms'',
           ''max_window_bytes'', ''window_overlap_bytes'', ''max_concurrent'', ''prompt_version''] v)
     \<and> (\<forall>v. map_of t ''kernel'' = Some v \<longrightarrow> only_keys [''anomaly_threshold'', ''anomaly_decay'', ''anomaly_floor'',
           ''flag_weight'', ''max_sessions'', ''tools''] v
          \<and> (\<forall>ts name w. given_at 5 ''tools'' v = Some (TomlTable ts) \<and> (name, w) \<in> set ts
               \<longrightarrow> only_keys [''enabled'', ''max_result_bytes''] w))
     \<and> (\<forall>v. map_of t ''orchestrator'' = Some v \<longrightarrow> only_keys [''listen'', ''metrics_listen''] v)"

lemma de_rule_spec_known: "de_rule_spec api r = Inr x \<Longrightarrow> only_keys [''id'', ''pattern'', ''action'', ''severity'', ''description''] r"
  by (auto simp only: de_rule_spec_def and_then_Inr_iff dest: de_struct_given(1))

lemma de_array_all: "de_array de (TomlArray vs) = Inr xs \<Longrightarrow> v \<in> set vs \<Longrightarrow> \<exists>x. de v = Inr x"
  by (auto simp: try_map_Inr_iff in_set_conv_nth list_all2_conv_all_nth)

lemma de_challenge_known:
  assumes "de_challenge api v = Inr cc"
  shows "only_keys [''max_payload_bytes'', ''rules''] v"
    "given_at 1 ''rules'' v = Some (TomlArray rs) \<Longrightarrow> r \<in> set rs
      \<Longrightarrow> only_keys [''id'', ''pattern'', ''action'', ''severity'', ''description''] r"
proof -
  from assms obtain g m rules where g: "de_struct api [''max_payload_bytes'', ''rules''] v = Inr g"
    "field ''rules'' (de_array (de_rule_spec api)) (Some []) g = Inr rules"
    by (auto simp only: de_challenge_def and_then_Inr_iff)
  show "only_keys [''max_payload_bytes'', ''rules''] v" by (rule de_struct_given(1) [OF g(1)])
  show "only_keys [''id'', ''pattern'', ''action'', ''severity'', ''description''] r"
    if "given_at 1 ''rules'' v = Some (TomlArray rs)" "r \<in> set rs"
    using g(2) that given_challenge [OF g(1)] de_array_all [of "de_rule_spec api" rs rules r]
    by (auto simp: field_Inr_iff simp del: de_array.simps only_keys.simps dest: de_rule_spec_known)
qed

lemma de_guard_known:
  assumes "de_guard api v = Inr gc"
  shows "only_keys [''socket_path'', ''backend'', ''model_path'', ''timeout_ms'',
      ''max_window_bytes'', ''window_overlap_bytes'', ''max_concurrent'', ''prompt_version''] v"
    "given_at 1 ''backend'' v \<noteq> None"
proof -
  from assms obtain g b where g: "de_struct api [''socket_path'', ''backend'', ''model_path'', ''timeout_ms'',
      ''max_window_bytes'', ''window_overlap_bytes'', ''max_concurrent'', ''prompt_version''] v = Inr g"
    "field ''backend'' (de_backend api) None g = Inr b"
    by (auto simp only: de_guard_def and_then_Inr_iff)
  show "only_keys [''socket_path'', ''backend'', ''model_path'', ''timeout_ms'',
      ''max_window_bytes'', ''window_overlap_bytes'', ''max_concurrent'', ''prompt_version''] v"
    by (rule de_struct_given(1) [OF g(1)])
  show "given_at 1 ''backend'' v \<noteq> None" using g(2) given_guard [OF g(1)] by (auto simp: field_Inr_iff)
qed

lemma de_tool_policy_known: "de_tool_policy api w = Inr p \<Longrightarrow> only_keys [''enabled'', ''max_result_bytes''] w"
  by (auto simp only: de_tool_policy_def and_then_Inr_iff dest: de_struct_given(1))

lemma de_kernel_known:
  assumes "de_kernel api v = Inr kc"
  shows "only_keys [''anomaly_threshold'', ''anomaly_decay'', ''anomaly_floor'', ''flag_weight'', ''max_sessions'', ''tools''] v"
    "given_at 5 ''tools'' v = Some (TomlTable ts) \<Longrightarrow> (name, w) \<in> set ts \<Longrightarrow> only_keys [''enabled'', ''max_result_bytes''] w"
proof -
  obtain g where g: "de_struct api [''anomaly_threshold'', ''anomaly_decay'', ''anomaly_floor'',
      ''flag_weight'', ''max_sessions'', ''tools''] v = Inr g"
    "field ''tools'' (de_tools api) (Some Map.empty) g = Inr (k_tools kc)"
    by (rule de_kernel_given_tools [OF assms])
  show "only_keys [''anomaly_threshold'', ''anomaly_decay'', ''anomaly_floor'', ''flag_weight'', ''max_sessions'', ''tools''] v"
    by (rule de_struct_given(1) [OF g(1)])
  show "only_keys [''enabled'', ''max_result_bytes''] w"
    if ts: "given_at 5 ''tools'' v = Some (TomlTable ts)" "(name, w) \<in> set ts"
  proof -
    have "de_tools api (TomlTable ts) = Inr (k_tools kc)" using g(2) given_kernel [OF g(1)] ts(1) by (simp add: field_Inr_iff)
    then obtain t where "TomlTable ts = TomlTable t" "\<forall>(name, w) \<in> set t. \<exists>p. de_tool_policy api w = Inr p"
      by (rule de_tools_all)
    then show ?thesis using ts(2) de_tool_policy_known by fastforce
  qed
qed

lemma de_orchestrator_known: "de_orchestrator api v = Inr oc \<Longrightarrow> only_keys [''listen'', ''metrics_listen''] v"
  by (auto simp only: de_orchestrator_def Let_def and_then_Inr_iff dest: de_struct_given(1))

section \<open>Properties\<close>

text \<open>C34: A configuration that loads is safe: the guard has a non-zero timeout, windows of 64 to 65536
  bytes with a smaller overlap and a model if it needs one, the size cap is positive, and the
  ledger's parameters are in range; every other input is refused with a configuration error.\<close>
theorem loaded_config_is_valid:
  "case from_toml_str api raw of
     Inr c \<Rightarrow> g_timeout_ms (c_guard c) \<noteq> 0
       \<and> 64 \<le> g_max_window_bytes (c_guard c) \<and> g_max_window_bytes (c_guard c) \<le> 65536
       \<and> g_window_overlap_bytes (c_guard c) < g_max_window_bytes (c_guard c)
       \<and> \<not> (g_backend (c_guard c) = Llama \<and> g_model_path (c_guard c) = None)
       \<and> 0 < cc_max_payload_bytes (c_challenge c)
       \<and> f64_lt f64_zero (k_anomaly_threshold (c_kernel c))
       \<and> f64_lt f64_zero (k_anomaly_decay (c_kernel c)) \<and> f64_le (k_anomaly_decay (c_kernel c)) (Fin 1)
       \<and> \<not> f64_lt (k_flag_weight (c_kernel c)) f64_zero
       \<and> f64_ge0 (k_anomaly_floor (c_kernel c))
       \<and> f64_lt (k_anomaly_floor (c_kernel c)) (k_anomaly_threshold (c_kernel c))
   | Inl e \<Rightarrow> \<exists>m. e = ConfigError m"
proof (cases "from_toml_str api raw")
  case (Inl e)
  then show ?thesis by (auto dest: from_toml_str_Inl)
next
  case (Inr c)
  then have v: "guard_valid (c_guard c)" "0 < cc_max_payload_bytes (c_challenge c)" "kernel_valid (c_kernel c)"
    by (auto simp: from_toml_str_Inr_iff validate_Inr_iff)
  have "\<not> f64_lt (k_flag_weight (c_kernel c)) f64_zero"
    using v(3) by (cases "k_flag_weight (c_kernel c)") (auto simp: kernel_valid_def f64_zero_def)
  with v Inr show ?thesis by (auto simp: guard_valid_def kernel_valid_def)
qed

text \<open>C24: Tools are denied by default: a loaded configuration enables a tool only if its text gives, in the entry of
  that very tool in the table of tools of the kernel section, the literal value true for \<open>enabled\<close>: under this key
  when the entry is a table, in the first place when it is an array. An absent tool, an empty entry and an absent key
  all leave it disabled.\<close>
theorem tool_enabled_only_literally:
  assumes "from_toml_str api raw = Inr c" "tp_enabled (tool_policy_of (c_kernel c) name)"
  shows "\<exists>t kernel tools w. toml_parse api raw = Inr t \<and> map_of t ''kernel'' = Some kernel
    \<and> (case kernel of TomlTable k \<Rightarrow> map_of k ''tools'' = Some (TomlTable tools)
                    | TomlArray vs \<Rightarrow> 5 < length vs \<and> vs ! 5 = TomlTable tools | _ \<Rightarrow> False)
    \<and> map_of tools name = Some w
    \<and> (case w of TomlTable e \<Rightarrow> map_of e ''enabled'' = Some (TomlBool True)
               | TomlArray vs \<Rightarrow> 0 < length vs \<and> vs ! 0 = TomlBool True | _ \<Rightarrow> False)"
proof -
  from assms(1) obtain t where t: "toml_parse api raw = Inr t" "de_config api t = Inr c"
    by (auto simp: from_toml_str_Inr_iff)
  obtain kv where k: "map_of t ''kernel'' = Some kv" "de_kernel api kv = Inr (c_kernel c)"
    using t(2) by (rule de_config_sections)
  obtain p where p: "k_tools (c_kernel c) name = Some p" "tp_enabled p"
    using assms(2) by (auto simp: tool_policy_enabled_iff)
  obtain v where v: "given_at 5 ''tools'' kv = Some v" "de_tools api v = Inr (k_tools (c_kernel c))"
    by (rule de_kernel_tools [OF k(2) p(1)])
  obtain ts w where ts: "v = TomlTable ts" "map_of ts name = Some w" "de_tool_policy api w = Inr p"
    by (rule de_tools_lookup [OF v(2) p(1)])
  have e: "given_at 0 ''enabled'' w = Some (TomlBool True)" by (rule de_tool_policy_enabled [OF ts(3) p(2)])
  have "case kv of TomlTable k \<Rightarrow> map_of k ''tools'' = Some (TomlTable ts)
      | TomlArray vs \<Rightarrow> 5 < length vs \<and> vs ! 5 = TomlTable ts | _ \<Rightarrow> False"
    using v(1) ts(1) by (cases kv) (auto split: if_splits)
  moreover have "case w of TomlTable e \<Rightarrow> map_of e ''enabled'' = Some (TomlBool True)
      | TomlArray vs \<Rightarrow> 0 < length vs \<and> vs ! 0 = TomlBool True | _ \<Rightarrow> False"
    using e by (cases w) (auto split: if_splits)
  ultimately show ?thesis using t(1) k(1) ts(2) by blast
qed

definition example_toml :: toml_table where
  "example_toml = [(''challenge'', TomlTable []), (''guard'', TomlTable [(''backend'', TomlString ''mock'')]),
     (''kernel'', TomlTable [(''tools'', TomlTable [(''search'', TomlTable [(''enabled'', TomlBool True)])])]),
     (''orchestrator'', TomlTable [])]"

definition table_api :: "toml_table \<Rightarrow> toml_api" where
  "table_api t = \<lparr>toml_parse = (\<lambda>_. Inr t), toml_show_error = (\<lambda>_. []), toml_checks_length = False,
     toml_variant = (\<lambda>_. None), toml_parse_addr = Some\<rparr>"

lemma table_api_simps [simp]:
  "toml_parse (table_api t) raw = Inr t" "toml_show_error (table_api t) e = []"
  "toml_checks_length (table_api t) = False" "toml_variant (table_api t) v = None" "toml_parse_addr (table_api t) = Some"
  by (simp_all add: table_api_def)

definition example_toml_api :: toml_api where
  "example_toml_api = table_api example_toml"

lemmas example_load_simps = de_simps field_def de_backend_def de_variant_def de_tools_def
  validate_def validate_guard_def validate_kernel_def default_max_payload_bytes_def
  default_timeout_ms_def default_max_window_bytes_def default_window_overlap_bytes_def
  default_anomaly_threshold_def default_anomaly_decay_def default_anomaly_floor_def
  default_flag_weight_def tool_policy_of_def f64_zero_def

lemma example_config_loads:
  "\<exists>c. from_toml_str example_toml_api [] = Inr c \<and> tp_enabled (tool_policy_of (c_kernel c) ''search'')"
proof -
  have "\<exists>c. de_config (table_api example_toml) example_toml = Inr c \<and> validate c = Inr ()
      \<and> tp_enabled (tool_policy_of (c_kernel c) ''search'')"
    by (simp add: example_toml_def example_load_simps)
  then show ?thesis by (auto simp: from_toml_str_Inr_iff example_toml_api_def)
qed

theorem tool_enabled_only_literally_witness:
  "\<exists>c t kernel. from_toml_str example_toml_api [] = Inr c \<and> tp_enabled (tool_policy_of (c_kernel c) ''search'')
     \<and> toml_parse example_toml_api [] = Inr t \<and> map_of t ''kernel'' = Some kernel"
proof -
  obtain c where c: "from_toml_str example_toml_api [] = Inr c"
      "tp_enabled (tool_policy_of (c_kernel c) ''search'')"
    using example_config_loads by blast
  from tool_enabled_only_literally [OF c] c show ?thesis by blast
qed

text \<open>The entry of a tool as an array: no key says that the tool is enabled.\<close>

definition positional_toml :: toml_table where
  "positional_toml = [(''challenge'', TomlTable []), (''guard'', TomlTable [(''backend'', TomlString ''mock'')]),
     (''kernel'', TomlTable [(''tools'', TomlTable [(''search'', TomlArray [TomlBool True])])]),
     (''orchestrator'', TomlTable [])]"

lemma positional_entry_enables:
  "\<exists>c. from_toml_str (table_api positional_toml) raw = Inr c \<and> tp_enabled (tool_policy_of (c_kernel c) ''search'')"
proof -
  have "\<exists>c. de_config (table_api positional_toml) positional_toml = Inr c \<and> validate c = Inr ()
      \<and> tp_enabled (tool_policy_of (c_kernel c) ''search'')"
    by (simp add: positional_toml_def example_load_simps)
  then show ?thesis by (auto simp: from_toml_str_Inr_iff)
qed

text \<open>C35: A misspelt key never disables a protection silently: a configuration loads only if every table in it, the
  document, the four sections, each challenge rule and each tool's entry, has the keys of its schema and no others, the four
  sections are there, and the guard section gives its backend. Any other document is refused with a configuration error.\<close>
theorem misspelt_key_refused:
  assumes "toml_parse api raw = Inr t"
    and "\<not> (schema_keys t \<and> (\<forall>name \<in> {''challenge'', ''guard'', ''kernel'', ''orchestrator''}. map_of t name \<noteq> None)
      \<and> (\<forall>v. map_of t ''guard'' = Some v \<longrightarrow> given_at 1 ''backend'' v \<noteq> None))"
  shows "\<exists>m. from_toml_str api raw = Inl (ConfigError m)"
proof (cases "from_toml_str api raw")
  case (Inl e)
  then show ?thesis by (auto dest: from_toml_str_Inl)
next
  case (Inr c)
  then have d: "de_config api t = Inr c" using assms(1) by (auto simp: from_toml_str_Inr_iff)
  then obtain cv gv kv ov where "only_keys [''challenge'', ''guard'', ''kernel'', ''orchestrator''] (TomlTable t)"
    "map_of t ''challenge'' = Some cv" "de_challenge api cv = Inr (c_challenge c)"
    "map_of t ''guard'' = Some gv" "de_guard api gv = Inr (c_guard c)"
    "map_of t ''kernel'' = Some kv" "de_kernel api kv = Inr (c_kernel c)"
    "map_of t ''orchestrator'' = Some ov" "de_orchestrator api ov = Inr (c_orchestrator c)"
    by (rule de_config_sections)
  note s = this
  have "schema_keys t"
    unfolding schema_keys_def s(2,4,6,8) option.inject
    using s(1) de_challenge_known [OF s(3)] de_guard_known [OF s(5)] de_kernel_known [OF s(7)]
      de_orchestrator_known [OF s(9)] by (simp del: only_keys.simps(2)) blast
  moreover have "\<forall>name \<in> {''challenge'', ''guard'', ''kernel'', ''orchestrator''}. map_of t name \<noteq> None"
    using s(2,4,6,8) by simp
  ultimately have False using assms(2) s(4) de_guard_known(2) [OF s(5)] by simp
  then show ?thesis ..
qed

definition misspelt_toml :: toml_table where
  "misspelt_toml = [(''challenge'', TomlTable []),
     (''guard'', TomlTable [(''backend'', TomlString ''mock'')]),
     (''kernel'', TomlTable [(''tools'', TomlTable [(''search'', TomlTable [(''enabled_for_real'', TomlBool True)])])]),
     (''orchestrator'', TomlTable [])]"

lemma misspelt_key_refused_witness:
  "\<exists>m. from_toml_str (table_api misspelt_toml) [] = Inl (ConfigError m)"
  by (rule misspelt_key_refused [OF table_api_simps(1)]) (simp add: schema_keys_def misspelt_toml_def)

end
