(* ===== verification/Ctp_Utf8.thy ===== *)
theory Ctp_Utf8
  imports Ctp_Prelude "HOL-Library.Code_Target_Nat"
begin

text \<open>
  The parts of Rust's string library the source uses on untrusted bytes: decoding UTF-8 one
  scalar at a time, \<open>String::from_utf8_lossy\<close>, \<open>str::from_utf8\<close>, \<open>chars\<close>, \<open>char_indices\<close> and
  \<open>char::len_utf8\<close>. A Rust \<open>char\<close> is a Unicode scalar value, here a \<open>nat\<close>.
\<close>

section \<open>Scalar values and their encoding\<close>

type_synonym uchar = nat

definition is_scalar :: "uchar \<Rightarrow> bool" where
  "is_scalar c \<longleftrightarrow> c < 0xD800 \<or> 0xE000 \<le> c \<and> c < 0x110000"

definition len_utf8 :: "uchar \<Rightarrow> nat" where
  "len_utf8 c = (if c < 0x80 then 1 else if c < 0x800 then 2 else if c < 0x10000 then 3 else 4)"

definition cont_byte :: "nat \<Rightarrow> char" where
  "cont_byte n = char_of (0x80 + n mod 64)"

definition utf8_encode1 :: "uchar \<Rightarrow> bytes" where
  "utf8_encode1 c =
     (if c < 0x80 then [char_of c]
      else if c < 0x800 then [char_of (0xC0 + c div 64), cont_byte c]
      else if c < 0x10000 then
        [char_of (0xE0 + c div 4096), cont_byte (c div 64), cont_byte c]
      else [char_of (0xF0 + c div 262144), cont_byte (c div 4096), cont_byte (c div 64), cont_byte c])"

definition utf8_encode :: "uchar list \<Rightarrow> bytes" where
  "utf8_encode cs = concat (map utf8_encode1 cs)"

section \<open>Decoding\<close>

definition byte_val :: "char \<Rightarrow> nat" where
  "byte_val b = of_char b"

lemma byte_val_bound: "byte_val b < 256"
  unfolding byte_val_def using nat_of_char_less_256 [of b] by simp

lemma byte_val_char_of [simp]: "n < 256 \<Longrightarrow> byte_val (char_of n) = n"
  by (simp add: byte_val_def of_char_of)

text \<open>\<open>safe_get\<close> of the decoder: 0 past the end, which is no continuation byte.\<close>

fun byte_at :: "bytes \<Rightarrow> nat" where
  "byte_at [] = 0"
| "byte_at (b # bs) = byte_val b"

definition is_cont :: "nat \<Rightarrow> bool" where
  "is_cont n \<longleftrightarrow> 0x80 \<le> n \<and> n < 0xC0"

text \<open>
  The second byte a three- or four-byte sequence may have: the ranges exclude overlong
  encodings, surrogates and values above U+10FFFF.
\<close>

definition second_ok :: "nat \<Rightarrow> nat \<Rightarrow> bool" where
  "second_ok lead n \<longleftrightarrow>
     (if lead = 0xE0 then 0xA0 \<le> n \<and> n < 0xC0
      else if lead = 0xED then 0x80 \<le> n \<and> n < 0xA0
      else if lead = 0xF0 then 0x90 \<le> n \<and> n < 0xC0
      else if lead = 0xF4 then 0x80 \<le> n \<and> n < 0x90
      else is_cont n)"

text \<open>
  One step of the decoder on a non-empty input: the scalar value and the rest of the input, or
  \<open>None\<close> and the rest after the maximal ill-formed prefix.
\<close>

definition decode_step :: "char \<Rightarrow> bytes \<Rightarrow> uchar option \<times> bytes" where
  "decode_step b bs =
     (let n = byte_val b; b2 = byte_at bs; t1 = tl bs; b3 = byte_at t1; t2 = tl t1; b4 = byte_at t2 in
      if n < 0x80 then (Some n, bs)
      else if 0xC2 \<le> n \<and> n < 0xE0 then
        (if \<not> is_cont b2 then (None, bs)
         else (Some ((n - 0xC0) * 64 + (b2 - 0x80)), t1))
      else if 0xE0 \<le> n \<and> n < 0xF0 then
        (if \<not> second_ok n b2 then (None, bs)
         else if \<not> is_cont b3 then (None, t1)
         else (Some ((n - 0xE0) * 4096 + (b2 - 0x80) * 64 + (b3 - 0x80)), t2))
      else if 0xF0 \<le> n \<and> n < 0xF5 then
        (if \<not> second_ok n b2 then (None, bs)
         else if \<not> is_cont b3 then (None, t1)
         else if \<not> is_cont b4 then (None, t2)
         else (Some ((n - 0xF0) * 262144 + (b2 - 0x80) * 4096 + (b3 - 0x80) * 64 + (b4 - 0x80)), tl t2))
      else (None, bs))"

lemma decode_step_length: "decode_step b bs = (r, rest) \<Longrightarrow> length rest \<le> length bs"
  by (auto simp: decode_step_def Let_def split: if_splits)

function decode_chunks :: "bytes \<Rightarrow> uchar option list" where
  "decode_chunks [] = []"
| "decode_chunks (b # bs) = fst (decode_step b bs) # decode_chunks (snd (decode_step b bs))"
  by pat_completeness auto
termination
  by (relation "measure length") (simp_all add: less_Suc_eq_le decode_step_length [OF prod.collapse [symmetric]])

declare decode_chunks.simps(2) [simp del]

definition replacement_char :: uchar where
  "replacement_char = 0xFFFD"

text \<open>\<open>String::from_utf8_lossy(bytes).chars()\<close>: one U+FFFD per ill-formed chunk.\<close>

definition lossy_chars :: "bytes \<Rightarrow> uchar list" where
  "lossy_chars bs = map (\<lambda>c. case c of None \<Rightarrow> replacement_char | Some u \<Rightarrow> u) (decode_chunks bs)"

definition from_utf8_lossy :: "bytes \<Rightarrow> string" where
  "from_utf8_lossy bs = utf8_encode (lossy_chars bs)"

text \<open>\<open>str::from_utf8(bytes).ok()\<close>, as the characters of the text.\<close>

definition from_utf8 :: "bytes \<Rightarrow> uchar list option" where
  "from_utf8 bs = (if None \<in> set (decode_chunks bs) then None else Some (lossy_chars bs))"

text \<open>\<open>str::chars\<close> of a string, which Rust guarantees to be well-formed.\<close>

definition str_chars :: "string \<Rightarrow> uchar list" where
  "str_chars s = lossy_chars s"

text \<open>\<open>char_indices\<close>: each character with the byte offset at which its encoding starts.\<close>

fun char_indices_from :: "nat \<Rightarrow> uchar list \<Rightarrow> (nat \<times> uchar) list" where
  "char_indices_from p [] = []"
| "char_indices_from p (c # cs) = (p, c) # char_indices_from (p + len_utf8 c) cs"

abbreviation char_indices :: "uchar list \<Rightarrow> (nat \<times> uchar) list" where
  "char_indices cs \<equiv> char_indices_from 0 cs"

section \<open>Round trip\<close>

lemma len_utf8_encode1: "length (utf8_encode1 c) = len_utf8 c"
  by (simp add: utf8_encode1_def len_utf8_def)

lemma byte_at_cont [simp]: "byte_val (cont_byte n) = 0x80 + n mod 64"
  by (simp add: cont_byte_def)

lemma is_cont_cont [simp]: "is_cont (0x80 + n mod 64)"
  by (simp add: is_cont_def)

text \<open>The bytes of an encoded scalar decode to it, whatever follows.\<close>

lemma split64:
  obtains h l :: nat where "c = h * 64 + l" "l < 64" "c div 64 = h" "c mod 64 = l"
  using mod_less_divisor [of 64 c] div_mult_mod_eq [of c 64] by (metis zero_less_numeral)

lemma decode_step_encode2:
  assumes "0x80 \<le> c" "c < 0x800"
  shows "decode_step (char_of (0xC0 + c div 64)) (cont_byte c # rest) = (Some c, rest)"
proof -
  obtain h l where c: "c = h * 64 + l" "l < 64" "c div 64 = h" "c mod 64 = l"
    by (rule split64)
  with assms have h: "2 \<le> h" "h < 32" by auto
  then have n: "byte_val (char_of (0xC0 + h)) = 0xC0 + h" by simp
  show ?thesis
    unfolding c(3) using h c by (simp add: decode_step_def n Let_def is_cont_def)
qed

lemma decode_step_encode3:
  assumes "0x800 \<le> c" "c < 0x10000" "is_scalar c"
  shows "decode_step (char_of (0xE0 + c div 4096)) (cont_byte (c div 64) # cont_byte c # rest) = (Some c, rest)"
proof -
  obtain k l where c: "c = k * 64 + l" "l < 64" "c div 64 = k" "c mod 64 = l"
    by (rule split64)
  obtain h m where k: "k = h * 64 + m" "m < 64" "k div 64 = h" "k mod 64 = m"
    by (rule split64)
  have d: "c div 4096 = h" using c(3) k(3) by (simp flip: div_mult2_eq)
  have b: "h < 16" "h = 0 \<Longrightarrow> 32 \<le> m" "h = 13 \<Longrightarrow> m < 32"
    using assms c(1,2) k(1,2) by (auto simp: is_scalar_def)
  then have n: "byte_val (char_of (0xE0 + h)) = 0xE0 + h" by simp
  have "second_ok (0xE0 + h) (0x80 + m)"
    using b k(2) by (auto simp: second_ok_def is_cont_def)
  then show ?thesis
    unfolding c(3) d using b c k by (simp add: decode_step_def n Let_def is_cont_def)
qed

lemma decode_step_encode4:
  assumes "0x10000 \<le> c" "c < 0x110000"
  shows "decode_step (char_of (0xF0 + c div 262144))
    (cont_byte (c div 4096) # cont_byte (c div 64) # cont_byte c # rest) = (Some c, rest)"
proof -
  obtain j l where c: "c = j * 64 + l" "l < 64" "c div 64 = j" "c mod 64 = l"
    by (rule split64)
  obtain k m where j: "j = k * 64 + m" "m < 64" "j div 64 = k" "j mod 64 = m"
    by (rule split64)
  obtain h i where k: "k = h * 64 + i" "i < 64" "k div 64 = h" "k mod 64 = i"
    by (rule split64)
  have d: "c div 4096 = k" "c div 262144 = h"
    using c(3) j(3) k(3) by (simp_all flip: div_mult2_eq)
  have b: "h < 5" "h = 0 \<Longrightarrow> 16 \<le> i" "h = 4 \<Longrightarrow> i < 16"
    using assms c(1,2) j(1,2) k(1,2) by auto
  then have n: "byte_val (char_of (0xF0 + h)) = 0xF0 + h" by simp
  have "second_ok (0xF0 + h) (0x80 + i)"
    using b k(2) by (auto simp: second_ok_def is_cont_def)
  then show ?thesis
    unfolding c(3) d using b c j k by (simp add: decode_step_def n Let_def is_cont_def)
qed

lemma decode_chunks_encode1:
  assumes "is_scalar c"
  shows "decode_chunks (utf8_encode1 c @ rest) = Some c # decode_chunks rest"
proof -
  consider "c < 0x80" | "0x80 \<le> c" "c < 0x800" | "0x800 \<le> c" "c < 0x10000" | "0x10000 \<le> c" "c < 0x110000"
    using assms unfolding is_scalar_def by linarith
  then show ?thesis
  proof cases
    case 1
    then show ?thesis by (simp add: utf8_encode1_def decode_chunks.simps(2) decode_step_def Let_def)
  next
    case 2
    then show ?thesis by (simp add: utf8_encode1_def decode_chunks.simps(2) decode_step_encode2)
  next
    case 3
    then show ?thesis
      using assms by (simp add: utf8_encode1_def decode_chunks.simps(2) decode_step_encode3)
  next
    case 4
    then show ?thesis by (simp add: utf8_encode1_def decode_chunks.simps(2) decode_step_encode4)
  qed
qed

lemma decode_chunks_encode:
  "list_all is_scalar cs \<Longrightarrow> decode_chunks (utf8_encode cs @ rest) = map Some cs @ decode_chunks rest"
  by (induction cs) (simp_all add: utf8_encode_def decode_chunks_encode1)

lemma lossy_chars_encode: "list_all is_scalar cs \<Longrightarrow> lossy_chars (utf8_encode cs) = cs"
  using decode_chunks_encode [of cs "[]"] by (simp add: lossy_chars_def comp_def)

lemma from_utf8_encode: "list_all is_scalar cs \<Longrightarrow> from_utf8 (utf8_encode cs) = Some cs"
  using decode_chunks_encode [of cs "[]"]
  by (auto simp: from_utf8_def lossy_chars_encode)

section \<open>What the decoder produces\<close>

lemma second_ok_range: "second_ok l n \<Longrightarrow> 0x80 \<le> n \<and> n < 0xC0"
  by (auto simp: second_ok_def is_cont_def split: if_splits)

lemma scalar3:
  fixes h m l :: nat
  assumes "h < 16" "h = 0 \<Longrightarrow> 32 \<le> m" "h = 13 \<Longrightarrow> m < 32" "m < 64" "l < 64"
  shows "is_scalar (h * 4096 + m * 64 + l)"
proof -
  consider "h \<le> 12" | "h = 13" | "14 \<le> h" by linarith
  then show ?thesis by cases (use assms in \<open>auto simp: is_scalar_def\<close>)
qed

lemma scalar4:
  fixes h i m l :: nat
  assumes "h < 5" "h = 0 \<Longrightarrow> 16 \<le> i" "h = 4 \<Longrightarrow> i < 16" "i < 64" "m < 64" "l < 64"
  shows "is_scalar (h * 262144 + i * 4096 + m * 64 + l)"
proof -
  consider "h = 0" | "1 \<le> h" "h \<le> 3" | "h = 4" using assms(1) by linarith
  then show ?thesis by cases (use assms in \<open>auto simp: is_scalar_def\<close>)
qed

lemma second_ok_bounds:
  assumes "second_ok n b"
  shows "n = 0xE0 \<Longrightarrow> 0xA0 \<le> b" "n = 0xED \<Longrightarrow> b < 0xA0" "n = 0xF0 \<Longrightarrow> 0x90 \<le> b" "n = 0xF4 \<Longrightarrow> b < 0x90"
  using assms by (auto simp: second_ok_def)

lemma decode_step_scalar:
  assumes "decode_step b bs = (Some c, rest)"
  shows "is_scalar c"
proof -
  let ?n = "byte_val b" and ?b2 = "byte_at bs" and ?b3 = "byte_at (tl bs)" and ?b4 = "byte_at (tl (tl bs))"
  consider "c = ?n" "?n < 0x80"
    | "c = (?n - 0xC0) * 64 + (?b2 - 0x80)" "?n < 0xE0" "is_cont ?b2"
    | "c = (?n - 0xE0) * 4096 + (?b2 - 0x80) * 64 + (?b3 - 0x80)" "0xE0 \<le> ?n" "?n < 0xF0"
      "second_ok ?n ?b2" "is_cont ?b3"
    | "c = (?n - 0xF0) * 262144 + (?b2 - 0x80) * 4096 + (?b3 - 0x80) * 64 + (?b4 - 0x80)"
      "0xF0 \<le> ?n" "?n < 0xF5" "second_ok ?n ?b2" "is_cont ?b3" "is_cont ?b4"
    using assms by (simp add: decode_step_def Let_def split: if_splits)
  then show ?thesis
  proof cases
    case 1
    then show ?thesis by (simp add: is_scalar_def)
  next
    case 2
    then show ?thesis by (auto simp: is_scalar_def is_cont_def)
  next
    case 3
    with second_ok_range second_ok_bounds(1,2) show ?thesis
      by (fastforce simp: is_cont_def intro!: scalar3)
  next
    case 4
    with second_ok_range second_ok_bounds(3,4) show ?thesis
      by (fastforce simp: is_cont_def intro!: scalar4)
  qed
qed

lemma decode_chunks_scalar: "Some c \<in> set (decode_chunks bs) \<Longrightarrow> is_scalar c"
proof (induction bs rule: decode_chunks.induct)
  case (2 b bs)
  then show ?case
    by (metis decode_chunks.simps(2) decode_step_scalar prod.collapse set_ConsD)
qed simp

lemma lossy_chars_scalar: "list_all is_scalar (lossy_chars bs)"
  by (auto simp: lossy_chars_def list_all_iff is_scalar_def replacement_char_def
      dest: decode_chunks_scalar split: option.splits)

text \<open>So \<open>from_utf8_lossy\<close> always yields well-formed text, whose characters are the lossy ones.\<close>

lemma str_chars_lossy: "str_chars (from_utf8_lossy bs) = lossy_chars bs"
  by (simp add: str_chars_def from_utf8_lossy_def lossy_chars_encode lossy_chars_scalar)

text \<open>ASCII text is its own decoding.\<close>

definition ascii :: "string \<Rightarrow> bool" where
  "ascii s \<longleftrightarrow> (\<forall>b \<in> set s. byte_val b < 0x80)"

lemma decode_chunks_ascii: "ascii s \<Longrightarrow> decode_chunks (s @ rest) = map (Some \<circ> byte_val) s @ decode_chunks rest"
  by (induction s) (auto simp: ascii_def decode_chunks.simps(2) decode_step_def Let_def)

lemma lossy_chars_ascii: "ascii s \<Longrightarrow> lossy_chars s = map byte_val s"
  using decode_chunks_ascii [of s "[]"] by (simp add: lossy_chars_def comp_def)

lemma utf8_encode_ascii: "ascii s \<Longrightarrow> utf8_encode (map byte_val s) = s"
  by (induction s) (auto simp: ascii_def utf8_encode_def utf8_encode1_def byte_val_def)

lemma from_utf8_lossy_ascii: "ascii s \<Longrightarrow> from_utf8_lossy s = s"
  by (simp add: from_utf8_lossy_def lossy_chars_ascii utf8_encode_ascii)

section \<open>Offsets\<close>

lemma map_snd_char_indices [simp]: "map snd (char_indices_from p cs) = cs"
  by (induction cs arbitrary: p) auto

lemma length_char_indices [simp]: "length (char_indices_from p cs) = length cs"
  by (induction cs arbitrary: p) auto

lemma char_indices_nth:
  "i < length cs \<Longrightarrow>
    char_indices_from p cs ! i = (p + length (utf8_encode (take i cs)), cs ! i)"
proof (induction cs arbitrary: p i)
  case (Cons c cs)
  then show ?case
    by (cases i) (auto simp: utf8_encode_def len_utf8_encode1)
qed simp

lemma len_utf8_pos [simp]: "0 < len_utf8 c"
  by (simp add: len_utf8_def)

end
