(* ===== verification/Challenge_Homoglyph.thy ===== *)
theory Challenge_Homoglyph
  imports Ctp_Utf8 Core_Verdict
begin

text \<open>
  The lookalike and invisible-character rule, \<open>ctp-challenge/src/rules/homoglyph.rs\<close>: one pass over
  the characters that counts classes and remembers first offsets, one pass over the alphabetic
  words, and the precedence of the findings. The Unicode tables behind \<open>char::is_alphabetic\<close> and
  the crate \<open>unicode_security\<close> are arguments.
\<close>

section \<open>Character classes\<close>

record unicode_tables =
  ut_alphabetic :: "uchar \<Rightarrow> bool"
  ut_single_script :: "uchar list \<Rightarrow> bool"
  ut_confusable :: "uchar \<Rightarrow> bool"

definition density_set :: "uchar list" where
  "density_set = [0x200B, 0x2060, 0xFEFF]"

definition joiners :: "uchar list" where
  "joiners = [0x200C, 0x200D]"

definition bidi_soft :: "uchar list" where
  "bidi_soft = [0x200E, 0x200F, 0x202A, 0x202B, 0x202C, 0x2066, 0x2067]"

definition bidi_soft_extra :: "uchar list" where
  "bidi_soft_extra = [0x2068, 0x2069]"

definition bidi_override :: "uchar list" where
  "bidi_override = [0x202D, 0x202E]"

definition is_tag :: "uchar \<Rightarrow> bool" where
  "is_tag ch \<longleftrightarrow> 0xE0000 \<le> ch \<and> ch \<le> 0xE007F"

definition is_cjk :: "uchar \<Rightarrow> bool" where
  "is_cjk ch \<longleftrightarrow>
     0x3040 \<le> ch \<and> ch \<le> 0x30FF \<or> 0x3400 \<le> ch \<and> ch \<le> 0x4DBF \<or> 0x4E00 \<le> ch \<and> ch \<le> 0x9FFF
     \<or> 0xAC00 \<le> ch \<and> ch \<le> 0xD7AF \<or> 0x1100 \<le> ch \<and> ch \<le> 0x11FF \<or> 0xF900 \<le> ch \<and> ch \<le> 0xFAFF
     \<or> 0x20000 \<le> ch \<and> ch \<le> 0x2A6DF"

section \<open>Counting\<close>

record counts =
  n_tag :: nat
  n_tag_first :: nat
  n_override :: nat
  n_override_first :: nat
  n_density :: nat
  n_density_first :: nat
  n_intra :: nat
  n_intra_first :: nat
  n_joiners :: nat
  n_bidi_soft :: nat
  n_replacement :: nat
  n_confusable :: nat
  n_confusable_first :: nat
  n_mixed :: nat

definition counts_zero :: counts where
  "counts_zero = \<lparr>n_tag = 0, n_tag_first = 0, n_override = 0, n_override_first = 0, n_density = 0,
     n_density_first = 0, n_intra = 0, n_intra_first = 0, n_joiners = 0, n_bidi_soft = 0,
     n_replacement = 0, n_confusable = 0, n_confusable_first = 0, n_mixed = 0\<rparr>"

definition is_density :: "nat \<Rightarrow> uchar \<Rightarrow> bool" where
  "is_density pos ch \<longleftrightarrow> ch \<in> set density_set \<and> \<not> (ch = 0xFEFF \<and> pos = 0)"

definition between_alpha :: "unicode_tables \<Rightarrow> (nat \<times> uchar) list \<Rightarrow> nat \<Rightarrow> bool" where
  "between_alpha tab chars idx \<longleftrightarrow>
     (0 < idx \<and> ut_alphabetic tab (snd (chars ! (idx - 1))))
     \<and> (idx + 1 < length chars \<and> ut_alphabetic tab (snd (chars ! (idx + 1))))"

definition count_density :: "unicode_tables \<Rightarrow> (nat \<times> uchar) list \<Rightarrow> nat \<Rightarrow> nat \<Rightarrow> counts \<Rightarrow> counts" where
  "count_density tab chars idx pos c =
     (let c1 = c\<lparr>n_density_first := (if n_density c = 0 then pos else n_density_first c),
                 n_density := n_density c + 1\<rparr>
      in if between_alpha tab chars idx then
           c1\<lparr>n_intra_first := (if n_intra c1 = 0 then pos else n_intra_first c1),
              n_intra := n_intra c1 + 1\<rparr>
         else c1)"

fun count_char :: "unicode_tables \<Rightarrow> (nat \<times> uchar) list \<Rightarrow> nat \<times> nat \<times> uchar \<Rightarrow> counts \<Rightarrow> counts" where
  "count_char tab chars (idx, pos, ch) c =
     (if is_tag ch then
        c\<lparr>n_tag_first := (if n_tag c = 0 then pos else n_tag_first c), n_tag := n_tag c + 1\<rparr>
      else if ch \<in> set bidi_override then
        c\<lparr>n_override_first := (if n_override c = 0 then pos else n_override_first c),
          n_override := n_override c + 1\<rparr>
      else if is_density pos ch then count_density tab chars idx pos c
      else if ch \<in> set joiners then c\<lparr>n_joiners := n_joiners c + 1\<rparr>
      else if ch \<in> set bidi_soft \<or> ch \<in> set bidi_soft_extra then c\<lparr>n_bidi_soft := n_bidi_soft c + 1\<rparr>
      else if ch = 0xFFFD then c\<lparr>n_replacement := n_replacement c + 1\<rparr>
      else c)"

text \<open>The maximal alphabetic runs, with the byte offset of their first character.\<close>

function alphabetic_words :: "unicode_tables \<Rightarrow> (nat \<times> uchar) list \<Rightarrow> (nat \<times> uchar list) list" where
  "alphabetic_words tab cs =
     (case dropWhile (\<lambda>x. \<not> ut_alphabetic tab (snd x)) cs of
        [] \<Rightarrow> []
      | x # xs \<Rightarrow>
          (fst x, map snd (x # takeWhile (\<lambda>y. ut_alphabetic tab (snd y)) xs))
            # alphabetic_words tab (dropWhile (\<lambda>y. ut_alphabetic tab (snd y)) xs))"
  by pat_completeness auto
termination
proof (relation "measure (\<lambda>(tab, cs). length cs)")
  fix tab cs x xs
  assume d: "dropWhile (\<lambda>x. \<not> ut_alphabetic tab (snd x)) cs = x # xs"
  have "length (dropWhile (\<lambda>y. ut_alphabetic tab (snd y)) xs) \<le> length xs" by (rule length_dropWhile_le)
  also have "\<dots> < length (dropWhile (\<lambda>x. \<not> ut_alphabetic tab (snd x)) cs)" by (simp add: d)
  also have "\<dots> \<le> length cs" by (rule length_dropWhile_le)
  finally show "((tab, dropWhile (\<lambda>y. ut_alphabetic tab (snd y)) xs), tab, cs)
    \<in> measure (\<lambda>(tab, cs). length cs)" by simp
qed simp

declare alphabetic_words.simps [simp del]

fun count_word :: "unicode_tables \<Rightarrow> nat \<times> uchar list \<Rightarrow> counts \<Rightarrow> counts" where
  "count_word tab (start, word) c =
     (if list_ex is_cjk word then c
      else if ut_single_script tab word then c
      else if list_ex (ut_confusable tab) word then
        c\<lparr>n_confusable_first := (if n_confusable c = 0 then start else n_confusable_first c),
          n_confusable := n_confusable c + 1\<rparr>
      else c\<lparr>n_mixed := n_mixed c + 1\<rparr>)"

definition count_all :: "unicode_tables \<Rightarrow> (nat \<times> uchar) list \<Rightarrow> counts" where
  "count_all tab chars =
     fold (count_word tab) (alphabetic_words tab chars)
       (fold (count_char tab chars) (List.enumerate 0 chars) counts_zero)"

section \<open>The verdict\<close>

definition dash :: string where
  "dash = [CHR 0x20, CHR 0xE2, CHR 0x80, CHR 0x94, CHR 0x20]"

definition note_if :: "nat \<Rightarrow> string \<Rightarrow> string list" where
  "note_if n what = (if 0 < n then [show_nat n @ what] else [])"

definition homoglyph_notes :: "counts \<Rightarrow> string list" where
  "homoglyph_notes c =
     note_if (n_density c) '' zero-width char(s)''
     @ note_if (n_joiners c) '' joiner(s) (ZWJ/ZWNJ)''
     @ note_if (n_bidi_soft c) '' bidi control(s)''
     @ note_if (n_mixed c) '' mixed-script word(s)''
     @ note_if (n_replacement c) '' invalid utf-8 sequence(s)''"

definition homoglyph_verdict :: "nat \<Rightarrow> counts \<Rightarrow> rule_result" where
  "homoglyph_verdict max_invisible c =
     (if 0 < n_tag c then
        RBlock (show_nat (n_tag c) @ '' unicode tag character(s), first at byte '' @ show_nat (n_tag_first c)
          @ dash @ ''invisible instruction channel'') Critical
      else if 0 < n_override c then
        RBlock (show_nat (n_override c) @ '' bidi override character(s) (RLO/LRO), first at byte ''
          @ show_nat (n_override_first c)) High
      else if 0 < n_confusable c then
        RBlock (show_nat (n_confusable c) @ '' mixed-script confusable word(s), first at byte ''
          @ show_nat (n_confusable_first c)) High
      else if 0 < n_intra c then
        RBlock (show_nat (n_intra c) @ '' zero-width character(s) splitting words, first at byte ''
          @ show_nat (n_intra_first c) @ dash @ ''pattern-matching evasion'') High
      else if max_invisible < n_density c then
        RBlock (show_nat (n_density c) @ '' zero-width characters (threshold '' @ show_nat max_invisible
          @ ''), first at byte '' @ show_nat (n_density_first c) @ dash @ ''pattern-matching evasion'') High
      else
        (let notes = homoglyph_notes c in
         if notes = [] then RPass else RFlag (join_with '', '' notes)))"

definition homoglyph_new :: nat where
  "homoglyph_new = 5"

text \<open>\<open>check\<close>; the state of the rule is its threshold.\<close>

definition homoglyph_check :: "unicode_tables \<Rightarrow> nat \<Rightarrow> bytes \<Rightarrow> rule_result" where
  "homoglyph_check tab max_invisible payload =
     homoglyph_verdict max_invisible (count_all tab (char_indices (lossy_chars payload)))"

section \<open>The counts in closed form\<close>

text \<open>The offset of the first element of a class, if the class occurs.\<close>

definition first_pos :: "(nat \<times> 'a) list \<Rightarrow> nat" where
  "first_pos xs = (case xs of [] \<Rightarrow> 0 | x # _ \<Rightarrow> fst x)"

text \<open>The classes of the first pass, by precedence.\<close>

definition class_tag :: "nat \<times> uchar \<Rightarrow> bool" where
  "class_tag x \<longleftrightarrow> is_tag (snd x)"

definition class_override :: "nat \<times> uchar \<Rightarrow> bool" where
  "class_override x \<longleftrightarrow> snd x \<in> set bidi_override"

definition class_density :: "nat \<times> uchar \<Rightarrow> bool" where
  "class_density x \<longleftrightarrow> is_density (fst x) (snd x)"

lemmas class_defs = class_tag_def class_override_def class_density_def is_tag_def bidi_override_def
  density_set_def is_density_def joiners_def bidi_soft_def bidi_soft_extra_def

lemma class_disjoint:
  "class_tag x \<Longrightarrow> \<not> class_override x" "class_tag x \<Longrightarrow> \<not> class_density x"
  "class_override x \<Longrightarrow> \<not> class_density x"
  by (auto simp: class_defs)

definition intra_word :: "unicode_tables \<Rightarrow> (nat \<times> uchar) list \<Rightarrow> nat \<times> nat \<times> uchar \<Rightarrow> bool" where
  "intra_word tab chars x \<longleftrightarrow> class_density (snd x) \<and> between_alpha tab chars (fst x)"

definition word_confusable :: "unicode_tables \<Rightarrow> nat \<times> uchar list \<Rightarrow> bool" where
  "word_confusable tab w \<longleftrightarrow> \<not> list_ex is_cjk (snd w) \<and> \<not> ut_single_script tab (snd w)
     \<and> list_ex (ut_confusable tab) (snd w)"

text \<open>One step of a counter with its first offset, and the fold of such steps.\<close>

definition first_or :: "nat \<Rightarrow> nat \<Rightarrow> (nat \<times> 'a) list \<Rightarrow> nat" where
  "first_or n d xs = (if n = 0 then (case xs of [] \<Rightarrow> d | x # _ \<Rightarrow> fst x) else d)"

lemma count_char_fields:
  "n_tag (count_char tab chars x c) = n_tag c + (if class_tag (snd x) then 1 else 0)"
  "n_tag_first (count_char tab chars x c) =
     (if class_tag (snd x) \<and> n_tag c = 0 then fst (snd x) else n_tag_first c)"
  "n_override (count_char tab chars x c) = n_override c + (if class_override (snd x) then 1 else 0)"
  "n_density (count_char tab chars x c) = n_density c + (if class_density (snd x) then 1 else 0)"
  "n_intra (count_char tab chars x c) = n_intra c + (if intra_word tab chars x then 1 else 0)"
  "n_confusable (count_char tab chars x c) = n_confusable c"
  by (cases x; simp add: class_tag_def class_override_def class_density_def count_density_def Let_def;
      auto simp: class_defs)
    (cases x; auto simp: intra_word_def count_density_def Let_def class_defs)+

lemma count_word_fields:
  "n_tag (count_word tab w c) = n_tag c" "n_tag_first (count_word tab w c) = n_tag_first c"
  "n_override (count_word tab w c) = n_override c" "n_density (count_word tab w c) = n_density c"
  "n_intra (count_word tab w c) = n_intra c"
  "n_confusable (count_word tab w c) = n_confusable c + (if word_confusable tab w then 1 else 0)"
  by (cases w; simp add: word_confusable_def)+

lemma fold_count_char_fields:
  "n_tag (fold (count_char tab chars) xs c) = n_tag c + length (filter class_tag (map snd xs))"
  "n_override (fold (count_char tab chars) xs c) = n_override c + length (filter class_override (map snd xs))"
  "n_density (fold (count_char tab chars) xs c) = n_density c + length (filter class_density (map snd xs))"
  "n_intra (fold (count_char tab chars) xs c) = n_intra c + length (filter (intra_word tab chars) xs)"
  "n_confusable (fold (count_char tab chars) xs c) = n_confusable c"
  by (induction xs arbitrary: c) (simp_all add: count_char_fields)

lemma fold_count_char_tag_first:
  "n_tag_first (fold (count_char tab chars) xs c) =
    first_or (n_tag c) (n_tag_first c) (filter class_tag (map snd xs))"
  by (induction xs arbitrary: c) (auto simp: count_char_fields first_or_def split: list.splits)

lemma fold_count_word_fields:
  "n_tag (fold (count_word tab) ws c) = n_tag c" "n_tag_first (fold (count_word tab) ws c) = n_tag_first c"
  "n_override (fold (count_word tab) ws c) = n_override c" "n_density (fold (count_word tab) ws c) = n_density c"
  "n_intra (fold (count_word tab) ws c) = n_intra c"
  "n_confusable (fold (count_word tab) ws c) = n_confusable c + length (filter (word_confusable tab) ws)"
  by (induction ws arbitrary: c) (simp_all add: count_word_fields)

lemma map_snd_enumerate: "map snd (List.enumerate n xs) = xs"
  by (simp add: enumerate_eq_zip)

lemma count_all_fields:
  "n_tag (count_all tab cs) = length (filter class_tag cs)"
  "n_tag_first (count_all tab cs) = first_pos (filter class_tag cs)"
  "n_override (count_all tab cs) = length (filter class_override cs)"
  "n_density (count_all tab cs) = length (filter class_density cs)"
  "n_intra (count_all tab cs) = length (filter (intra_word tab cs) (List.enumerate 0 cs))"
  "n_confusable (count_all tab cs) = length (filter (word_confusable tab) (alphabetic_words tab cs))"
  by (simp_all add: count_all_def fold_count_word_fields fold_count_char_fields fold_count_char_tag_first
      counts_zero_def map_snd_enumerate first_or_def first_pos_def)

lemma filter_nonempty_iff: "0 < length (filter P xs) \<longleftrightarrow> (\<exists>x \<in> set xs. P x)"
  by (rule length_filter_pos_iff)

lemma homoglyph_verdict_block_iff:
  "(\<exists>r. homoglyph_verdict m c = RBlock r sev) \<longleftrightarrow>
    (if 0 < n_tag c then sev = Critical
     else (0 < n_override c \<or> 0 < n_confusable c \<or> 0 < n_intra c \<or> m < n_density c) \<and> sev = High)"
  by (auto simp: homoglyph_verdict_def Let_def)

lemma homoglyph_block_lemma:
  "(\<exists>r. homoglyph_check tab m payload = RBlock r sev) \<longleftrightarrow>
    (let cs = char_indices (lossy_chars payload) in
     if \<exists>x \<in> set cs. class_tag x then sev = Critical
     else ((\<exists>x \<in> set cs. class_override x) \<or> (\<exists>w \<in> set (alphabetic_words tab cs). word_confusable tab w)
        \<or> (\<exists>x \<in> set (List.enumerate 0 cs). intra_word tab cs x) \<or> m < length (filter class_density cs))
        \<and> sev = High)"
  by (simp only: homoglyph_check_def homoglyph_verdict_block_iff count_all_fields filter_nonempty_iff Let_def)

section \<open>ASCII text\<close>

lemma char_indices_set: "x \<in> set (char_indices_from p cs) \<Longrightarrow> snd x \<in> set cs"
  by (metis image_eqI map_snd_char_indices set_map)

lemma count_char_ascii:
  "snd (snd x) < 0x80 \<Longrightarrow> count_char tab chars x c = c"
  by (cases x) (simp add: class_defs)

lemma fold_count_char_ascii:
  "\<forall>x \<in> set xs. snd (snd x) < 0x80 \<Longrightarrow> fold (count_char tab chars) xs c = c"
  by (induction xs) (simp_all add: count_char_ascii)

lemma alphabetic_words_subset:
  "w \<in> set (alphabetic_words tab cs) \<Longrightarrow> set (snd w) \<subseteq> snd ` set cs \<and> snd w \<noteq> []
    \<and> list_all (ut_alphabetic tab) (snd w)"
proof (induction tab cs rule: alphabetic_words.induct)
  case (1 tab cs)
  show ?case
  proof (cases "dropWhile (\<lambda>x. \<not> ut_alphabetic tab (snd x)) cs")
    case Nil
    with "1.prems" show ?thesis by (simp add: alphabetic_words.simps [of tab cs])
  next
    case (Cons x xs)
    let ?t = "takeWhile (\<lambda>y. ut_alphabetic tab (snd y)) xs" and ?d = "dropWhile (\<lambda>y. ut_alphabetic tab (snd y)) xs"
    have sub: "set (x # xs) \<subseteq> set cs"
      using set_dropWhileD [of _ "\<lambda>x. \<not> ut_alphabetic tab (snd x)" cs] unfolding Cons [symmetric] by blast
    have ax: "ut_alphabetic tab (snd x)"
      using hd_dropWhile [of "\<lambda>x. \<not> ut_alphabetic tab (snd x)" cs] Cons by simp
    have w: "w = (fst x, map snd (x # ?t)) \<or> w \<in> set (alphabetic_words tab ?d)"
      using "1.prems" Cons by (subst (asm) alphabetic_words.simps) auto
    have d: "set ?d \<subseteq> set cs" using sub set_dropWhileD [of _ "\<lambda>y. ut_alphabetic tab (snd y)" xs] by auto
    from w show ?thesis
    proof
      assume "w = (fst x, map snd (x # ?t))"
      with sub ax show ?thesis by (auto simp: list_all_iff dest: set_takeWhileD)
    next
      assume "w \<in> set (alphabetic_words tab ?d)"
      from "1.IH" [OF Cons this] image_mono [OF d, of snd] show ?thesis by auto
    qed
  qed
qed

section \<open>Properties\<close>

text \<open>C18: The rule blocks exactly the payloads whose text has a tag character, a bidi override, a
  mixed-script word with a confusable character (no CJK character in it), a zero-width character
  right between two alphabetic ones, or more than the threshold of zero-width characters; with
  severity critical exactly when a tag character occurs, else high.\<close>
theorem homoglyph_blocks_iff:
  "(\<exists>r. homoglyph_check tab m payload = RBlock r sev) \<longleftrightarrow>
    (let cs = char_indices (lossy_chars payload) in
     if \<exists>x \<in> set cs. is_tag (snd x) then sev = Critical
     else ((\<exists>x \<in> set cs. snd x = 0x202D \<or> snd x = 0x202E)
        \<or> (\<exists>w \<in> set (alphabetic_words tab cs). word_confusable tab w)
        \<or> (\<exists>i < length cs. is_density (fst (cs ! i)) (snd (cs ! i)) \<and> between_alpha tab cs i)
        \<or> m < length (filter (\<lambda>x. is_density (fst x) (snd x)) cs))
        \<and> sev = High)"
proof -
  have i: "(\<exists>x \<in> set (List.enumerate 0 cs). intra_word tab cs x) \<longleftrightarrow>
      (\<exists>i < length cs. is_density (fst (cs ! i)) (snd (cs ! i)) \<and> between_alpha tab cs i)" for cs
  proof
    assume "\<exists>x \<in> set (List.enumerate 0 cs). intra_word tab cs x"
    then show "\<exists>i < length cs. is_density (fst (cs ! i)) (snd (cs ! i)) \<and> between_alpha tab cs i"
      by (auto simp: in_set_enumerate_eq intra_word_def class_density_def)
  next
    assume "\<exists>i < length cs. is_density (fst (cs ! i)) (snd (cs ! i)) \<and> between_alpha tab cs i"
    then obtain i where "i < length cs" "intra_word tab cs (i, cs ! i)"
      by (auto simp: intra_word_def class_density_def)
    then show "\<exists>x \<in> set (List.enumerate 0 cs). intra_word tab cs x"
      by (intro bexI [of _ "(i, cs ! i)"]) (simp_all add: in_set_enumerate_eq)
  qed
  have f: "filter class_density cs = filter (\<lambda>x. is_density (fst x) (snd x)) cs" for cs
    by (simp add: class_density_def [abs_def])
  show ?thesis
    unfolding homoglyph_block_lemma Let_def i f
    by (simp add: class_tag_def class_override_def bidi_override_def)
qed

text \<open>Tables under which the letters of the examples behave as the Unicode tables say.\<close>

definition latin_tables :: unicode_tables where
  "latin_tables = \<lparr>ut_alphabetic = (\<lambda>c. 0x41 \<le> c \<and> c \<le> 0x5A \<or> 0x61 \<le> c \<and> c \<le> 0x7A \<or> 0x400 \<le> c \<and> c \<le> 0x4FF),
     ut_single_script = (\<lambda>w. list_all (\<lambda>c. c < 0x80) w \<or> list_all (\<lambda>c. 0x400 \<le> c) w),
     ut_confusable = (\<lambda>c. c = 0x430)\<rparr>"

theorem homoglyph_blocks_iff_witness:
  "\<exists>r. homoglyph_check latin_tables 5 (utf8_encode [0x70, 0x430, 0x79]) = RBlock r High"
proof -
  have l: "lossy_chars (utf8_encode [0x70, 0x430, 0x79]) = [0x70, 0x430, 0x79]"
    by (rule lossy_chars_encode) (simp add: is_scalar_def)
  have w: "\<exists>w \<in> set (alphabetic_words latin_tables (char_indices [0x70, 0x430, 0x79])). word_confusable latin_tables w"
    by code_simp
  have t: "\<not> (\<exists>x \<in> set (char_indices [0x70, 0x430, 0x79]). is_tag (snd x))" by (simp add: is_tag_def)
  show ?thesis
    unfolding homoglyph_blocks_iff l Let_def using w t by (simp only: if_False) blast
qed

text \<open>The reason of a tag block names the number of tag characters and the byte offset, in the
  text, of the first of them, whatever else the payload holds.\<close>
theorem tag_block_reports_first_offset:
  assumes "lossy_chars payload = pre @ ch # post" "is_tag ch" "\<forall>c \<in> set pre. \<not> is_tag c"
  shows "homoglyph_check tab m payload =
    RBlock (show_nat (length (filter is_tag (lossy_chars payload)))
      @ '' unicode tag character(s), first at byte '' @ show_nat (length (utf8_encode pre))
      @ dash @ ''invisible instruction channel'') Critical"
proof -
  let ?cs = "char_indices (lossy_chars payload)"
  have split: "char_indices_from p (xs @ ys) = char_indices_from p xs @ char_indices_from (p + length (utf8_encode xs)) ys"
    for p xs ys by (induction xs arbitrary: p) (simp_all add: utf8_encode_def len_utf8_encode1 add.assoc)
  have "filter class_tag (char_indices pre) = []"
    using assms(3) by (auto simp: filter_empty_conv class_tag_def dest: char_indices_set)
  then have f: "filter class_tag ?cs = (length (utf8_encode pre), ch)
      # filter class_tag (char_indices_from (length (utf8_encode pre) + len_utf8 ch) post)"
    using assms(2) by (simp add: assms(1) split class_tag_def)
  have "length (filter class_tag (char_indices_from p xs)) = length (filter is_tag xs)" for p xs
    by (induction xs arbitrary: p) (simp_all add: class_tag_def)
  then have n: "length (filter class_tag ?cs) = length (filter is_tag (lossy_chars payload))" .
  have "0 < length (filter class_tag ?cs)" "first_pos (filter class_tag ?cs) = length (utf8_encode pre)"
    unfolding f by (simp_all add: first_pos_def)
  then show ?thesis
    unfolding homoglyph_check_def homoglyph_verdict_def count_all_fields n by simp
qed

theorem tag_block_reports_first_offset_witness:
  "homoglyph_check latin_tables 5 (utf8_encode [0x430, 0xE0041]) =
    RBlock (''1 unicode tag character(s), first at byte 2'' @ dash @ ''invisible instruction channel'') Critical"
proof -
  have l: "lossy_chars (utf8_encode [0x430, 0xE0041]) = [0x430] @ 0xE0041 # []"
    using lossy_chars_encode [of "[0x430, 0xE0041]"] by (simp add: is_scalar_def)
  have n: "length (filter is_tag ([0x430] @ 0xE0041 # [])) = 1" "length (utf8_encode [0x430]) = 2"
    by (simp_all add: is_tag_def utf8_encode_def utf8_encode1_def)
  have "homoglyph_check latin_tables 5 (utf8_encode [0x430, 0xE0041]) =
      RBlock (show_nat (length (filter is_tag (lossy_chars (utf8_encode [0x430, 0xE0041]))))
        @ '' unicode tag character(s), first at byte '' @ show_nat (length (utf8_encode [0x430]))
        @ dash @ ''invisible instruction channel'') Critical"
    by (rule tag_block_reports_first_offset [OF l]) (simp_all add: is_tag_def)
  moreover have "digit_char 1 = CHR ''1''" "digit_char 2 = CHR ''2''" by code_simp+
  ultimately show ?thesis unfolding l n by simp
qed

text \<open>Plain ASCII text is never penalised: for tables in which a word of ASCII letters has a single
  script, an ASCII payload passes the rule, whatever the threshold.\<close>
theorem ascii_passes_homoglyph:
  assumes "ascii payload"
    and "\<And>w. w \<noteq> [] \<Longrightarrow> list_all (\<lambda>c. c < 0x80 \<and> ut_alphabetic tab c) w \<Longrightarrow> ut_single_script tab w"
  shows "homoglyph_check tab m payload = RPass"
proof -
  let ?cs = "char_indices (lossy_chars payload)"
  have lt: "c < 0x80" if "c \<in> set (lossy_chars payload)" for c
    using that assms(1) by (auto simp: lossy_chars_ascii ascii_def)
  have "fold (count_char tab ?cs) (List.enumerate 0 ?cs) counts_zero = counts_zero"
  proof (rule fold_count_char_ascii, intro ballI lt)
    fix x assume "x \<in> set (List.enumerate 0 ?cs)"
    then have "snd x \<in> set (map snd (List.enumerate 0 ?cs))" unfolding set_map by (rule imageI)
    then have "snd x \<in> set ?cs" by (simp only: map_snd_enumerate)
    then show "snd (snd x) \<in> set (lossy_chars payload)" by (rule char_indices_set)
  qed
  moreover have "count_word tab w c = c" if "w \<in> set (alphabetic_words tab ?cs)" for w c
  proof -
    from alphabetic_words_subset [OF that] have "ut_single_script tab (snd w)"
      by (intro assms(2)) (auto simp: list_all_iff intro!: lt dest: char_indices_set)
    then show ?thesis by (cases w) auto
  qed
  then have "fold (count_word tab) (alphabetic_words tab ?cs) c = c" for c
    by (intro fold_invariant [where Q = "\<lambda>w. w \<in> set (alphabetic_words tab ?cs)" and P = "\<lambda>x. x = c"]) auto
  ultimately have "count_all tab ?cs = counts_zero" by (simp add: count_all_def)
  then show ?thesis
    by (simp add: homoglyph_check_def homoglyph_verdict_def counts_zero_def homoglyph_notes_def note_if_def)
qed

theorem ascii_passes_homoglyph_witness: "homoglyph_check latin_tables 5 ''ignore this'' = RPass"
  by (rule ascii_passes_homoglyph) (auto simp: ascii_def byte_val_def latin_tables_def list_all_iff)

text \<open>One zero-width space inside a word blocks, but two in a row at the same place only flag:
  the character between two alphabetic ones is looked for among direct neighbours only.\<close>
theorem doubled_zero_width_only_flags:
  "\<not> (\<exists>r. homoglyph_check latin_tables 5 (utf8_encode [0x69, 0x200B, 0x200B, 0x67]) = RBlock r sev)
   \<and> (\<exists>r. homoglyph_check latin_tables 5 (utf8_encode [0x69, 0x200B, 0x67]) = RBlock r High)"
proof -
  have "homoglyph_check latin_tables 5 (utf8_encode [0x69, 0x200B, 0x200B, 0x67]) = RFlag ''2 zero-width char(s)''"
    by code_simp
  moreover have "case homoglyph_check latin_tables 5 (utf8_encode [0x69, 0x200B, 0x67]) of RBlock r s \<Rightarrow> s = High | _ \<Rightarrow> False"
    by code_simp
  ultimately show ?thesis by (auto split: rule_result.splits)
qed

end
