(* ===== verification/Challenge_Encoding.thy ===== *)
theory Challenge_Encoding
  imports Ctp_Utf8 Core_Config
begin

text \<open>
  The encoding-bypass rule, \<open>ctp-challenge/src/rules/encoding.rs\<close>: candidates of base64, hex and
  percent encoding are decoded level by level, every decoded level is matched against the
  patterns, and nesting and volume are bounded. The crates \<open>regex\<close>, \<open>base64\<close>, \<open>hex\<close> and
  \<open>percent_encoding\<close> are the fields of an argument; a compiled regex is a value of a type
  parameter. The scan itself, its accumulator and its early returns are the code's.
\<close>

section \<open>The crates\<close>

datatype b64_engine = STANDARD | STANDARD_NO_PAD | URL_SAFE | URL_SAFE_NO_PAD

record ('r, 'q) scan_api =
  rx_new :: "string \<Rightarrow> string + 'r"
  rx_is_match :: "'r \<Rightarrow> bytes \<Rightarrow> bool"
  rx_find_iter :: "'r \<Rightarrow> bytes \<Rightarrow> bytes list"
  rxs_new :: "string list \<Rightarrow> string + 'q"
  rxs_matches :: "'q \<Rightarrow> bytes \<Rightarrow> nat list"
  b64_decode :: "b64_engine \<Rightarrow> bytes \<Rightarrow> bytes option"
  hex_decode :: "bytes \<Rightarrow> bytes option"
  percent_decode :: "bytes \<Rightarrow> bytes"

section \<open>The rule\<close>

definition bsl :: string where
  "bsl = [CHR 0x5C]"

definition builtin_patterns :: "(string \<times> string) list" where
  "builtin_patterns =
     [(''builtin_instruction_override'',
       ''(?i)ignore'' @ bsl @ ''s+(all'' @ bsl @ ''s+)?(previous|prior|above)'' @ bsl @ ''s+instructions''),
      (''builtin_role_forgery'',
       ''(?im)^'' @ bsl @ ''s*(system|assistant|developer)'' @ bsl @ ''s*:''),
      (''builtin_identity_rewrite'',
       ''(?i)you'' @ bsl @ ''s+are'' @ bsl @ ''s+now'' @ bsl @ ''s+''),
      (''builtin_prompt_exfiltration'',
       ''(?i)(repeat|reveal|print|output)'' @ bsl @ ''s+(your'' @ bsl @ ''s+)?(system'' @ bsl
         @ ''s+prompt|hidden'' @ bsl @ ''s+instructions)'')]"

record encoding_limits =
  el_max_decode_depth :: nat
  el_total_decode_budget :: nat
  el_min_blob_len :: nat
  el_opaque_flag_len :: nat

definition default_limits :: encoding_limits where
  "default_limits = \<lparr>el_max_decode_depth = 3, el_total_decode_budget = 256 * 1024,
     el_min_blob_len = 24, el_opaque_flag_len = 1024\<rparr>"

record ('r, 'q) encoding_rule =
  er_limits :: encoding_limits
  er_patterns :: 'q
  er_pattern_ids :: "string list"
  er_base64_re :: 'r
  er_hex_re :: 'r

text \<open>
  \<open>with_limits\<close>. The static candidate expressions are compiled with \<open>expect\<close>: if the crate refused
  them the construction would panic, which is the outer \<open>None\<close>.
\<close>

definition with_limits ::
  "('r, 'q) scan_api \<Rightarrow> encoding_limits \<Rightarrow> regex_rule_spec list \<Rightarrow> (ctp_error + ('r, 'q) encoding_rule) option" where
  "with_limits a limits specs =
     (let ids = map fst builtin_patterns @ map rs_id specs;
          patterns = map snd builtin_patterns @ map rs_pattern specs
      in case rxs_new a patterns of
           Inl e \<Rightarrow> Some (Inl (ConfigError (''encoding_bypass pattern set: '' @ e)))
         | Inr compiled \<Rightarrow>
             (case (rx_new a ''(?-u)[A-Za-z0-9+/_-]{24,}={0,2}'', rx_new a ''(?-u)(?:0x)?[0-9A-Fa-f]{64,}'') of
                (Inr b64, Inr hex) \<Rightarrow>
                  Some (Inr \<lparr>er_limits = limits, er_patterns = compiled, er_pattern_ids = ids,
                             er_base64_re = b64, er_hex_re = hex\<rparr>)
              | _ \<Rightarrow> None))"

definition from_specs ::
  "('r, 'q) scan_api \<Rightarrow> regex_rule_spec list \<Rightarrow> (ctp_error + ('r, 'q) encoding_rule) option" where
  "from_specs a specs = with_limits a default_limits specs"

section \<open>Candidates\<close>

definition is_control :: "uchar \<Rightarrow> bool" where
  "is_control c \<longleftrightarrow> c < 0x20 \<or> 0x7F \<le> c \<and> c \<le> 0x9F"

definition printable_char :: "uchar \<Rightarrow> bool" where
  "printable_char c \<longleftrightarrow> \<not> is_control c \<or> c = 0x0A \<or> c = 0x0D \<or> c = 0x09"

definition printable_text :: "bytes \<Rightarrow> bool" where
  "printable_text data =
     (case from_utf8 data of
        None \<Rightarrow> False
      | Some cs \<Rightarrow> cs \<noteq> [] \<and> length cs * 85 \<le> length (filter printable_char cs) * 100)"

definition is_hexdigit :: "char \<Rightarrow> bool" where
  "is_hexdigit b = (let n = byte_val b in
     0x30 \<le> n \<and> n \<le> 0x39 \<or> 0x41 \<le> n \<and> n \<le> 0x46 \<or> 0x61 \<le> n \<and> n \<le> 0x66)"

fun percent_sequence_count :: "bytes \<Rightarrow> nat" where
  "percent_sequence_count (a # b # c # bs) =
     (if a = CHR 0x25 \<and> is_hexdigit b \<and> is_hexdigit c then 1 else 0) + percent_sequence_count (b # c # bs)"
| "percent_sequence_count _ = 0"

definition matched_ids :: "('r, 'q) scan_api \<Rightarrow> ('r, 'q) encoding_rule \<Rightarrow> bytes \<Rightarrow> string list" where
  "matched_ids a r data = map (\<lambda>i. er_pattern_ids r ! i) (rxs_matches a (er_patterns r) data)"

text \<open>The first engine that accepts the candidate.\<close>

fun first_decoded :: "(bytes \<Rightarrow> bytes option) list \<Rightarrow> bytes \<Rightarrow> bytes list" where
  "first_decoded [] m = []"
| "first_decoded (f # fs) m = (case f m of Some d \<Rightarrow> [d] | None \<Rightarrow> first_decoded fs m)"

definition base64_candidates :: "('r, 'q) scan_api \<Rightarrow> ('r, 'q) encoding_rule \<Rightarrow> bytes \<Rightarrow> bytes list" where
  "base64_candidates a r data =
     concat (map (\<lambda>m. if length m < el_min_blob_len (er_limits r) then []
       else first_decoded (map (b64_decode a) [STANDARD, STANDARD_NO_PAD, URL_SAFE, URL_SAFE_NO_PAD]) m)
       (rx_find_iter a (er_base64_re r) data))"

definition hex_candidate :: "bytes \<Rightarrow> bytes" where
  "hex_candidate m =
     (let c = (if take 2 m = ''0x'' then drop 2 m else m) in
      if length c mod 2 = 1 then take (length c - 1) c else c)"

definition hex_candidates :: "('r, 'q) scan_api \<Rightarrow> ('r, 'q) encoding_rule \<Rightarrow> bytes \<Rightarrow> bytes list" where
  "hex_candidates a r data =
     concat (map (\<lambda>m. case hex_decode a (hex_candidate m) of
         Some d \<Rightarrow> if printable_text d then [d] else []
       | None \<Rightarrow> []) (rx_find_iter a (er_hex_re r) data))"

definition percent_candidates :: "('r, 'q) scan_api \<Rightarrow> bytes \<Rightarrow> bytes list" where
  "percent_candidates a data =
     (if 10 \<le> percent_sequence_count data then
        (let d = percent_decode a data in if d \<noteq> data then [d] else [])
      else [])"

definition decode_candidates :: "('r, 'q) scan_api \<Rightarrow> ('r, 'q) encoding_rule \<Rightarrow> bytes \<Rightarrow> bytes list" where
  "decode_candidates a r data =
     base64_candidates a r data @ hex_candidates a r data @ percent_candidates a data"

section \<open>The scan\<close>

record scan_accum =
  sa_budget_left :: nat
  sa_opaque_blobs :: nat
  sa_block :: "(string \<times> severity) option"

definition budget_reason :: "nat \<Rightarrow> nat \<Rightarrow> string" where
  "budget_reason budget depth =
     ''decode budget of '' @ show_nat budget @ '' bytes exhausted at depth '' @ show_nat depth"

definition match_reason :: "nat \<Rightarrow> string list \<Rightarrow> string" where
  "match_reason depth hits =
     ''decoded content (depth '' @ show_nat depth @ '') matches pattern(s): '' @ join_with '', '' hits"

definition horizon_reason :: "nat \<Rightarrow> string" where
  "horizon_reason max_depth =
     ''encoded content still decodable at max depth '' @ show_nat max_depth
       @ [CHR 0x20, CHR 0xE2, CHR 0x80, CHR 0x94, CHR 0x20] @ ''nesting beyond scan horizon''"

function (sequential) scan_level ::
    "('r, 'q) scan_api \<Rightarrow> ('r, 'q) encoding_rule \<Rightarrow> bytes \<Rightarrow> nat \<Rightarrow> scan_accum \<Rightarrow> scan_accum"
  and scan_candidates ::
    "('r, 'q) scan_api \<Rightarrow> ('r, 'q) encoding_rule \<Rightarrow> bytes list \<Rightarrow> nat \<Rightarrow> scan_accum \<Rightarrow> scan_accum" where
  "scan_level a r data depth acc =
     (if sa_block acc \<noteq> None then acc
      else scan_candidates a r (decode_candidates a r data) depth acc)"
| "scan_candidates a r [] depth acc = acc"
| "scan_candidates a r (d # ds) depth acc =
     (if sa_block acc \<noteq> None then acc
      else if sa_budget_left acc < length d then
        acc\<lparr>sa_block := Some (budget_reason (el_total_decode_budget (er_limits r)) depth, High)\<rparr>
      else
        (let acc1 = acc\<lparr>sa_budget_left := sa_budget_left acc - length d\<rparr>;
             hits = matched_ids a r d
         in if hits \<noteq> [] then acc1\<lparr>sa_block := Some (match_reason depth hits, Critical)\<rparr>
            else if \<not> printable_text d then
              scan_candidates a r ds depth
                (if el_opaque_flag_len (er_limits r) \<le> length d
                 then acc1\<lparr>sa_opaque_blobs := sa_opaque_blobs acc1 + 1\<rparr> else acc1)
            else if el_max_decode_depth (er_limits r) \<le> depth then
              (if decode_candidates a r d \<noteq> [] then
                 acc1\<lparr>sa_block := Some (horizon_reason (el_max_decode_depth (er_limits r)), High)\<rparr>
               else scan_candidates a r ds depth acc1)
            else scan_candidates a r ds depth (scan_level a r d (depth + 1) acc1)))"
  by pat_completeness auto
termination
  by (relation "measures
      [\<lambda>x. case x of Inl (a, r, data, depth, acc) \<Rightarrow> el_max_decode_depth (er_limits r) - depth
                   | Inr (a, r, ds, depth, acc) \<Rightarrow> el_max_decode_depth (er_limits r) - depth,
       \<lambda>x. case x of Inl _ \<Rightarrow> 1 | Inr _ \<Rightarrow> 0,
       \<lambda>x. case x of Inl _ \<Rightarrow> 0 | Inr (a, r, ds, depth, acc) \<Rightarrow> length ds]")
    auto

declare scan_level.simps [simp del] scan_candidates.simps [simp del]

definition scan_accum_new :: "encoding_limits \<Rightarrow> scan_accum" where
  "scan_accum_new l = \<lparr>sa_budget_left = el_total_decode_budget l, sa_opaque_blobs = 0, sa_block = None\<rparr>"

definition encoding_check :: "('r, 'q) scan_api \<Rightarrow> ('r, 'q) encoding_rule \<Rightarrow> bytes \<Rightarrow> rule_result" where
  "encoding_check a r payload =
     (let acc = scan_level a r payload 1 (scan_accum_new (er_limits r)) in
      case sa_block acc of
        Some (reason, severity) \<Rightarrow> RBlock reason severity
      | None \<Rightarrow>
          if 0 < sa_opaque_blobs acc then
            RFlag (show_nat (sa_opaque_blobs acc) @ '' opaque encoded blob(s) ''
              @ [CHR 0xE2, CHR 0x89, CHR 0xA5] @ ''1KiB'')
          else RPass)"

section \<open>The specification of the scan\<close>

text \<open>
  A decoded blob with k more levels allowed below it: whether it is acceptable, how many decoded
  bytes it stands for, how many large opaque blobs. Each is a function of the tree of decodings
  alone, without accumulator.
\<close>

fun node_ok :: "('r, 'q) scan_api \<Rightarrow> ('r, 'q) encoding_rule \<Rightarrow> nat \<Rightarrow> bytes \<Rightarrow> bool" where
  "node_ok a r 0 d \<longleftrightarrow> matched_ids a r d = [] \<and> (printable_text d \<longrightarrow> decode_candidates a r d = [])"
| "node_ok a r (Suc k) d \<longleftrightarrow> matched_ids a r d = []
     \<and> (printable_text d \<longrightarrow> (\<forall>e \<in> set (decode_candidates a r d). node_ok a r k e))"

fun node_bytes :: "('r, 'q) scan_api \<Rightarrow> ('r, 'q) encoding_rule \<Rightarrow> nat \<Rightarrow> bytes \<Rightarrow> nat" where
  "node_bytes a r 0 d = length d"
| "node_bytes a r (Suc k) d = length d
     + (if printable_text d then sum_list (map (node_bytes a r k) (decode_candidates a r d)) else 0)"

fun node_opaque :: "('r, 'q) scan_api \<Rightarrow> ('r, 'q) encoding_rule \<Rightarrow> nat \<Rightarrow> bytes \<Rightarrow> nat" where
  "node_opaque a r 0 d =
     (if \<not> printable_text d \<and> el_opaque_flag_len (er_limits r) \<le> length d then 1 else 0)"
| "node_opaque a r (Suc k) d =
     (if printable_text d then sum_list (map (node_opaque a r k) (decode_candidates a r d))
      else if el_opaque_flag_len (er_limits r) \<le> length d then 1 else 0)"

definition levels_left :: "('r, 'q) encoding_rule \<Rightarrow> nat \<Rightarrow> nat" where
  "levels_left r depth = el_max_decode_depth (er_limits r) - depth"

lemma levels_left_step:
  "\<not> el_max_decode_depth (er_limits r) \<le> depth \<Longrightarrow> levels_left r depth = Suc (levels_left r (depth + 1))"
  by (simp add: levels_left_def)

lemma levels_left_end: "el_max_decode_depth (er_limits r) \<le> depth \<Longrightarrow> levels_left r depth = 0"
  by (simp add: levels_left_def)

text \<open>What a scan of a list of blobs has done when it ends: the three functions decide it.\<close>

definition scan_done ::
  "('r, 'q) scan_api \<Rightarrow> ('r, 'q) encoding_rule \<Rightarrow> nat \<Rightarrow> bytes list \<Rightarrow> scan_accum \<Rightarrow> scan_accum \<Rightarrow> bool" where
  "scan_done a r k ds acc acc' \<longleftrightarrow>
     (sa_block acc' = None \<longleftrightarrow>
        (\<forall>d \<in> set ds. node_ok a r k d) \<and> sum_list (map (node_bytes a r k) ds) \<le> sa_budget_left acc)
     \<and> (sa_block acc' = None \<longrightarrow>
        sa_budget_left acc' = sa_budget_left acc - sum_list (map (node_bytes a r k) ds)
        \<and> sa_opaque_blobs acc' = sa_opaque_blobs acc + sum_list (map (node_opaque a r k) ds))"

lemma scan_level_None: "sa_block acc = None \<Longrightarrow> scan_level a r data depth acc = scan_candidates a r (decode_candidates a r data) depth acc"
  by (simp add: scan_level.simps)

lemma scan_candidates_blocked: "sa_block acc \<noteq> None \<Longrightarrow> scan_candidates a r ds depth acc = acc"
  by (cases ds) (auto simp: scan_candidates.simps)

lemma scan_done_blocked:
  "sa_block acc' \<noteq> None \<Longrightarrow> \<not> node_ok a r k d \<or> sa_budget_left acc < node_bytes a r k d
    \<Longrightarrow> scan_done a r k (d # ds) acc acc'"
  by (auto simp: scan_done_def)

lemma node_bytes_ge: "length d \<le> node_bytes a r k d"
  by (cases k) auto

text \<open>One blob, and then the rest from the accumulator it left.\<close>

lemma scan_done_Cons:
  assumes "node_ok a r k d" "node_bytes a r k d \<le> sa_budget_left acc" "sa_block acc = None"
    and "scan_done a r k ds (acc\<lparr>sa_budget_left := sa_budget_left acc - node_bytes a r k d,
            sa_opaque_blobs := sa_opaque_blobs acc + node_opaque a r k d\<rparr>) acc'"
  shows "scan_done a r k (d # ds) acc acc'"
  using assms by (auto simp: scan_done_def)

lemma scan_candidates_done:
  "sa_block acc = None \<Longrightarrow> scan_done a r (levels_left r depth) ds acc (scan_candidates a r ds depth acc)"
proof (induction "levels_left r depth" arbitrary: ds depth acc rule: less_induct)
  case less
  note outer = less.hyps
  from less.prems show ?case
  proof (induction ds arbitrary: acc)
    case Nil
    then show ?case by (simp add: scan_done_def scan_candidates.simps)
  next
    case (Cons d ds)
    let ?k = "levels_left r depth"
    let ?acc1 = "acc\<lparr>sa_budget_left := sa_budget_left acc - length d\<rparr>"
    note simps = scan_candidates.simps(2) [of a r d ds depth acc]
    consider (budget) "sa_budget_left acc < length d"
      | (hit) "length d \<le> sa_budget_left acc" "matched_ids a r d \<noteq> []"
      | (opaque) "length d \<le> sa_budget_left acc" "matched_ids a r d = []" "\<not> printable_text d"
      | (horizon) "length d \<le> sa_budget_left acc" "matched_ids a r d = []" "printable_text d"
          "el_max_decode_depth (er_limits r) \<le> depth"
      | (deeper) "length d \<le> sa_budget_left acc" "matched_ids a r d = []" "printable_text d"
          "\<not> el_max_decode_depth (er_limits r) \<le> depth"
      by linarith
    then show ?case
    proof cases
      case budget
      with Cons.prems show ?thesis
        using node_bytes_ge [of d a r ?k] by (intro scan_done_blocked) (auto simp: simps)
    next
      case hit
      with Cons.prems show ?thesis
        by (intro scan_done_blocked) (cases ?k; auto simp: simps Let_def)+
    next
      case opaque
      have b: "node_ok a r ?k d" "node_bytes a r ?k d = length d"
        "node_opaque a r ?k d = (if el_opaque_flag_len (er_limits r) \<le> length d then 1 else 0)"
        using opaque by (cases ?k; simp)+
      show ?thesis
        by (rule scan_done_Cons) (use b opaque Cons.prems Cons.IH in \<open>auto simp: simps Let_def\<close>)
    next
      case horizon
      have k: "?k = 0" using horizon by (simp add: levels_left_end)
      show ?thesis
      proof (cases "decode_candidates a r d = []")
        case True
        have "node_ok a r ?k d" "node_bytes a r ?k d = length d" "node_opaque a r ?k d = 0"
          using horizon k True by simp_all
        then show ?thesis
          by (intro scan_done_Cons) (use horizon True Cons.prems Cons.IH in \<open>auto simp: simps Let_def\<close>)
      next
        case False
        then show ?thesis
          using horizon k Cons.prems by (intro scan_done_blocked) (auto simp: simps Let_def)
      qed
    next
      case deeper
      let ?k' = "levels_left r (depth + 1)" and ?cs = "decode_candidates a r d"
      have k: "?k = Suc ?k'" using deeper by (simp add: levels_left_step)
      let ?acc2 = "scan_candidates a r ?cs (depth + 1) ?acc1"
      have "scan_done a r ?k' ?cs ?acc1 ?acc2"
        by (rule outer) (use k Cons.prems in simp_all)
      then have sub: "sa_block ?acc2 = None \<longleftrightarrow>
          (\<forall>e \<in> set ?cs. node_ok a r ?k' e) \<and> sum_list (map (node_bytes a r ?k') ?cs) \<le> sa_budget_left acc - length d"
        "sa_block ?acc2 = None \<Longrightarrow>
          sa_budget_left ?acc2 = sa_budget_left acc - length d - sum_list (map (node_bytes a r ?k') ?cs)
          \<and> sa_opaque_blobs ?acc2 = sa_opaque_blobs acc + sum_list (map (node_opaque a r ?k') ?cs)"
        by (simp_all add: scan_done_def)
      have run: "scan_candidates a r (d # ds) depth acc = scan_candidates a r ds depth ?acc2"
        using deeper Cons.prems by (simp add: simps Let_def scan_level_None)
      have ok: "node_ok a r ?k d \<longleftrightarrow> (\<forall>e \<in> set ?cs. node_ok a r ?k' e)"
        "node_bytes a r ?k d = length d + sum_list (map (node_bytes a r ?k') ?cs)"
        "node_opaque a r ?k d = sum_list (map (node_opaque a r ?k') ?cs)"
        using deeper k by simp_all
      show ?thesis
      proof (cases "sa_block ?acc2 = None")
        case True
        have eq: "?acc2 = acc\<lparr>sa_budget_left := sa_budget_left acc - node_bytes a r ?k d,
            sa_opaque_blobs := sa_opaque_blobs acc + node_opaque a r ?k d\<rparr>"
          using sub(2) [OF True] True Cons.prems ok by (intro scan_accum.equality) simp_all
        have good: "node_ok a r ?k d" "node_bytes a r ?k d \<le> sa_budget_left acc"
          using True sub(1) ok deeper by auto
        show ?thesis
          using Cons.IH [OF True] unfolding run
          by (intro scan_done_Cons [OF good Cons.prems]) (simp only: eq [symmetric])
      next
        case False
        then show ?thesis
          unfolding run using sub(1) ok deeper
          by (intro scan_done_blocked) (auto simp: scan_candidates_blocked)
      qed
    qed
  qed
qed

section \<open>Chains of decodings\<close>

text \<open>
  A blob reached from a payload by n decodings, every intermediate one of which is text: the rule
  does not look inside binary blobs.
\<close>

inductive decodes :: "('r, 'q) scan_api \<Rightarrow> ('r, 'q) encoding_rule \<Rightarrow> nat \<Rightarrow> bytes \<Rightarrow> bytes \<Rightarrow> bool" for a r where
  direct: "d \<in> set (decode_candidates a r data) \<Longrightarrow> decodes a r 1 data d"
| nested: "d \<in> set (decode_candidates a r data) \<Longrightarrow> printable_text d \<Longrightarrow> decodes a r n d e
    \<Longrightarrow> decodes a r (Suc n) data e"

inductive_simps decodes_simps: "decodes a r n data e"

lemma decodes_pos: "decodes a r n data e \<Longrightarrow> 0 < n"
  by (induction rule: decodes.induct) simp_all

definition chains_ok :: "('r, 'q) scan_api \<Rightarrow> ('r, 'q) encoding_rule \<Rightarrow> nat \<Rightarrow> bytes \<Rightarrow> bool" where
  "chains_ok a r k data \<longleftrightarrow> (\<forall>n e. decodes a r n data e \<longrightarrow> matched_ids a r e = [] \<and> n \<le> k)"

lemma chains_ok_0: "chains_ok a r 0 data \<longleftrightarrow> decode_candidates a r data = []"
proof
  assume "chains_ok a r 0 data"
  then have "\<not> decodes a r 1 data d" for d by (auto simp: chains_ok_def)
  then have "d \<notin> set (decode_candidates a r data)" for d using decodes.direct by metis
  then show "decode_candidates a r data = []" by (cases "decode_candidates a r data") auto
next
  assume "decode_candidates a r data = []"
  then show "chains_ok a r 0 data" unfolding chains_ok_def by (subst decodes_simps) simp
qed

lemma chains_ok_Suc:
  "chains_ok a r (Suc k) data \<longleftrightarrow>
    (\<forall>d \<in> set (decode_candidates a r data). matched_ids a r d = [] \<and> (printable_text d \<longrightarrow> chains_ok a r k d))"
proof
  assume ok: "chains_ok a r (Suc k) data"
  show "\<forall>d \<in> set (decode_candidates a r data). matched_ids a r d = [] \<and> (printable_text d \<longrightarrow> chains_ok a r k d)"
  proof (intro ballI conjI impI)
    fix d assume d: "d \<in> set (decode_candidates a r data)"
    show "matched_ids a r d = []" using ok decodes.direct [OF d] by (auto simp: chains_ok_def)
    assume "printable_text d"
    then show "chains_ok a r k d" using ok decodes.nested [OF d] by (fastforce simp: chains_ok_def)
  qed
next
  assume r: "\<forall>d \<in> set (decode_candidates a r data). matched_ids a r d = [] \<and> (printable_text d \<longrightarrow> chains_ok a r k d)"
  show "chains_ok a r (Suc k) data"
    unfolding chains_ok_def
  proof (intro allI impI)
    fix n e assume "decodes a r n data e"
    then show "matched_ids a r e = [] \<and> n \<le> Suc k"
      using r by cases (auto simp: chains_ok_def)
  qed
qed

lemma node_ok_iff: "node_ok a r k d \<longleftrightarrow> matched_ids a r d = [] \<and> (printable_text d \<longrightarrow> chains_ok a r k d)"
  by (induction k arbitrary: d) (simp_all add: chains_ok_0 chains_ok_Suc)

definition decoded_bytes :: "('r, 'q) scan_api \<Rightarrow> ('r, 'q) encoding_rule \<Rightarrow> bytes \<Rightarrow> nat" where
  "decoded_bytes a r payload = sum_list (map (node_bytes a r (levels_left r 1)) (decode_candidates a r payload))"

definition opaque_blobs :: "('r, 'q) scan_api \<Rightarrow> ('r, 'q) encoding_rule \<Rightarrow> bytes \<Rightarrow> nat" where
  "opaque_blobs a r payload = sum_list (map (node_opaque a r (levels_left r 1)) (decode_candidates a r payload))"

lemma scan_level_top:
  fixes a r payload
  defines "acc \<equiv> scan_level a r payload 1 (scan_accum_new (er_limits r))"
  shows "sa_block acc = None \<longleftrightarrow> chains_ok a r (max 1 (el_max_decode_depth (er_limits r))) payload
      \<and> decoded_bytes a r payload \<le> el_total_decode_budget (er_limits r)"
    and "sa_block acc = None \<Longrightarrow> sa_opaque_blobs acc = opaque_blobs a r payload"
proof -
  have s: "max 1 (el_max_decode_depth (er_limits r)) = Suc (levels_left r 1)"
    by (simp add: levels_left_def max_def)
  have "scan_done a r (levels_left r 1) (decode_candidates a r payload) (scan_accum_new (er_limits r)) acc"
    unfolding acc_def by (simp add: scan_level_None scan_accum_new_def scan_candidates_done)
  then show "sa_block acc = None \<longleftrightarrow> chains_ok a r (max 1 (el_max_decode_depth (er_limits r))) payload
      \<and> decoded_bytes a r payload \<le> el_total_decode_budget (er_limits r)"
    and "sa_block acc = None \<Longrightarrow> sa_opaque_blobs acc = opaque_blobs a r payload"
    unfolding s chains_ok_Suc node_ok_iff scan_done_def
    by (simp_all add: scan_accum_new_def decoded_bytes_def opaque_blobs_def)
qed

section \<open>Properties\<close>

text \<open>C13: The rule blocks a payload exactly when some chain of decodings through printable text reaches a
  blob that matches a pattern, or goes on beyond the depth cap, or when the decoded bytes of the
  whole tree exceed the budget. Nesting deeper than the scanner looks is thus no way past it.\<close>
theorem encoding_blocks_iff:
  "(\<exists>reason sev. encoding_check a r payload = RBlock reason sev) \<longleftrightarrow>
    (\<exists>n e. decodes a r n payload e
       \<and> (matched_ids a r e \<noteq> [] \<or> max 1 (el_max_decode_depth (er_limits r)) < n))
    \<or> el_total_decode_budget (er_limits r) < decoded_bytes a r payload"
proof -
  have "(\<exists>reason sev. encoding_check a r payload = RBlock reason sev) \<longleftrightarrow>
      sa_block (scan_level a r payload 1 (scan_accum_new (er_limits r))) \<noteq> None"
    by (auto simp: encoding_check_def Let_def split: option.splits)
  also have "\<dots> \<longleftrightarrow> \<not> (chains_ok a r (max 1 (el_max_decode_depth (er_limits r))) payload
      \<and> decoded_bytes a r payload \<le> el_total_decode_budget (er_limits r))"
    unfolding scan_level_top(1) ..
  finally show ?thesis unfolding chains_ok_def by (auto simp: not_le)
qed

text \<open>A payload the rule does not block is flagged exactly when its tree of decodings has an opaque
  blob of at least the flag length, with their number in the reason, and passes otherwise; and
  what was decoded to find this out stayed within the budget.\<close>
theorem encoding_unblocked_result:
  assumes "\<nexists>reason sev. encoding_check a r payload = RBlock reason sev"
  shows "encoding_check a r payload =
      (if 0 < opaque_blobs a r payload then
         RFlag (show_nat (opaque_blobs a r payload) @ '' opaque encoded blob(s) ''
           @ [CHR 0xE2, CHR 0x89, CHR 0xA5] @ ''1KiB'')
       else RPass)
    \<and> decoded_bytes a r payload \<le> el_total_decode_budget (er_limits r)"
proof -
  have "sa_block (scan_level a r payload 1 (scan_accum_new (er_limits r))) = None"
    using assms by (auto simp: encoding_check_def Let_def split: option.splits)
  with scan_level_top [of a r payload] show ?thesis by (simp add: encoding_check_def Let_def)
qed

text \<open>A small instance of the crates: a base64 blob is the letter b before what it encodes.\<close>

definition toy_api :: "(bool, unit) scan_api" where
  "toy_api = \<lparr>rx_new = (\<lambda>p. Inr (p = ''(?-u)[A-Za-z0-9+/_-]{24,}={0,2}'')), rx_is_match = (\<lambda>_ _. False),
     rx_find_iter = (\<lambda>re data. if re then [data] else []), rxs_new = (\<lambda>_. Inr ()),
     rxs_matches = (\<lambda>_ data. if data = ''evil'' then [0] else []),
     b64_decode = (\<lambda>_ m. if m \<noteq> [] \<and> hd m = CHR ''b'' then Some (tl m) else None),
     hex_decode = (\<lambda>_. None), percent_decode = (\<lambda>m. m)\<rparr>"

definition toy_rule :: "(bool, unit) encoding_rule" where
  "toy_rule = \<lparr>er_limits = default_limits\<lparr>el_min_blob_len := 1\<rparr>, er_patterns = (), er_pattern_ids = [''p''],
     er_base64_re = True, er_hex_re = False\<rparr>"

theorem encoding_blocks_iff_witness:
  "\<exists>reason sev. encoding_check toy_api toy_rule ''bbevil'' = RBlock reason sev"
proof -
  have c: "decode_candidates toy_api toy_rule ''bbevil'' = [''bevil'']"
    "decode_candidates toy_api toy_rule ''bevil'' = [''evil'']"
    "printable_text ''bevil''" "matched_ids toy_api toy_rule ''evil'' \<noteq> []"
    by code_simp+
  have "decodes toy_api toy_rule (Suc 1) ''bbevil'' ''evil''"
    by (rule decodes.nested [where d = "''bevil''"]) (simp_all add: c decodes.direct [where d = "''evil''", simplified])
  with c(4) show ?thesis unfolding encoding_blocks_iff by blast
qed

theorem encoding_unblocked_result_witness: "encoding_check toy_api toy_rule ''bdata'' = RPass"
proof -
  have n: "\<nexists>reason sev. encoding_check toy_api toy_rule ''bdata'' = RBlock reason sev"
  proof -
    have "encoding_check toy_api toy_rule ''bdata'' = RPass" by code_simp
    then show ?thesis by simp
  qed
  have "opaque_blobs toy_api toy_rule ''bdata'' = 0" by code_simp
  with encoding_unblocked_result [OF n] show ?thesis by simp
qed

end
