(* ===== verification/Challenge_Registry.thy ===== *)
theory Challenge_Registry
  imports Challenge_Homoglyph Challenge_Encoding
begin

text \<open>
  The challenge layer, \<open>ctp-challenge/src/registry.rs\<close>, and the configured pattern rules,
  \<open>rules/data_driven.rs\<close>: composition of the rules from the configuration, the size cap in front of
  them, and the collection of every rule's finding.
\<close>

section \<open>Rules\<close>

text \<open>The trait \<open>Rule\<close> of \<open>ctp-core/src/traits.rs\<close>.\<close>

record rule =
  rule_name :: string
  rule_check :: "bytes \<Rightarrow> rule_result"

record 'r data_driven_rule =
  dd_name :: string
  dd_regex :: 'r
  dd_action :: rule_action
  dd_severity :: severity

definition dd_compile :: "('r, 'q) scan_api \<Rightarrow> regex_rule_spec \<Rightarrow> ctp_error + 'r data_driven_rule" where
  "dd_compile a spec =
     (case rx_new a (rs_pattern spec) of
        Inl e \<Rightarrow> Inl (ConfigError (''challenge rule '' @ [CHR 0x27] @ rs_id spec @ [CHR 0x27]
          @ '': invalid pattern: '' @ e))
      | Inr re \<Rightarrow> Inr \<lparr>dd_name = rs_id spec, dd_regex = re, dd_action = rs_action spec,
          dd_severity = rs_severity spec\<rparr>)"

definition pattern_reason :: "string \<Rightarrow> string" where
  "pattern_reason name = ''pattern '' @ [CHR 0x27] @ name @ [CHR 0x27] @ '' matched''"

definition dd_check :: "('r, 'q) scan_api \<Rightarrow> 'r data_driven_rule \<Rightarrow> bytes \<Rightarrow> rule_result" where
  "dd_check a r payload =
     (if \<not> rx_is_match a (dd_regex r) payload then RPass
      else case dd_action r of
             ActBlock \<Rightarrow> RBlock (pattern_reason (dd_name r)) (dd_severity r)
           | ActFlag \<Rightarrow> RFlag (pattern_reason (dd_name r)))"

definition homoglyph_rule :: "unicode_tables \<Rightarrow> nat \<Rightarrow> rule" where
  "homoglyph_rule tab m = \<lparr>rule_name = ''unicode_homoglyph'', rule_check = homoglyph_check tab m\<rparr>"

definition encoding_bypass :: "('r, 'q) scan_api \<Rightarrow> ('r, 'q) encoding_rule \<Rightarrow> rule" where
  "encoding_bypass a r = \<lparr>rule_name = ''encoding_bypass'', rule_check = encoding_check a r\<rparr>"

definition data_driven :: "('r, 'q) scan_api \<Rightarrow> 'r data_driven_rule \<Rightarrow> rule" where
  "data_driven a r = \<lparr>rule_name = dd_name r, rule_check = dd_check a r\<rparr>"

section \<open>The layer\<close>

record challenge_layer =
  cl_rules :: "rule list"
  cl_max_payload_bytes :: nat

definition with_rules :: "nat \<Rightarrow> rule list \<Rightarrow> challenge_layer" where
  "with_rules max_payload_bytes rules = \<lparr>cl_rules = rules, cl_max_payload_bytes = max_payload_bytes\<rparr>"

definition rule_names :: "challenge_layer \<Rightarrow> string list" where
  "rule_names l = map rule_name (cl_rules l)"

text \<open>\<open>from_config\<close>; the outer \<open>None\<close> is the panic of the static expressions.\<close>

definition layer_from_config ::
  "unicode_tables \<Rightarrow> ('r, 'q) scan_api \<Rightarrow> challenge_config \<Rightarrow> (ctp_error + challenge_layer) option" where
  "layer_from_config tab a config =
     map_option (\<lambda>built.
       and_then built (\<lambda>enc.
       and_then (try_map (\<lambda>spec. and_then (dd_compile a spec) (\<lambda>r. Inr (data_driven a r))) (cc_rules config))
         (\<lambda>configured.
       Inr \<lparr>cl_rules = homoglyph_rule tab homoglyph_new # encoding_bypass a enc # configured,
            cl_max_payload_bytes = cc_max_payload_bytes config\<rparr>)))
     (from_specs a (cc_rules config))"

definition oversize_payload_reason :: "nat \<Rightarrow> nat \<Rightarrow> string" where
  "oversize_payload_reason n cap =
     ''payload of '' @ show_nat n @ '' bytes exceeds cap of '' @ show_nat cap @ '' bytes''"

fun rule_findings :: "string \<Rightarrow> rule_result \<Rightarrow> finding list" where
  "rule_findings name RPass = []"
| "rule_findings name (RBlock reason sev) = [finding_blocking name reason sev]"
| "rule_findings name (RFlag reason) = [finding_advisory name reason Low]"

definition challenge_findings :: "challenge_layer \<Rightarrow> bytes \<Rightarrow> finding list" where
  "challenge_findings l payload =
     (if cl_max_payload_bytes l < length payload then
        [finding_blocking ''max_payload_bytes''
          (oversize_payload_reason (length payload) (cl_max_payload_bytes l)) High]
      else concat (map (\<lambda>r. rule_findings (rule_name r) (rule_check r payload)) (cl_rules l)))"

section \<open>Facts\<close>

definition rule_blocks :: "rule \<Rightarrow> bytes \<Rightarrow> bool" where
  "rule_blocks r payload \<longleftrightarrow> (\<exists>reason sev. rule_check r payload = RBlock reason sev)"

lemma rule_findings_clear_iff:
  "findings_verdict (rule_findings name res) = Pass \<longleftrightarrow> (\<nexists>reason sev. res = RBlock reason sev)"
  by (cases res) (auto simp: findings_verdict_Pass_iff)

lemma challenge_findings_clear_iff:
  "findings_verdict (challenge_findings l payload) = Pass \<longleftrightarrow>
    length payload \<le> cl_max_payload_bytes l \<and> (\<forall>r \<in> set (cl_rules l). \<not> rule_blocks r payload)"
proof -
  have "findings_verdict (concat (map (\<lambda>r. rule_findings (rule_name r) (rule_check r payload)) rs)) = Pass
      \<longleftrightarrow> (\<forall>r \<in> set rs. \<not> rule_blocks r payload)" for rs
  proof (induction rs)
    case (Cons r rs)
    then show ?case by (cases "rule_check r payload") (auto simp: findings_verdict_Pass_iff rule_blocks_def)
  qed (simp add: findings_verdict_Pass_iff)
  then show ?thesis by (auto simp: challenge_findings_def findings_verdict_Pass_iff)
qed

lemma dd_check_block_iff:
  "(\<exists>reason sev. dd_check a r payload = RBlock reason sev) \<longleftrightarrow>
    rx_is_match a (dd_regex r) payload \<and> dd_action r = ActBlock"
  by (auto simp: dd_check_def split: rule_action.splits)

lemma configured_rule:
  assumes "and_then (dd_compile a spec) (\<lambda>r. Inr (data_driven a r)) = Inr r"
  shows "rule_name r = rs_id spec \<and> (rule_blocks r payload \<longleftrightarrow> rs_action spec = ActBlock
     \<and> (\<exists>re. rx_new a (rs_pattern spec) = Inr re \<and> rx_is_match a re payload))"
proof -
  obtain re where "rx_new a (rs_pattern spec) = Inr re"
    and "r = data_driven a \<lparr>dd_name = rs_id spec, dd_regex = re, dd_action = rs_action spec,
          dd_severity = rs_severity spec\<rparr>"
    using assms by (auto simp: and_then_Inr_iff dd_compile_def split: sum.splits)
  then show ?thesis by (auto simp: data_driven_def rule_blocks_def dd_check_block_iff)
qed

section \<open>Properties\<close>

text \<open>All rules always run on a payload within the cap, and only on such a payload: the findings are,
  in the order of the rules, one per rule that does not pass, blocking or advisory as the rule
  said; an oversize payload yields the single blocking finding of the cap. So a blocking rule hides
  no other rule's finding.\<close>
theorem all_rules_run:
  "if cl_max_payload_bytes l < length payload
   then challenge_findings l payload = [finding_blocking ''max_payload_bytes''
     (''payload of '' @ show_nat (length payload) @ '' bytes exceeds cap of ''
       @ show_nat (cl_max_payload_bytes l) @ '' bytes'') High]
   else map f_source (challenge_findings l payload)
       = map rule_name (filter (\<lambda>r. rule_check r payload \<noteq> RPass) (cl_rules l))
     \<and> map is_blocking (challenge_findings l payload)
       = map (\<lambda>r. rule_blocks r payload) (filter (\<lambda>r. rule_check r payload \<noteq> RPass) (cl_rules l))"
proof -
  have s: "map f_source (concat (map (\<lambda>r. rule_findings (rule_name r) (rule_check r payload)) rs))
      = map rule_name (filter (\<lambda>r. rule_check r payload \<noteq> RPass) rs)" for rs
  proof (induction rs)
    case (Cons r rs)
    then show ?case by (cases "rule_check r payload") auto
  qed simp
  have b: "map is_blocking (concat (map (\<lambda>r. rule_findings (rule_name r) (rule_check r payload)) rs))
      = map (\<lambda>r. rule_blocks r payload) (filter (\<lambda>r. rule_check r payload \<noteq> RPass) rs)" for rs
  proof (induction rs)
    case (Cons r rs)
    then show ?case by (cases "rule_check r payload") (auto simp: rule_blocks_def)
  qed simp
  show ?thesis by (simp add: challenge_findings_def oversize_payload_reason_def s b)
qed

text \<open>C9: The layer a configuration builds blocks exactly: payloads over the configured cap, what the
  homoglyph rule or the encoding rule blocks, and what some configured blocking pattern matches;
  its rules are the two built-in ones and one per configured pattern, in this order. A layer is only built when every
  configured pattern is a valid expression: an invalid one refuses the start with a configuration error.\<close>
theorem configured_layer_blocks_iff:
  assumes "layer_from_config tab a config = Some res"
  shows "case res of
      Inl e \<Rightarrow> \<exists>m. e = ConfigError m
    | Inr l \<Rightarrow> rule_names l = ''unicode_homoglyph'' # ''encoding_bypass'' # map rs_id (cc_rules config)
        \<and> (\<forall>spec \<in> set (cc_rules config). \<exists>re. rx_new a (rs_pattern spec) = Inr re)
        \<and> (\<exists>enc. from_specs a (cc_rules config) = Some (Inr enc)
             \<and> (\<forall>payload. findings_verdict (challenge_findings l payload) = Block \<longleftrightarrow>
                 cc_max_payload_bytes config < length payload
                 \<or> (\<exists>r s. homoglyph_check tab 5 payload = RBlock r s)
                 \<or> (\<exists>r s. encoding_check a enc payload = RBlock r s)
                 \<or> (\<exists>spec \<in> set (cc_rules config). rs_action spec = ActBlock
                      \<and> (\<exists>re. rx_new a (rs_pattern spec) = Inr re \<and> rx_is_match a re payload))))"
proof (cases res)
  case (Inl e)
  obtain built where b: "from_specs a (cc_rules config) = Some built"
    using assms by (auto simp: layer_from_config_def)
  have "\<exists>m. e' = ConfigError m" if "built = Inl e'" for e'
    using b that by (auto simp: from_specs_def with_limits_def Let_def split: sum.splits)
  moreover have "\<exists>m. e' = ConfigError m" if "dd_compile a spec = Inl e'" for e' spec
    using that by (auto simp: dd_compile_def split: sum.splits)
  ultimately show ?thesis
    using assms b Inl
    by (auto simp: layer_from_config_def and_then_Inl_iff dest!: try_map_Inl_ex)
next
  case (Inr l)
  let ?mk = "\<lambda>spec. and_then (dd_compile a spec) (\<lambda>r. Inr (data_driven a r))"
  obtain enc rs where e: "from_specs a (cc_rules config) = Some (Inr enc)"
    and rs: "list_all2 (\<lambda>spec r. ?mk spec = Inr r) (cc_rules config) rs"
    and l: "l = \<lparr>cl_rules = homoglyph_rule tab homoglyph_new # encoding_bypass a enc # rs,
            cl_max_payload_bytes = cc_max_payload_bytes config\<rparr>"
    using assms Inr by (auto simp: layer_from_config_def and_then_Inr_iff try_map_Inr_iff)
  have names: "map rule_name rs = map rs_id (cc_rules config)"
    using rs by (induction rule: list_all2_induct) (auto dest: configured_rule)
  have valid: "\<forall>spec \<in> set (cc_rules config). \<exists>re. rx_new a (rs_pattern spec) = Inr re"
    using rs by (induction rule: list_all2_induct) (auto simp: and_then_Inr_iff dd_compile_def split: sum.splits)
  have blocks: "(\<exists>r \<in> set rs. rule_blocks r payload) \<longleftrightarrow>
      (\<exists>spec \<in> set (cc_rules config). rs_action spec = ActBlock
         \<and> (\<exists>re. rx_new a (rs_pattern spec) = Inr re \<and> rx_is_match a re payload))" for payload
    using rs by (induction rule: list_all2_induct) (simp_all add: configured_rule)
  have "findings_verdict (challenge_findings l payload) = Block \<longleftrightarrow>
      \<not> (length payload \<le> cl_max_payload_bytes l \<and> (\<forall>r \<in> set (cl_rules l). \<not> rule_blocks r payload))" for payload
    unfolding challenge_findings_clear_iff [symmetric] by (cases "findings_verdict (challenge_findings l payload)") auto
  then show ?thesis
    using Inr e names blocks valid
    by (auto simp: l rule_names_def homoglyph_rule_def encoding_bypass_def rule_blocks_def homoglyph_new_def not_le)
qed

definition toy_challenge_config :: challenge_config where
  "toy_challenge_config = \<lparr>cc_max_payload_bytes = 100, cc_rules = [\<lparr>rs_id = ''p1'', rs_pattern = ''x'',
     rs_action = ActBlock, rs_severity = High, rs_description = None\<rparr>]\<rparr>"

theorem configured_layer_blocks_iff_witness:
  "\<exists>l. layer_from_config latin_tables toy_api toy_challenge_config = Some (Inr l)
     \<and> rule_names l = [''unicode_homoglyph'', ''encoding_bypass'', ''p1'']"
proof -
  have "\<exists>l. layer_from_config latin_tables toy_api toy_challenge_config = Some (Inr l)"
    by (simp add: layer_from_config_def from_specs_def with_limits_def toy_api_def toy_challenge_config_def
        dd_compile_def Let_def)
  then obtain l where l: "layer_from_config latin_tables toy_api toy_challenge_config = Some (Inr l)" ..
  from configured_layer_blocks_iff [OF l] l show ?thesis by (auto simp: toy_challenge_config_def)
qed

end
