(* ===== verification/Core_Payload.thy ===== *)
theory Core_Payload
  imports Core_Error
begin

text \<open>
  The payload typestate of \<open>ctp-core/src/payload.rs\<close> and the scanner traits it drives
  (\<open>ChallengeScanner\<close>, \<open>GuardScanner\<close> of \<open>traits.rs\<close>). The trust state is a phantom type
  parameter, as in the code. What the code takes from its environment is an argument: the fresh
  payload id, the measured duration of a scan, the rendering of a \<open>Uuid\<close> (a crate).
\<close>

section \<open>Payloads and their trust states\<close>

datatype tainted = Tainted
datatype challenged = Challenged
datatype vetted = Vetted

datatype 's payload = Payload (p_id: uuid) (p_bytes: bytes) (p_direction: direction)

type_synonym challenge_scanner = "bytes \<Rightarrow> finding list"
type_synonym guard_scanner = "bytes \<Rightarrow> direction \<Rightarrow> uuid \<Rightarrow> ctp_error + finding list"

definition payload_len :: "'s payload \<Rightarrow> nat" where
  "payload_len p = length (p_bytes p)"

definition payload_is_empty :: "'s payload \<Rightarrow> bool" where
  "payload_is_empty p \<longleftrightarrow> p_bytes p = []"

definition validate_report ::
  "(uuid \<Rightarrow> string) \<Rightarrow> 's payload \<Rightarrow> layer_report \<Rightarrow> layer \<Rightarrow> ctp_error + unit" where
  "validate_report show_uuid p r expected =
     (if r_layer r \<noteq> expected then
        Inl (TrustViolation (''promotion requires a '' @ show_layer expected
          @ '' report, got a '' @ show_layer (r_layer r) @ '' report''))
      else if r_payload_id r \<noteq> p_id p then
        Inl (TrustViolation (''report is bound to payload '' @ show_uuid (r_payload_id r)
          @ '', not '' @ show_uuid (p_id p)))
      else case r_verdict r of
             Pass \<Rightarrow> Inr ()
           | Block \<Rightarrow> Inl (Blocked (into_decision r (p_direction p))))"

definition rebind :: "'s payload \<Rightarrow> 't payload" where
  "rebind p = Payload (p_id p) (p_bytes p) (p_direction p)"

definition payload_new :: "uuid \<Rightarrow> bytes \<Rightarrow> direction \<Rightarrow> tainted payload" where
  "payload_new fresh_id bs dir = Payload fresh_id bs dir"

definition into_challenged ::
  "(uuid \<Rightarrow> string) \<Rightarrow> tainted payload \<Rightarrow> layer_report \<Rightarrow> ctp_error + challenged payload" where
  "into_challenged show_uuid p r =
     and_then (validate_report show_uuid p r Challenge) (\<lambda>_. Inr (rebind p))"

definition into_vetted ::
  "(uuid \<Rightarrow> string) \<Rightarrow> challenged payload \<Rightarrow> layer_report \<Rightarrow> ctp_error + vetted payload" where
  "into_vetted show_uuid p r =
     and_then (validate_report show_uuid p r Guard) (\<lambda>_. Inr (rebind p))"

definition payload_challenge ::
  "(uuid \<Rightarrow> string) \<Rightarrow> challenge_scanner \<Rightarrow> uuid \<Rightarrow> nanos \<Rightarrow> tainted payload
    \<Rightarrow> ctp_error + challenged payload \<times> layer_report" where
  "payload_challenge show_uuid scan sid elapsed p =
     (let fs = scan (p_bytes p); r = layer_report_new (p_id p) Challenge sid fs elapsed in
      and_then (into_challenged show_uuid p r) (\<lambda>q. Inr (q, r)))"

definition payload_guard ::
  "(uuid \<Rightarrow> string) \<Rightarrow> guard_scanner \<Rightarrow> uuid \<Rightarrow> nanos \<Rightarrow> challenged payload
    \<Rightarrow> ctp_error + vetted payload \<times> layer_report" where
  "payload_guard show_uuid scan sid elapsed p =
     and_then (scan (p_bytes p) (p_direction p) sid) (\<lambda>fs.
       let r = layer_report_new (p_id p) Guard sid fs elapsed in
       and_then (into_vetted show_uuid p r) (\<lambda>q. Inr (q, r)))"

definition payload_release :: "vetted payload \<Rightarrow> bytes" where
  "payload_release p = p_bytes p"

lemma rebind_simps [simp]:
  "p_id (rebind p) = p_id p" "p_bytes (rebind p) = p_bytes p" "p_direction (rebind p) = p_direction p"
  by (simp_all add: rebind_def)

lemma payload_new_simps [simp]:
  "p_id (payload_new i b d) = i" "p_bytes (payload_new i b d) = b" "p_direction (payload_new i b d) = d"
  by (simp_all add: payload_new_def)

section \<open>Validation of a report\<close>

lemma validate_report_Inr_iff:
  "validate_report su p r l = Inr u \<longleftrightarrow> r_layer r = l \<and> r_payload_id r = p_id p \<and> r_verdict r = Pass"
  by (auto simp: validate_report_def split: verdict.splits)

lemma validate_report_Blocked_iff:
  "validate_report su p r l = Inl (Blocked d) \<longleftrightarrow>
    r_layer r = l \<and> r_payload_id r = p_id p \<and> r_verdict r = Block \<and> d = into_decision r (p_direction p)"
  by (auto simp: validate_report_def split: verdict.splits)

lemma validate_report_own:
  assumes "r_layer r = l" "r_payload_id r = p_id p" "report_ok r"
  shows "validate_report su p r l =
    (if findings_verdict (r_findings r) = Pass then Inr ()
     else Inl (Blocked (into_decision r (p_direction p))))"
  using assms by (auto simp: validate_report_def report_ok_def split: verdict.splits)

section \<open>The contract of a promotion\<close>

text \<open>
  What the two public promotions share: they run the scanner, build the report from its findings,
  and advance the payload exactly when no finding blocks.
\<close>

locale promotion =
  fixes scan :: "'s payload \<Rightarrow> ctp_error + finding list"
    and promote :: "'s payload \<Rightarrow> ctp_error + 't payload \<times> layer_report"
    and lyr :: layer
    and sid :: uuid
  assumes scan_error: "scan p = Inl e \<Longrightarrow> promote p = Inl e"
    and clean: "scan p = Inr fs \<Longrightarrow> findings_verdict fs = Pass \<Longrightarrow>
      \<exists>t. promote p = Inr (rebind p, layer_report_new (p_id p) lyr sid fs t)"
    and dirty: "scan p = Inr fs \<Longrightarrow> findings_verdict fs = Block \<Longrightarrow>
      \<exists>t. promote p =
        Inl (Blocked (into_decision (layer_report_new (p_id p) lyr sid fs t) (p_direction p)))"
begin

lemma promoted_iff:
  "(\<exists>q r. promote p = Inr (q, r)) \<longleftrightarrow> (\<exists>fs. scan p = Inr fs \<and> findings_verdict fs = Pass)"
proof (cases "scan p")
  case (Inl e)
  then show ?thesis using scan_error by simp
next
  case (Inr fs)
  then show ?thesis
    using clean [OF Inr] dirty [OF Inr] by (cases "findings_verdict fs") auto
qed

lemma promoted:
  assumes "promote p = Inr (q, r)"
  obtains fs where "scan p = Inr fs" "findings_verdict fs = Pass" "r_findings r = fs"
    "q = rebind p" "r_layer r = lyr" "r_payload_id r = p_id p" "r_session_id r = sid" "report_ok r"
proof -
  obtain fs where fs: "scan p = Inr fs" "findings_verdict fs = Pass"
    using promoted_iff assms by blast
  with clean [OF fs] assms that show thesis by auto
qed

lemma promoted_bytes: "promote p = Inr (q, r) \<Longrightarrow> p_bytes q = p_bytes p"
  by (erule promoted) simp

lemma refused:
  assumes "promote p = Inl e"
  shows "scan p = Inl e \<or>
    (\<exists>fs d. scan p = Inr fs \<and> findings_verdict fs = Block \<and> e = Blocked d \<and> d_verdict d = Block
      \<and> d_findings d = fs \<and> d_layer d = lyr \<and> d_direction d = p_direction p \<and> d_session_id d = sid)"
proof (cases "scan p")
  case (Inl e')
  with assms scan_error show ?thesis by auto
next
  case (Inr fs)
  with assms clean [OF Inr] dirty [OF Inr] show ?thesis
    by (cases "findings_verdict fs") (auto simp: decision_defs)
qed

lemma refused_ok:
  assumes "promote p = Inl e" "\<And>e'. scan p = Inl e' \<Longrightarrow> error_ok e'"
  shows "error_ok e"
  using refused [OF assms(1)] assms(2) by auto

end

text \<open>Both promotions of the code satisfy it, whatever the scanner finds.\<close>

interpretation l1: promotion
  "\<lambda>p. Inr (scan (p_bytes p))" "payload_challenge show_uuid scan sid elapsed" Challenge sid
  for scan show_uuid sid elapsed
  by unfold_locales
    (auto simp: payload_challenge_def into_challenged_def validate_report_own Let_def)

interpretation l2: promotion
  "\<lambda>p. scan (p_bytes p) (p_direction p) sid" "payload_guard show_uuid scan sid elapsed" Guard sid
  for scan show_uuid sid elapsed
  by unfold_locales
    (auto simp: payload_guard_def into_vetted_def validate_report_own Let_def)

section \<open>The public interface as a state machine\<close>

text \<open>
  What embedding code can do with a payload: create it tainted, run a scanner of either layer on
  it when it is in the state that method exists on, and release it when it is vetted. A scan is
  recorded with the layer, the bytes it saw and its findings. Calls in another order have no rule:
  they do not type-check in the source.
\<close>

datatype stage =
    AtTainted "tainted payload"
  | AtChallenged "challenged payload"
  | AtVetted "vetted payload"
  | Refused ctp_error
  | Released bytes

type_synonym scan_log = "(layer \<times> bytes \<times> finding list) list"

inductive api_step :: "stage \<times> scan_log \<Rightarrow> stage \<times> scan_log \<Rightarrow> bool" where
  challenge_ok: "payload_challenge su scan sid t p = Inr (q, r) \<Longrightarrow>
    api_step (AtTainted p, tr) (AtChallenged q, tr @ [(Challenge, p_bytes p, scan (p_bytes p))])"
| challenge_err: "payload_challenge su scan sid t p = Inl e \<Longrightarrow>
    api_step (AtTainted p, tr) (Refused e, tr @ [(Challenge, p_bytes p, scan (p_bytes p))])"
| guard_ok: "payload_guard su gscan sid t p = Inr (q, r) \<Longrightarrow>
    gscan (p_bytes p) (p_direction p) sid = Inr fs \<Longrightarrow>
    api_step (AtChallenged p, tr) (AtVetted q, tr @ [(Guard, p_bytes p, fs)])"
| guard_err: "payload_guard su gscan sid t p = Inl e \<Longrightarrow>
    api_step (AtChallenged p, tr) (Refused e, tr)"
| release: "api_step (AtVetted p, tr) (Released (payload_release p), tr)"

inductive_cases api_step_taintedE: "api_step (AtTainted p, tr) s"
inductive_cases api_step_challengedE: "api_step (AtChallenged p, tr) s"
inductive_cases api_step_vettedE: "api_step (AtVetted p, tr) s"
inductive_simps api_step_refused [simp]: "api_step (Refused e, tr) s"
inductive_simps api_step_released [simp]: "api_step (Released b, tr) s"

inductive api_reachable :: "bytes \<Rightarrow> stage \<times> scan_log \<Rightarrow> bool" for b where
  start: "api_reachable b (AtTainted (payload_new i b dir), [])"
| step: "api_reachable b s \<Longrightarrow> api_step s s' \<Longrightarrow> api_reachable b s'"

text \<open>The invariant: how far a payload has come says which scans of its bytes have passed.\<close>

definition passed :: "layer \<Rightarrow> bytes \<Rightarrow> scan_log \<Rightarrow> bool" where
  "passed l b tr \<longleftrightarrow> (\<exists>fs. (l, b, fs) \<in> set tr \<and> findings_verdict fs = Pass)"

fun api_inv :: "bytes \<Rightarrow> stage \<times> scan_log \<Rightarrow> bool" where
  "api_inv b (AtTainted p, tr) \<longleftrightarrow> p_bytes p = b \<and> tr = []"
| "api_inv b (AtChallenged p, tr) \<longleftrightarrow> p_bytes p = b \<and> passed Challenge b tr"
| "api_inv b (AtVetted p, tr) \<longleftrightarrow> p_bytes p = b \<and> passed Challenge b tr \<and> passed Guard b tr"
| "api_inv b (Refused e, tr) \<longleftrightarrow> True"
| "api_inv b (Released out, tr) \<longleftrightarrow> out = b \<and> passed Challenge b tr \<and> passed Guard b tr"

lemma passed_append: "passed l b tr \<Longrightarrow> passed l b (tr @ tr')"
  by (auto simp: passed_def)

lemma passed_snoc: "findings_verdict fs = Pass \<Longrightarrow> passed l b (tr @ [(l, b, fs)])"
  by (auto simp: passed_def)

lemma api_step_inv: "api_step s s' \<Longrightarrow> api_inv b s \<Longrightarrow> api_inv b s'"
proof (induction rule: api_step.induct)
  case (challenge_ok su scan sid t p q r tr)
  then show ?case by (auto elim!: l1.promoted simp: passed_def)
next
  case (guard_ok su gscan sid t p q r fs tr)
  from guard_ok.hyps(1) have "findings_verdict fs = Pass" "q = rebind p"
    using guard_ok.hyps(2) by (auto elim!: l2.promoted)
  with guard_ok.prems show ?case by (auto intro: passed_snoc passed_append)
qed (simp_all add: payload_release_def)

lemma api_reachable_inv: "api_reachable b s \<Longrightarrow> api_inv b s"
  by (induction rule: api_reachable.induct) (auto intro: api_step_inv)

text \<open>Every stage short of the two terminal ones can move, so a payload is never stuck.\<close>

lemma api_step_progress:
  "(\<exists>s'. api_step (st, tr) s') \<longleftrightarrow> (\<nexists>e. st = Refused e) \<and> (\<nexists>b. st = Released b)"
proof (cases st)
  case (AtTainted p)
  have "\<exists>s'. api_step (AtTainted p, tr) s'"
    by (cases "payload_challenge (\<lambda>_. []) (\<lambda>_. []) 0 0 p")
      (auto intro: api_step.intros)
  with AtTainted show ?thesis by simp
next
  case (AtChallenged p)
  have "\<exists>s'. api_step (AtChallenged p, tr) s'"
    using guard_err [of "\<lambda>_. []" "\<lambda>_ _ _. Inl (TrustViolation [])" 0 0 p "TrustViolation []" tr]
    by (auto simp: payload_guard_def)
  with AtChallenged show ?thesis by simp
qed (auto intro: api_step.release)

section \<open>Properties\<close>

text \<open>C2: No byte leaves the payload interface unvetted: whatever sequence of calls embedding code
  makes, when bytes are released they are the bytes the payload was created with, and both a
  challenge scan and a guard scan of exactly these bytes have returned no blocking finding.\<close>
theorem released_bytes_are_vetted:
  assumes "api_reachable b (Released out, tr)"
  shows "out = b \<and> (\<exists>fs. (Challenge, b, fs) \<in> set tr \<and> findings_verdict fs = Pass)
    \<and> (\<exists>gs. (Guard, b, gs) \<in> set tr \<and> findings_verdict gs = Pass)"
  using api_reachable_inv [OF assms] by (simp add: passed_def)

theorem released_bytes_are_vetted_witness:
  "api_reachable ''hi'' (Released ''hi'', [(Challenge, ''hi'', []), (Guard, ''hi'', [])])
    \<and> (\<exists>gs. (Guard, ''hi'', gs) \<in> set [(Challenge, ''hi'', []), (Guard, ''hi'', [])] \<and> findings_verdict gs = Pass)"
proof -
  let ?p = "payload_new 1 ''hi'' Inbound"
  let ?q = "rebind ?p :: challenged payload"
  let ?v = "rebind ?q :: vetted payload"
  have "payload_challenge (\<lambda>_. []) (\<lambda>_. []) 0 0 ?p
      = Inr (?q, layer_report_new 1 Challenge 0 [] 0)"
    by (simp add: payload_challenge_def into_challenged_def validate_report_own Let_def findings_verdict_def)
  from challenge_ok [OF this, of "[]"]
  have 1: "api_step (AtTainted ?p, []) (AtChallenged ?q, [(Challenge, ''hi'', [])])" by simp
  have "payload_guard (\<lambda>_. []) (\<lambda>_ _ _. Inr []) 0 0 ?q
      = Inr (?v, layer_report_new 1 Guard 0 [] 0)"
    by (simp add: payload_guard_def into_vetted_def validate_report_own Let_def findings_verdict_def)
  from guard_ok [OF this, of "[]" "[(Challenge, ''hi'', [])]"]
  have 2: "api_step (AtChallenged ?q, [(Challenge, ''hi'', [])])
      (AtVetted ?v, [(Challenge, ''hi'', []), (Guard, ''hi'', [])])" by simp
  have 3: "api_step (AtVetted ?v, [(Challenge, ''hi'', []), (Guard, ''hi'', [])])
      (Released ''hi'', [(Challenge, ''hi'', []), (Guard, ''hi'', [])])"
    using release [of ?v] by (simp add: payload_release_def)
  have "api_reachable ''hi'' (Released ''hi'', [(Challenge, ''hi'', []), (Guard, ''hi'', [])])"
    by (rule api_reachable.step [OF api_reachable.step [OF api_reachable.step [OF api_reachable.start 1] 2] 3])
  with released_bytes_are_vetted [OF this] show ?thesis by blast
qed

text \<open>A report promotes only the payload and the transition it was made for: a report of the other
  layer or of another payload is refused as a trust violation, whatever its verdict; a blocking
  report of the right one is refused with the decision made from it; only a passing report of
  this layer and this payload promotes, and the promotion keeps the bytes, the identity and the
  direction.\<close>
theorem promotion_needs_matching_report:
  "(\<exists>q. into_challenged su p r = Inr q) = (r_layer r = Challenge \<and> r_payload_id r = p_id p \<and> r_verdict r = Pass)
   \<and> (\<exists>q. into_vetted su c r = Inr q) = (r_layer r = Guard \<and> r_payload_id r = p_id c \<and> r_verdict r = Pass)
   \<and> (\<exists>m. into_challenged su p r = Inl (TrustViolation m)) = (r_layer r \<noteq> Challenge \<or> r_payload_id r \<noteq> p_id p)
   \<and> (\<exists>m. into_vetted su c r = Inl (TrustViolation m)) = (r_layer r \<noteq> Guard \<or> r_payload_id r \<noteq> p_id c)
   \<and> into_challenged su p r \<in> {Inr (rebind p), Inl (Blocked (into_decision r (p_direction p)))} \<union> range (Inl \<circ> TrustViolation)
   \<and> into_vetted su c r \<in> {Inr (rebind c), Inl (Blocked (into_decision r (p_direction c)))} \<union> range (Inl \<circ> TrustViolation)"
  by (auto simp: into_challenged_def into_vetted_def validate_report_def split: verdict.splits if_splits)

theorem promotion_needs_matching_report_witness:
  "\<exists>m. into_vetted (\<lambda>_. []) (rebind (payload_new 1 ''hi'' Inbound))
     (layer_report_new 1 Challenge 0 [] 0) = Inl (TrustViolation m)"
  using promotion_needs_matching_report [of "\<lambda>_. []" "payload_new 1 ''hi'' Inbound"
    "layer_report_new 1 Challenge 0 [] 0" "rebind (payload_new 1 ''hi'' Inbound)"]
  by simp

end
