(* ===== verification/Kernel_Fanout.thy ===== *)
theory Kernel_Fanout
  imports Core_Payload Ctp_Float
begin

text \<open>
  The fan-out of Layer 2, \<open>GuardFanout\<close> of \<open>ctp-kernel/src/lib.rs\<close>, and the contract it calls,
  \<open>GuardCheck\<close> of \<open>ctp-core/src/traits.rs\<close>: the payload is cut into overlapping windows, each
  window is classified in a task of its own under a timeout, and the joined results become
  findings. A guard is the function from requests to what the task observes of it during the call:
  an answer after some time, a panic, or nothing ever. The order in which the tasks complete is an
  argument of the definition, and no verdict depends on it.
\<close>

section \<open>The guard contract\<close>

text \<open>An \<open>f32\<close> is one of the values of the type of doubles.\<close>

type_synonym f32 = f64

record guard_request =
  gr_window :: bytes
  gr_window_index :: u32
  gr_window_count :: u32
  gr_direction :: direction
  gr_tool_name :: "string option"
  gr_anomaly_flags :: "string list"
  gr_session_id :: uuid

record guard_verdict =
  gv_verdict :: verdict
  gv_confidence :: f32
  gv_flags :: "string list"
  gv_model_id :: string
  gv_inference :: nanos

datatype guard_run = Answers nanos "ctp_error + guard_verdict" | Panics nanos | Hangs

type_synonym guard_check = "guard_request \<Rightarrow> guard_run"

section \<open>Windows\<close>

record guard_fanout =
  gf_max_window_bytes :: nat
  gf_overlap :: nat
  gf_timeout :: nanos

definition fanout_new :: "nat \<Rightarrow> nat \<Rightarrow> nanos \<Rightarrow> guard_fanout" where
  "fanout_new max_window_bytes overlap timeout =
     \<lparr>gf_max_window_bytes = max max_window_bytes 1, gf_overlap = overlap, gf_timeout = timeout\<rparr>"

text \<open>The step between windows; the subtraction of naturals saturates as \<open>saturating_sub\<close> does.\<close>

definition window_step :: "guard_fanout \<Rightarrow> nat" where
  "window_step f = max (gf_max_window_bytes f - gf_overlap f) 1"

lemma window_step_pos [simp]: "0 < window_step f"
  by (simp add: window_step_def)

function windows_from :: "guard_fanout \<Rightarrow> bytes \<Rightarrow> nat \<Rightarrow> bytes list" where
  "windows_from f payload start =
     (if start < length payload then
        (let stop = min (start + gf_max_window_bytes f) (length payload);
             w = take (stop - start) (drop start payload) in
         if stop = length payload then [w]
         else w # windows_from f payload (start + window_step f))
      else [])"
  by pat_completeness auto
termination
  by (relation "measure (\<lambda>(f, payload, start). length payload - start)")
    (auto simp: diff_less_mono2)

declare windows_from.simps [simp del]

definition windows :: "guard_fanout \<Rightarrow> bytes \<Rightarrow> bytes list" where
  "windows f payload =
     (if length payload \<le> gf_max_window_bytes f then [payload] else windows_from f payload 0)"

section \<open>Classifying the windows\<close>

definition window_request ::
  "direction \<Rightarrow> uuid \<Rightarrow> nat \<Rightarrow> nat \<Rightarrow> bytes \<Rightarrow> guard_request" where
  "window_request dir sid window_count idx w =
     \<lparr>gr_window = w, gr_window_index = of_nat idx, gr_window_count = of_nat window_count,
      gr_direction = dir, gr_tool_name = None, gr_anomaly_flags = [], gr_session_id = sid\<rparr>"

definition budget_ms :: "nanos \<Rightarrow> u64" where
  "budget_ms t = of_nat (t div 1000000)"

text \<open>
  \<open>tokio::time::timeout\<close> around the call, inside the spawned task: the outer left is the error of
  joining a task that panicked. A future dropped at its deadline does not go on to panic. The
  wrapper polls the call before the timer, so a call that is ready in the very poll in which the deadline has passed
  still counts: the time of an answer, or of a panic, is the timer's reading for that poll, where such a call
  has a time that is not over the deadline.
\<close>

datatype joined = Joined "ctp_error + guard_verdict" | JoinError

fun run_window :: "nanos \<Rightarrow> guard_run \<Rightarrow> joined" where
  "run_window timeout (Answers t r) =
     (if t \<le> timeout then Joined r else Joined (Inl (GuardTimeout (budget_ms timeout))))"
| "run_window timeout (Panics t) =
     (if t \<le> timeout then JoinError else Joined (Inl (GuardTimeout (budget_ms timeout))))"
| "run_window timeout Hangs = Joined (Inl (GuardTimeout (budget_ms timeout)))"

fun joined_result :: "joined \<Rightarrow> ctp_error + guard_verdict" where
  "joined_result (Joined r) = r"
| "joined_result JoinError = Inl (GuardUnavailable ''guard task panicked'')"

fun error_source :: "ctp_error \<Rightarrow> string \<times> severity" where
  "error_source (GuardTimeout _) = (''guard_timeout'', High)"
| "error_source (GuardContractViolation _) = (''guard_contract_violation'', Critical)"
| "error_source _ = (''guard_unavailable'', High)"

fun result_findings :: "ctp_error + guard_verdict \<Rightarrow> finding list" where
  "result_findings (Inr v) =
     (if gv_verdict v = Block then
        [finding_blocking ''guard'' (''window blocked ['' @ join_with '','' (gv_flags v) @ '']'') High]
      else map (\<lambda>flag. finding_advisory ''guard'' flag Low) (gv_flags v))"
| "result_findings (Inl err) =
     [finding_blocking (fst (error_source err)) (show_error err) (snd (error_source err))]"

text \<open>
  The tasks complete in some order. A schedule names, at each join, the task that completes next
  among those still running; every order of completion is the order of some schedule.
\<close>

fun join_order :: "nat list \<Rightarrow> 'a list \<Rightarrow> 'a list" where
  "join_order _ [] = []"
| "join_order [] (x # xs) = x # xs"
| "join_order (k # ks) (x # xs) =
     (let i = k mod length (x # xs) in
      (x # xs) ! i # join_order ks (take i (x # xs) @ drop (Suc i) (x # xs)))"

definition guard_requests :: "guard_fanout \<Rightarrow> bytes \<Rightarrow> direction \<Rightarrow> uuid \<Rightarrow> guard_request list" where
  "guard_requests f payload dir sid =
     (let ws = windows f payload in
      map (\<lambda>(idx, w). window_request dir sid (length ws) idx w) (List.enumerate 0 ws))"

definition guard_findings ::
  "guard_fanout \<Rightarrow> guard_check \<Rightarrow> nat list \<Rightarrow> bytes \<Rightarrow> direction \<Rightarrow> uuid \<Rightarrow> ctp_error + finding list" where
  "guard_findings f guard sched payload dir sid =
     (let tasks = map (\<lambda>rq. run_window (gf_timeout f) (guard rq)) (guard_requests f payload dir sid) in
      Inr (concat (map (\<lambda>j. result_findings (joined_result j)) (join_order sched tasks))))"

section \<open>The order of completion\<close>

lemma mset_take_nth_drop: "i < length xs \<Longrightarrow> mset (xs ! i # take i xs @ drop (Suc i) xs) = mset xs"
proof -
  assume "i < length xs"
  then have "mset xs = mset (take i xs @ xs ! i # drop (Suc i) xs)" by (simp add: id_take_nth_drop [symmetric])
  then show ?thesis by simp
qed

lemma mset_join_order [simp]: "mset (join_order ks xs) = mset xs"
proof (induction ks xs rule: join_order.induct)
  case (3 k ks x xs)
  have "k mod length (x # xs) < length (x # xs)" by simp
  from mset_take_nth_drop [OF this] 3 show ?case by (simp add: Let_def)
qed simp_all

lemma set_join_order [simp]: "set (join_order ks xs) = set xs"
  using mset_join_order [of ks xs] by (rule mset_eq_setD)

lemma join_order_onto: "mset ys = mset xs \<Longrightarrow> \<exists>ks. join_order ks xs = ys"
proof (induction ys arbitrary: xs)
  case (Cons y ys)
  then have "y \<in> set xs" using mset_eq_setD [OF Cons.prems] by auto
  then obtain i where i: "i < length xs" "xs ! i = y" by (auto simp: in_set_conv_nth)
  have "add_mset y (mset ys) = add_mset y (mset (take i xs @ drop (Suc i) xs))"
    using mset_take_nth_drop [OF i(1)] Cons.prems i(2) by simp
  then have "mset ys = mset (take i xs @ drop (Suc i) xs)" by simp
  then obtain ks where "join_order ks (take i xs @ drop (Suc i) xs) = ys" using Cons.IH by blast
  then have "join_order (i # ks) xs = y # ys" using i by (cases xs) (auto simp: Let_def)
  then show ?case ..
qed simp

lemma mset_concat_map_join_order:
  "mset (concat (map g (join_order ks xs))) = mset (concat (map g xs))"
  by (simp add: mset_concat) (metis mset_join_order mset_map sum_mset_sum_list)

section \<open>The windows\<close>

text \<open>The number of windows from an offset, in closed form: the rest after the first, rounded up.\<close>

definition window_total :: "guard_fanout \<Rightarrow> nat \<Rightarrow> nat" where
  "window_total f n = Suc ((n - gf_max_window_bytes f + window_step f - 1) div window_step f)"

lemma window_total_one: "n \<le> gf_max_window_bytes f \<Longrightarrow> window_total f n = 1"
  by (simp add: window_total_def)

lemma window_total_step:
  assumes "gf_max_window_bytes f < n"
  shows "window_total f n = Suc (window_total f (n - window_step f))"
proof -
  let ?s = "window_step f" and ?a = "n - gf_max_window_bytes f"
  have s: "0 < ?s" and a: "0 < ?a" using assms by simp_all
  have d: "n - ?s - gf_max_window_bytes f = ?a - ?s" by simp
  have l: "(?a + ?s - 1) div ?s = Suc ((?a - 1) div ?s)"
  proof -
    have "?a + ?s - 1 = (?a - 1) + ?s" using a by simp
    then show ?thesis using s by simp
  qed
  have r: "(?a - ?s + ?s - 1) div ?s = (?a - 1) div ?s"
  proof (cases "?s \<le> ?a")
    case True
    then have "?a - ?s + ?s - 1 = ?a - 1" by linarith
    then show ?thesis by (rule arg_cong [where f = "\<lambda>x. x div ?s"])
  next
    case False
    then have "?a - 1 < ?s" "?a - ?s = 0" using a by simp_all
    then show ?thesis using s by simp
  qed
  show ?thesis unfolding window_total_def d l r ..
qed

lemma window_step_le: "0 < gf_max_window_bytes f \<Longrightarrow> window_step f \<le> gf_max_window_bytes f"
  by (simp add: window_step_def)

lemma windows_from_eq:
  assumes "0 < gf_max_window_bytes f" "start < length p"
  shows "windows_from f p start =
    map (\<lambda>k. take (gf_max_window_bytes f) (drop (start + k * window_step f) p))
      [0..<window_total f (length p - start)]"
  using assms(2)
proof (induction "length p - start" arbitrary: start rule: less_induct)
  case less
  let ?W = "gf_max_window_bytes f" and ?s = "window_step f"
  show ?case
  proof (cases "length p \<le> start + ?W")
    case True
    then have "windows_from f p start = [take ?W (drop start p)]"
      using less.prems by (subst windows_from.simps) (simp add: Let_def min_def)
    moreover have "window_total f (length p - start) = 1"
      using True by (intro window_total_one) simp
    ultimately show ?thesis by simp
  next
    case False
    let ?n = "window_total f (length p - (start + ?s))"
    have lt: "start + ?s < length p" using False window_step_le [OF assms(1)] by simp
    have w: "windows_from f p start = take ?W (drop start p) # windows_from f p (start + ?s)"
      using less.prems False by (subst windows_from.simps) (simp add: Let_def min_def)
    have "window_total f (length p - start) = Suc ?n"
      using window_total_step [of f "length p - start"] False by simp
    moreover have "windows_from f p (start + ?s) =
        map (\<lambda>k. take ?W (drop (start + ?s + k * ?s) p)) [0..<?n]"
      by (rule less.hyps) (use lt window_step_pos [of f] in \<open>simp_all del: window_step_pos\<close>)
    ultimately show ?thesis
      unfolding w by (simp add: upt_conv_Cons map_Suc_upt [symmetric] comp_def add.assoc del: upt_Suc)
  qed
qed

lemma windows_eq:
  assumes "0 < gf_max_window_bytes f"
  shows "windows f p =
    map (\<lambda>k. take (gf_max_window_bytes f) (drop (k * window_step f) p)) [0..<window_total f (length p)]"
proof (cases "length p \<le> gf_max_window_bytes f")
  case True
  then show ?thesis by (simp add: windows_def window_total_one)
next
  case False
  then have "0 < length p" by linarith
  with False windows_from_eq [OF assms, of 0 p] show ?thesis by (simp add: windows_def)
qed

text \<open>A block no longer than the overlap and one byte more lies in a window as a whole.\<close>

lemma block_in_window:
  assumes W: "0 < gf_max_window_bytes f"
    and m: "m \<le> gf_max_window_bytes f - window_step f + 1"
    and i: "i + m \<le> length p"
  obtains k where "k < window_total f (length p)" "k * window_step f \<le> i"
    "i + m \<le> k * window_step f + gf_max_window_bytes f"
proof -
  let ?W = "gf_max_window_bytes f" and ?s = "window_step f" and ?N = "window_total f (length p)"
  have sW: "?s \<le> ?W" by (rule window_step_le [OF W])
  have last: "length p \<le> (?N - 1) * ?s + ?W"
  proof -
    have "length p - ?W \<le> ((length p - ?W + ?s - 1) div ?s) * ?s"
    proof -
      have "length p - ?W + ?s - 1 - (length p - ?W + ?s - 1) mod ?s
          = ((length p - ?W + ?s - 1) div ?s) * ?s"
        by (simp add: minus_mod_eq_div_mult)
      moreover have "(length p - ?W + ?s - 1) mod ?s < ?s" by simp
      ultimately show ?thesis by linarith
    qed
    then show ?thesis by (simp add: window_total_def)
  qed
  show thesis
  proof (cases "i div ?s < ?N")
    case True
    have "i mod ?s < ?s" by simp
    moreover have "i = i div ?s * ?s + i mod ?s" by simp
    ultimately have "i + m \<le> i div ?s * ?s + ?W" using m sW by linarith
    then show thesis using that [OF True] by simp
  next
    case False
    have N: "0 < ?N" by (simp add: window_total_def)
    have "(?N - 1) * ?s \<le> i div ?s * ?s" using False by (intro mult_le_mono1) simp
    also have "\<dots> \<le> i" by simp
    finally show thesis using that [of "?N - 1"] N last i by simp
  qed
qed

lemma take_drop_sub:
  assumes "b \<le> i" "i + m \<le> b + w"
  shows "take m (drop i p) = take m (drop (i - b) (take w (drop b p)))"
  using assms by (simp add: drop_take min_def)

lemma windows_cover:
  assumes W: "0 < gf_max_window_bytes f"
    and q: "length q \<le> gf_max_window_bytes f - window_step f + 1" "has_block q p"
  shows "\<exists>w \<in> set (windows f p). has_block q w"
proof -
  obtain us vs where p: "p = us @ q @ vs" using q(2) by (auto simp: has_block_iff)
  obtain k where k: "k < window_total f (length p)" "k * window_step f \<le> length us"
    "length us + length q \<le> k * window_step f + gf_max_window_bytes f"
    by (rule block_in_window [OF W q(1), of "length us" p]) (simp add: p)
  let ?w = "take (gf_max_window_bytes f) (drop (k * window_step f) p)"
  have w: "?w \<in> set (windows f p)" using k(1) by (auto simp: windows_eq [OF W])
  have "q = take (length q) (drop (length us - k * window_step f) ?w)"
    using take_drop_sub [OF k(2,3), of p] by (simp add: p)
  then have "?w = take (length us - k * window_step f) ?w @ q
      @ drop (length q) (drop (length us - k * window_step f) ?w)"
    by (metis append_take_drop_id)
  then have "has_block q ?w" unfolding has_block_iff by blast
  with w show ?thesis ..
qed

lemma windows_are_blocks:
  assumes "0 < gf_max_window_bytes f" "w \<in> set (windows f p)"
  shows "has_block w p \<and> length w \<le> gf_max_window_bytes f"
proof -
  obtain k where "w = take (gf_max_window_bytes f) (drop (k * window_step f) p)"
    using assms by (auto simp: windows_eq)
  then show ?thesis
    unfolding has_block_iff by (metis append_take_drop_id length_take min.cobounded2)
qed

lemma windows_nonempty: "windows f p \<noteq> []"
  by (cases "p = []") (auto simp: windows_def windows_from.simps [of f p 0] Let_def)

section \<open>The findings\<close>

definition answered_pass :: "nanos \<Rightarrow> guard_run \<Rightarrow> bool" where
  "answered_pass timeout r \<longleftrightarrow> (\<exists>t v. r = Answers t (Inr v) \<and> t \<le> timeout \<and> gv_verdict v = Pass)"

text \<open>The specification: what one window contributes, as a function of the guard's behaviour on it.\<close>

definition window_findings :: "nanos \<Rightarrow> guard_run \<Rightarrow> finding list" where
  "window_findings timeout r = result_findings (joined_result (run_window timeout r))"

lemma result_findings_clear_iff:
  "findings_verdict (result_findings r) = Pass \<longleftrightarrow> (\<exists>v. r = Inr v \<and> gv_verdict v = Pass)"
proof (cases r)
  case (Inr v)
  then show ?thesis by (cases "gv_verdict v") (auto simp: findings_verdict_Pass_iff)
qed (simp add: findings_verdict_Pass_iff)

lemma window_findings_clear_iff:
  "findings_verdict (window_findings timeout r) = Pass \<longleftrightarrow> answered_pass timeout r"
  unfolding window_findings_def result_findings_clear_iff
  by (cases r) (auto simp: answered_pass_def)

lemma findings_verdict_concat:
  "findings_verdict (concat fss) = Pass \<longleftrightarrow> (\<forall>fs \<in> set fss. findings_verdict fs = Pass)"
  by (auto simp: findings_verdict_Pass_iff)

lemma guard_findings_total: "guard_findings f g sched p dir sid \<noteq> Inl e"
  by (simp add: guard_findings_def Let_def)

lemma guard_findings_mset:
  assumes "guard_findings f g sched p dir sid = Inr fs"
  shows "mset fs = mset (concat (map (\<lambda>rq. window_findings (gf_timeout f) (g rq)) (guard_requests f p dir sid)))"
proof -
  let ?ts = "map (\<lambda>rq. run_window (gf_timeout f) (g rq)) (guard_requests f p dir sid)"
  have "fs = concat (map (\<lambda>j. result_findings (joined_result j)) (join_order sched ?ts))"
    using assms by (simp add: guard_findings_def Let_def)
  then show ?thesis
    by (simp only: mset_concat_map_join_order) (simp add: window_findings_def comp_def)
qed

lemma guard_findings_verdict:
  assumes "guard_findings f g sched p dir sid = Inr fs"
  shows "findings_verdict fs = Pass \<longleftrightarrow>
    (\<forall>rq \<in> set (guard_requests f p dir sid). answered_pass (gf_timeout f) (g rq))"
  unfolding findings_verdict_mset_cong [OF guard_findings_mset [OF assms]]
  by (auto simp: findings_verdict_concat window_findings_clear_iff)

lemma guard_requests_nonempty: "guard_requests f p dir sid \<noteq> []"
  by (simp add: guard_requests_def Let_def windows_nonempty enumerate_eq_zip)

lemma guard_requests_nth:
  assumes "i < length (windows f p)"
  shows "guard_requests f p dir sid ! i = window_request dir sid (length (windows f p)) i (windows f p ! i)"
  using assms by (simp add: guard_requests_def Let_def nth_enumerate_eq)

lemma length_guard_requests [simp]: "length (guard_requests f p dir sid) = length (windows f p)"
  by (simp add: guard_requests_def Let_def)

lemma guard_requests_window:
  "rq \<in> set (guard_requests f p dir sid) \<Longrightarrow> gr_window rq \<in> set (windows f p)"
  by (auto simp: guard_requests_def Let_def window_request_def in_set_enumerate_eq)

lemma windows_requested:
  "w \<in> set (windows f p) \<Longrightarrow> \<exists>rq \<in> set (guard_requests f p dir sid). gr_window rq = w"
proof -
  assume "w \<in> set (windows f p)"
  then obtain i where i: "i < length (windows f p)" "windows f p ! i = w" by (auto simp: in_set_conv_nth)
  then have "gr_window (guard_requests f p dir sid ! i) = w" by (simp add: guard_requests_nth window_request_def)
  then show ?thesis using i by (intro bexI [of _ "guard_requests f p dir sid ! i"]) auto
qed

lemma fanout_new_simps [simp]:
  "0 < gf_max_window_bytes (fanout_new w ov t)" "gf_timeout (fanout_new w ov t) = t"
  "gf_max_window_bytes (fanout_new w ov t) = max w 1" "gf_overlap (fanout_new w ov t) = ov"
  by (simp_all add: fanout_new_def)

section \<open>Properties\<close>

text \<open>C5: The fan-out is fail-closed: its findings leave the payload passing exactly when the guard
  answered every window within the timeout with the verdict PASS. One window that blocks, errs,
  panics, hangs or is late blocks the payload, whatever the order of completion.\<close>
theorem fanout_passes_iff_all_windows_pass:
  "\<exists>fs. guard_findings f g sched p dir sid = Inr fs \<and>
    (findings_verdict fs = Pass \<longleftrightarrow>
      (\<forall>rq \<in> set (guard_requests f p dir sid). \<exists>t v. g rq = Answers t (Inr v)
          \<and> t \<le> gf_timeout f \<and> gv_verdict v = Pass))"
proof -
  obtain fs where "guard_findings f g sched p dir sid = Inr fs"
    by (cases "guard_findings f g sched p dir sid") (auto simp: guard_findings_total)
  with guard_findings_verdict show ?thesis by (auto simp: answered_pass_def)
qed

definition pass_verdict :: guard_verdict where
  "pass_verdict = \<lparr>gv_verdict = Pass, gv_confidence = f64_zero, gv_flags = [], gv_model_id = ''mock'',
     gv_inference = 0\<rparr>"

theorem fanout_passes_iff_all_windows_pass_witness:
  "\<exists>fs. guard_findings (fanout_new 4 1 1000) (\<lambda>rq. Hangs) [] ''abcdefg'' Inbound 0 = Inr fs
     \<and> findings_verdict fs = Block"
proof -
  obtain fs where fs: "guard_findings (fanout_new 4 1 1000) (\<lambda>rq. Hangs) [] ''abcdefg'' Inbound 0 = Inr fs"
    "findings_verdict fs = Pass \<longleftrightarrow>
       (\<forall>rq \<in> set (guard_requests (fanout_new 4 1 1000) ''abcdefg'' Inbound 0). False)"
    using fanout_passes_iff_all_windows_pass [of "fanout_new 4 1 1000" "\<lambda>rq. Hangs" "[]" "''abcdefg''" Inbound 0]
    by auto
  have "findings_verdict fs \<noteq> Pass"
    using fs(2) guard_requests_nonempty [of "fanout_new 4 1 1000" "''abcdefg''" Inbound 0] by auto
  then have "findings_verdict fs = Block" by (cases "findings_verdict fs") auto
  with fs(1) show ?thesis by blast
qed

text \<open>The order in which the guard tasks complete decides only the order of the findings: any
  two schedules give the same findings as a multiset, and every order of the tasks is the order
  of some schedule.\<close>
theorem fanout_schedule_irrelevant:
  "\<exists>fs gs. guard_findings f g sched p dir sid = Inr fs \<and> guard_findings f g sched' p dir sid = Inr gs
     \<and> mset fs = mset gs \<and> findings_verdict fs = findings_verdict gs"
proof -
  obtain fs gs where r: "guard_findings f g sched p dir sid = Inr fs" "guard_findings f g sched' p dir sid = Inr gs"
    by (simp add: guard_findings_def Let_def)
  then have "mset fs = mset gs" by (simp add: guard_findings_mset)
  with r findings_verdict_mset_cong show ?thesis by blast
qed

lemma phrase_in_request:
  assumes "has_block q p" "length q \<le> Suc ov" "ov < w"
  shows "\<exists>rq \<in> set (guard_requests (fanout_new w ov t) p dir sid). has_block q (gr_window rq)"
proof -
  have "length q \<le> gf_max_window_bytes (fanout_new w ov t) - window_step (fanout_new w ov t) + 1"
    using assms(2,3) by (simp add: window_step_def max_def)
  from windows_cover [OF fanout_new_simps(1) this assms(1)] windows_requested show ?thesis by blast
qed

text \<open>C30: No phrase of up to one byte more than the overlap escapes the guard by straddling a cut:
  if it occurs in the payload, some request carries a window that holds the whole of it.\<close>
theorem phrase_seen_whole:
  assumes "has_block q p" "length q \<le> Suc ov" "ov < w"
  shows "\<exists>rq \<in> set (guard_requests (fanout_new w ov t) p dir sid). has_block q (gr_window rq)"
  using assms by (rule phrase_in_request)

theorem phrase_seen_whole_witness:
  "\<exists>rq \<in> set (guard_requests (fanout_new 4 1 1000) ''abcdefg'' Inbound 0). has_block ''de'' (gr_window rq)"
  using phrase_seen_whole [of "''de''" "''abcdefg''" 1 4 1000 Inbound 0] by (simp add: has_block_def)

text \<open>The bound is tight: with windows of 4 bytes and an overlap of 1, the phrase of 3 bytes at
  offset 2 of a payload of 7 is split between the two windows, and no request carries it.\<close>
theorem longer_phrase_can_be_split:
  "has_block ''cde'' ''abcdefg'' \<and>
   \<not> (\<exists>rq \<in> set (guard_requests (fanout_new 4 1 1000) ''abcdefg'' Inbound 0). has_block ''cde'' (gr_window rq))"
  by code_simp

text \<open>The windows are those of the closed form: window k is the slice of at most
  \<open>max_window_bytes\<close> bytes at offset k times the step, and there are as many as needed to reach the
  end, the last being the first that does; so the loop terminates with at least one window and
  every window is a non-empty slice unless the payload is empty.\<close>
theorem windows_reference:
  "windows (fanout_new w ov t) p =
    map (\<lambda>k. take (max w 1) (drop (k * window_step (fanout_new w ov t)) p))
      [0..<Suc ((length p - max w 1 + window_step (fanout_new w ov t) - 1) div window_step (fanout_new w ov t))]"
  using windows_eq [of "fanout_new w ov t" p] by (simp add: window_total_def)

text \<open>What the guard is asked: the requests number the windows in order, carry their total (no
  32-bit wrap for fewer than 2 ^ 32 windows), and forward neither the tool's name nor the advisory flags
  of Layer 1, both of which are always empty.\<close>
theorem requests_carry_position_only:
  assumes "i < length (guard_requests f p dir sid)" "length (guard_requests f p dir sid) < 2 ^ 32"
  shows "let rq = guard_requests f p dir sid ! i in
    gr_window rq = windows f p ! i \<and> unat (gr_window_index rq) = i
    \<and> unat (gr_window_count rq) = length (windows f p)
    \<and> gr_direction rq = dir \<and> gr_session_id rq = sid \<and> gr_tool_name rq = None \<and> gr_anomaly_flags rq = []"
  using assms by (simp add: guard_requests_nth window_request_def unat_of_nat)

theorem requests_carry_position_only_witness:
  "unat (gr_window_index (guard_requests (fanout_new 4 1 1000) ''abcdefg'' Inbound 0 ! 1)) = 1"
proof -
  have l: "length (guard_requests (fanout_new 4 1 1000) ''abcdefg'' Inbound 0) = 2" by code_simp
  show ?thesis
    using requests_carry_position_only [of 1 "fanout_new 4 1 1000" "''abcdefg''" Inbound 0]
    unfolding l by (simp add: Let_def)
qed

end
