(* ===== verification/Guard_Parse.thy ===== *)
theory Guard_Parse
  imports Kernel_Fanout Ctp_Utf8
begin

text \<open>
  The strict parser of the guard's answers, \<open>ctp-guard/src/parse.rs\<close>. The syntax of JSON is the
  business of \<open>serde_json\<close>, an argument of the model: a function from texts to values. What the
  source derives with serde is written out: the fields of the raw verdict, unknown and duplicate
  fields, the two spellings of a unit variant, and the positional form of a struct.
\<close>

section \<open>JSON values\<close>

text \<open>A number is the exact value of the integer or double the parser hands to the visitor.\<close>

datatype json =
    JNull
  | JBool bool
  | JNum rat
  | JStr string
  | JArr "json list"
  | JObj "(string \<times> json) list"

text \<open>The text of a JSON document to its value, and the message of a failure.\<close>

record json_api =
  ja_parse :: "string \<Rightarrow> json option"
  ja_error :: "string \<Rightarrow> string"

text \<open>The conversion to \<open>f32\<close>: 24 bits of mantissa, the least exponent -149, overflow to infinity.\<close>

definition round24_mag :: "rat \<Rightarrow> rat" where
  "round24_mag x = (if x \<le> 0 then 0
     else let e = max (ilog2 x - 23) (- 149) in of_int (rne (x / 2 powi e)) * 2 powi e)"

definition to_f32 :: "rat \<Rightarrow> f32" where
  "to_f32 x = (let r = (if 0 \<le> x then round24_mag x else - round24_mag (- x)) in
     if 2 ^ 128 \<le> r then PosInf else if r \<le> - (2 ^ 128) then NegInf else Fin r)"

section \<open>The contract\<close>

definition max_raw_response_bytes :: nat where
  "max_raw_response_bytes = 512"

definition max_flags :: nat where
  "max_flags = 8"

definition max_flag_len :: nat where
  "max_flag_len = 48"

datatype parse_error = TooLarge nat nat | Malformed string | TooManyFlags nat | BadFlag string

fun show_parse_error :: "parse_error \<Rightarrow> string" where
  "show_parse_error (TooLarge len mx) =
     ''response of '' @ show_nat len @ '' bytes exceeds '' @ show_nat mx @ '' byte cap (rejected before parsing)''"
| "show_parse_error (Malformed e) = ''malformed verdict json: '' @ e"
| "show_parse_error (TooManyFlags n) = ''too many flags: '' @ show_nat n @ '' (max '' @ show_nat max_flags @ '')''"
| "show_parse_error (BadFlag f) = ''flag '' @ [CHR 0x27] @ f @ [CHR 0x27]
     @ '' is not a valid snake_case tag within '' @ show_nat max_flag_len @ '' chars''"

record strict_verdict =
  sv_verdict :: verdict
  sv_confidence :: f32
  sv_flags :: "string list"

record raw_verdict =
  rv_verdict :: verdict
  rv_confidence :: f32
  rv_flags :: "string list"

section \<open>Deserialisation\<close>

text \<open>A unit variant is its name, or an object with the name as its only key and null.\<close>

fun verdict_of_name :: "string \<Rightarrow> verdict option" where
  "verdict_of_name s = (if s = ''PASS'' then Some Pass else if s = ''BLOCK'' then Some Block else None)"

fun json_verdict :: "json \<Rightarrow> verdict option" where
  "json_verdict (JStr s) = verdict_of_name s"
| "json_verdict (JObj [(s, JNull)]) = verdict_of_name s"
| "json_verdict _ = None"

fun json_f32 :: "json \<Rightarrow> f32 option" where
  "json_f32 (JNum x) = Some (to_f32 x)"
| "json_f32 _ = None"

fun json_string :: "json \<Rightarrow> string option" where
  "json_string (JStr s) = Some s"
| "json_string _ = None"

fun json_strings :: "json \<Rightarrow> string list option" where
  "json_strings (JArr vs) = those (map json_string vs)"
| "json_strings _ = None"

definition raw_of :: "json \<Rightarrow> json \<Rightarrow> json \<Rightarrow> raw_verdict option" where
  "raw_of v c f =
     (case (json_verdict v, json_f32 c, json_strings f) of
        (Some v', Some c', Some f') \<Rightarrow> Some \<lparr>rv_verdict = v', rv_confidence = c', rv_flags = f'\<rparr>
      | _ \<Rightarrow> None)"

text \<open>
  \<open>RawVerdict\<close> with \<open>deny_unknown_fields\<close>: an object with exactly the three fields, in any order,
  none twice; or an array with their values in the order of the declaration.
\<close>

fun de_raw_verdict :: "json \<Rightarrow> raw_verdict option" where
  "de_raw_verdict (JObj fs) =
     (if set (map fst fs) \<subseteq> {''verdict'', ''confidence'', ''flags''} \<and> distinct (map fst fs) then
        (case (map_of fs ''verdict'', map_of fs ''confidence'', map_of fs ''flags'') of
           (Some v, Some c, Some f) \<Rightarrow> raw_of v c f
         | _ \<Rightarrow> None)
      else None)"
| "de_raw_verdict (JArr [v, c, f]) = raw_of v c f"
| "de_raw_verdict _ = None"

definition json_from_str :: "json_api \<Rightarrow> string \<Rightarrow> string + raw_verdict" where
  "json_from_str api s =
     (case Option.bind (ja_parse api s) de_raw_verdict of
        None \<Rightarrow> Inl (ja_error api s)
      | Some r \<Rightarrow> Inr r)"

section \<open>The parser\<close>

definition flag_byte :: "char \<Rightarrow> bool" where
  "flag_byte b \<longleftrightarrow> (let n = byte_val b in 97 \<le> n \<and> n \<le> 122 \<or> 48 \<le> n \<and> n \<le> 57 \<or> n = 95)"

definition flag_is_valid :: "string \<Rightarrow> bool" where
  "flag_is_valid flag \<longleftrightarrow> flag \<noteq> [] \<and> length flag \<le> max_flag_len \<and> list_all flag_byte flag"

fun first_bad_flag :: "string list \<Rightarrow> string option" where
  "first_bad_flag [] = None"
| "first_bad_flag (f # fs) = (if \<not> flag_is_valid f then Some f else first_bad_flag fs)"

definition clamp_confidence :: "f32 \<Rightarrow> f32" where
  "clamp_confidence c =
     (case c of
        Fin x \<Rightarrow> Fin (if x < 0 then 0 else if 1 < x then 1 else x)
      | _ \<Rightarrow> f64_zero)"

definition parse_strict :: "json_api \<Rightarrow> string \<Rightarrow> parse_error + strict_verdict" where
  "parse_strict api raw =
     (if max_raw_response_bytes < length raw then Inl (TooLarge (length raw) max_raw_response_bytes)
      else case json_from_str api raw of
        Inl e \<Rightarrow> Inl (Malformed e)
      | Inr parsed \<Rightarrow>
          if max_flags < length (rv_flags parsed) then Inl (TooManyFlags (length (rv_flags parsed)))
          else case first_bad_flag (rv_flags parsed) of
            Some f \<Rightarrow> Inl (BadFlag (utf8_encode (take max_flag_len (str_chars f))))
          | None \<Rightarrow> Inr \<lparr>sv_verdict = rv_verdict parsed, sv_confidence = clamp_confidence (rv_confidence parsed),
                          sv_flags = rv_flags parsed\<rparr>)"

section \<open>What gets through\<close>

lemma first_bad_flag_None_iff: "first_bad_flag fs = None \<longleftrightarrow> list_all flag_is_valid fs"
  by (induction fs) auto

definition flags_ok :: "string list \<Rightarrow> bool" where
  "flags_ok fs \<longleftrightarrow> length fs \<le> max_flags \<and> list_all flag_is_valid fs"

lemma parse_strict_Inr_iff:
  "parse_strict api raw = Inr v \<longleftrightarrow>
    length raw \<le> max_raw_response_bytes \<and>
    (\<exists>r. json_from_str api raw = Inr r \<and> flags_ok (rv_flags r)
       \<and> v = \<lparr>sv_verdict = rv_verdict r, sv_confidence = clamp_confidence (rv_confidence r), sv_flags = rv_flags r\<rparr>)"
  by (auto simp: parse_strict_def flags_ok_def first_bad_flag_None_iff [symmetric] split: sum.splits option.splits)

lemma parse_strict_cases:
  obtains e where "parse_strict api raw = Inl e" | v where "parse_strict api raw = Inr v"
  by (cases "parse_strict api raw")

lemma clamp_confidence_bounds:
  "f64_le f64_zero (clamp_confidence c) \<and> f64_le (clamp_confidence c) (Fin 1)"
  by (cases c) (auto simp: clamp_confidence_def f64_zero_def)

lemma json_verdict_names: "json_verdict j = Some v \<Longrightarrow>
    j = JStr (show_verdict v) \<or> j = JObj [(show_verdict v, JNull)]"
  by (cases j rule: json_verdict.cases) (auto split: if_splits)

text \<open>The value the verdict is read from.\<close>

fun verdict_value :: "json \<Rightarrow> json option" where
  "verdict_value (JObj fs) = map_of fs ''verdict''"
| "verdict_value (JArr (v # _)) = Some v"
| "verdict_value _ = None"

lemma raw_of_verdict: "raw_of v c f = Some r \<Longrightarrow> json_verdict v = Some (rv_verdict r)"
  by (auto simp: raw_of_def split: option.splits)

lemma de_raw_verdict_value:
  assumes "de_raw_verdict j = Some r"
  shows "\<exists>v. verdict_value j = Some v \<and> json_verdict v = Some (rv_verdict r)"
  using assms
proof (cases j rule: de_raw_verdict.cases)
  case (1 fs)
  show ?thesis
  proof (cases "map_of fs ''verdict''")
    case (Some v)
    with 1 assms show ?thesis
      by (simp split: if_split_asm option.split_asm add: raw_of_verdict del: insert_subset)
  qed (use 1 assms in \<open>simp split: if_split_asm\<close>)
qed (simp_all add: raw_of_verdict)

definition on_contract :: "json_api \<Rightarrow> string \<Rightarrow> strict_verdict \<Rightarrow> bool" where
  "on_contract api raw v \<longleftrightarrow>
     length raw \<le> max_raw_response_bytes \<and> flags_ok (sv_flags v)
     \<and> f64_le f64_zero (sv_confidence v) \<and> f64_le (sv_confidence v) (Fin 1)
     \<and> (\<exists>j val. ja_parse api raw = Some j \<and> verdict_value j = Some val
          \<and> (val = JStr (show_verdict (sv_verdict v)) \<or> val = JObj [(show_verdict (sv_verdict v), JNull)]))"

lemma json_from_str_Inr: "json_from_str api raw = Inr r \<longleftrightarrow> (\<exists>j. ja_parse api raw = Some j \<and> de_raw_verdict j = Some r)"
  by (auto simp: json_from_str_def bind_eq_Some_conv split: option.splits)

text \<open>C16: What the strict parser lets through is on contract: the text has at most 512 bytes, its
  verdict is spelt literally PASS or BLOCK, it carries at most 8 flags, each a non-empty tag of at
  most 48 bytes out of a-z, 0-9 and the underscore, and the confidence lies between 0 and 1.\<close>
theorem accepted_answer_on_contract:
  assumes "parse_strict api raw = Inr v"
  shows "on_contract api raw v"
proof -
  obtain r j where r: "length raw \<le> max_raw_response_bytes" "ja_parse api raw = Some j" "de_raw_verdict j = Some r"
    "flags_ok (rv_flags r)"
    "v = \<lparr>sv_verdict = rv_verdict r, sv_confidence = clamp_confidence (rv_confidence r), sv_flags = rv_flags r\<rparr>"
    using assms by (auto simp: parse_strict_Inr_iff json_from_str_Inr)
  obtain val where "verdict_value j = Some val" "json_verdict val = Some (rv_verdict r)"
    using de_raw_verdict_value [OF r(3)] by blast
  with json_verdict_names [OF this(2)] r clamp_confidence_bounds show ?thesis
    by (auto simp: on_contract_def)
qed

definition toy_answer :: json where
  "toy_answer = JObj [(''flags'', JArr [JStr ''intent_shift'']), (''verdict'', JStr ''BLOCK''), (''confidence'', JNum 3)]"

definition toy_json :: json_api where
  "toy_json = \<lparr>ja_parse = (\<lambda>s. if s = ''answer'' then Some toy_answer else None), ja_error = (\<lambda>s. ''expected value'')\<rparr>"

lemma toy_answer_parses:
  "parse_strict toy_json ''answer'' = Inr \<lparr>sv_verdict = Block, sv_confidence = Fin 1, sv_flags = [''intent_shift'']\<rparr>"
  by code_simp

lemma accepted_answer_on_contract_witness:
  "on_contract toy_json ''answer'' \<lparr>sv_verdict = Block, sv_confidence = Fin 1, sv_flags = [''intent_shift'']\<rparr>"
  by (rule accepted_answer_on_contract [OF toy_answer_parses])

text \<open>The confidence is telemetry: two answers within the size limit that differ in nothing but the
  confidence are both refused, with the same error, or both accepted, with the same verdict and flags.\<close>
theorem confidence_never_decides:
  assumes "json_from_str api raw = Inr r" "json_from_str api raw' = Inr (r\<lparr>rv_confidence := c\<rparr>)"
    and "length raw \<le> max_raw_response_bytes" "length raw' \<le> max_raw_response_bytes"
  shows "map_sum id (\<lambda>v. (sv_verdict v, sv_flags v)) (parse_strict api raw)
    = map_sum id (\<lambda>v. (sv_verdict v, sv_flags v)) (parse_strict api raw')"
  using assms by (auto simp: parse_strict_def split: option.splits)

definition other_json :: json_api where
  "other_json = toy_json\<lparr>ja_parse := (\<lambda>s. Some (if s = ''answer'' then toy_answer else
     JObj [(''flags'', JArr [JStr ''intent_shift'']), (''verdict'', JStr ''BLOCK''), (''confidence'', JNum (1 / 2))]))\<rparr>"

lemma confidence_never_decides_witness:
  "map_sum id (\<lambda>v. (sv_verdict v, sv_flags v)) (parse_strict other_json ''answer'')
    = map_sum id (\<lambda>v. (sv_verdict v, sv_flags v)) (parse_strict other_json ''reworded'')"
proof (rule confidence_never_decides)
  show "json_from_str other_json ''answer'' = Inr \<lparr>rv_verdict = Block, rv_confidence = to_f32 3, rv_flags = [''intent_shift'']\<rparr>"
    by code_simp
  show "json_from_str other_json ''reworded''
      = Inr (\<lparr>rv_verdict = Block, rv_confidence = to_f32 3, rv_flags = [''intent_shift'']\<rparr>\<lparr>rv_confidence := to_f32 (1 / 2)\<rparr>)"
    by code_simp
qed (simp_all add: max_raw_response_bytes_def)

text \<open>Serde also reads a struct from an array of its fields, so a positional answer is accepted.\<close>

lemma positional_answer_accepted:
  assumes "length raw \<le> max_raw_response_bytes"
    and "ja_parse api raw = Some (JArr [JStr ''PASS'', JNum 0, JArr []])"
  shows "parse_strict api raw = Inr \<lparr>sv_verdict = Pass, sv_confidence = Fin 0, sv_flags = []\<rparr>"
proof -
  have "to_f32 0 = Fin 0" by code_simp
  with assms show ?thesis
    by (simp add: parse_strict_def json_from_str_def raw_of_def clamp_confidence_def)
qed

end
