(* ===== verification/Guard_Grammar.thy ===== *)
theory Guard_Grammar
  imports Ctp_Utf8
begin

text \<open>
  The grammar acceptor of \<open>ctp-guard/src/grammar.rs\<close>: the nodes of a GBNF grammar, the matcher that
  computes the set of end positions reachable from a position (the parser of the grammar
  source is in \<open>Guard_Gbnf\<close>). The matcher recurses through rule references without bound in the source (a
  left-recursive grammar overflows the stack); here the depth of the recursion is fuel and
  running out of it is \<open>None\<close>. The specification is the language a node derives. Enough fuel is given twice: by a rank
  of the rules for grammars whose nodes all consume (the embedded one), and for every grammar that is not left-recursive.
\<close>

section \<open>Grammars\<close>

datatype node =
    Lit "uchar list"
  | Class "(uchar \<times> uchar) list" bool
  | Ref "uchar list"
  | Seq "node list"
  | Alt "node list"
  | Rep node nat "nat option"

type_synonym rules = "uchar list \<rightharpoonup> node"

section \<open>The matcher\<close>

text \<open>The union of what a partial matcher returns from every position of a set.\<close>

definition bind_set :: "(nat \<Rightarrow> nat set option) \<Rightarrow> nat set \<Rightarrow> nat set option" where
  "bind_set f F = (if \<exists>p \<in> F. f p = None then None else Some (\<Union>p \<in> F. the (f p)))"

definition class_hit :: "(uchar \<times> uchar) list \<Rightarrow> bool \<Rightarrow> uchar \<Rightarrow> bool" where
  "class_hit ranges negated c \<longleftrightarrow> list_ex (\<lambda>(a, b). a \<le> c \<and> c \<le> b) ranges \<noteq> negated"

fun seq_loop :: "(node \<Rightarrow> nat \<Rightarrow> nat set option) \<Rightarrow> node list \<Rightarrow> nat set \<Rightarrow> nat set option" where
  "seq_loop f [] frontier = Some frontier"
| "seq_loop f (i # is) frontier =
     (case bind_set (f i) frontier of
        None \<Rightarrow> None
      | Some next \<Rightarrow> if next = {} then Some {} else seq_loop f is next)"

fun alt_loop :: "(node \<Rightarrow> nat \<Rightarrow> nat set option) \<Rightarrow> node list \<Rightarrow> nat \<Rightarrow> nat set \<Rightarrow> nat set option" where
  "alt_loop f [] pos out = Some out"
| "alt_loop f (b # bs) pos out =
     (case f b pos of None \<Rightarrow> None | Some ends \<Rightarrow> alt_loop f bs pos (out \<union> ends))"

text \<open>The iterations left, the minimum, the iterations done, the current positions, the result so far.\<close>

fun rep_loop :: "(nat \<Rightarrow> nat set option) \<Rightarrow> nat \<Rightarrow> nat \<Rightarrow> nat \<Rightarrow> nat set \<Rightarrow> nat set \<Rightarrow> nat set option" where
  "rep_loop f 0 mn done_count current out = Some out"
| "rep_loop f (Suc r) mn done_count current out =
     (if current = {} then Some out
      else case bind_set f current of
        None \<Rightarrow> None
      | Some next \<Rightarrow> rep_loop f r mn (done_count + 1) next
          (if mn \<le> done_count + 1 then out \<union> next else out))"

primrec node_ends :: "nat \<Rightarrow> rules \<Rightarrow> uchar list \<Rightarrow> node \<Rightarrow> nat \<Rightarrow> nat set option" where
  "node_ends 0 rules chars = (\<lambda>nd pos. None)"
| "node_ends (Suc k) rules chars = (\<lambda>nd pos.
     case nd of
       Lit l \<Rightarrow> Some (if pos + length l \<le> length chars \<and> take (length l) (drop pos chars) = l
                     then {pos + length l} else {})
     | Class ranges negated \<Rightarrow>
         Some (if pos < length chars \<and> class_hit ranges negated (chars ! pos) then {pos + 1} else {})
     | Ref name \<Rightarrow>
         (case rules name of None \<Rightarrow> Some {} | Some r \<Rightarrow> node_ends k rules chars r pos)
     | Seq items \<Rightarrow> seq_loop (node_ends k rules chars) items {pos}
     | Alt branches \<Rightarrow> alt_loop (node_ends k rules chars) branches pos {}
     | Rep n mn mx \<Rightarrow>
         rep_loop (node_ends k rules chars n) (case mx of Some m \<Rightarrow> m | None \<Rightarrow> length chars + 1)
           mn 0 {pos} (if mn = 0 then {pos} else {}))"

definition root_name :: "uchar list" where
  "root_name = str_chars ''root''"

text \<open>\<open>accepts\<close>; a grammar without root is refused by the parser.\<close>

definition grammar_accepts :: "nat \<Rightarrow> rules \<Rightarrow> string \<Rightarrow> bool option" where
  "grammar_accepts fuel rules input =
     (let chars = str_chars input in
      case rules root_name of
        None \<Rightarrow> None
      | Some r \<Rightarrow> map_option (\<lambda>ends. length chars \<in> ends) (node_ends fuel rules chars r 0))"

section \<open>The language of a node\<close>

inductive derives :: "rules \<Rightarrow> node \<Rightarrow> uchar list \<Rightarrow> bool" for R where
  lit: "derives R (Lit l) l"
| cls: "class_hit ranges negated c \<Longrightarrow> derives R (Class ranges negated) [c]"
| ref: "R name = Some r \<Longrightarrow> derives R r w \<Longrightarrow> derives R (Ref name) w"
| seq_nil: "derives R (Seq []) []"
| seq_cons: "derives R i u \<Longrightarrow> derives R (Seq is) v \<Longrightarrow> derives R (Seq (i # is)) (u @ v)"
| alt: "b \<in> set bs \<Longrightarrow> derives R b w \<Longrightarrow> derives R (Alt bs) w"
| rep: "(\<And>u. u \<in> set us \<Longrightarrow> derives R n u) \<Longrightarrow> mn \<le> length us \<Longrightarrow> (\<And>m. mx = Some m \<Longrightarrow> length us \<le> m)
    \<Longrightarrow> derives R (Rep n mn mx) (concat us)"

inductive_simps derives_lit [simp]: "derives R (Lit l) w"
inductive_simps derives_class [simp]: "derives R (Class ranges negated) w"
inductive_simps derives_ref [simp]: "derives R (Ref name) w"
inductive_simps derives_seq_nil [simp]: "derives R (Seq []) w"
inductive_simps derives_seq_cons [simp]: "derives R (Seq (i # is)) w"
inductive_simps derives_alt [simp]: "derives R (Alt bs) w"
inductive_simps derives_rep: "derives R (Rep n mn mx) w"

section \<open>Spans\<close>

text \<open>A node spans from p to q in a text when it derives the characters between them.\<close>

definition spans :: "rules \<Rightarrow> uchar list \<Rightarrow> node \<Rightarrow> (nat \<times> nat) set" where
  "spans R cs nd = {(p, q). p \<le> q \<and> q \<le> length cs \<and> derives R nd (take (q - p) (drop p cs))}"

lemma slice_append:
  assumes "p \<le> m" "m \<le> q"
  shows "take (q - p) (drop p cs) = take (m - p) (drop p cs) @ take (q - m) (drop m cs)"
proof -
  have "q - p = (m - p) + (q - m)" "drop (m - p) (drop p cs) = drop m cs" using assms by simp_all
  then show ?thesis by (simp add: take_add)
qed

lemma slice_length: "p \<le> q \<Longrightarrow> q \<le> length cs \<Longrightarrow> length (take (q - p) (drop p cs)) = q - p"
  by simp

lemma spans_seq_nil: "(p, q) \<in> spans R cs (Seq []) \<longleftrightarrow> p = q \<and> q \<le> length cs"
  by (auto simp: spans_def)

lemma spans_seq_cons: "spans R cs (Seq (i # is)) = spans R cs i O spans R cs (Seq is)"
proof (intro equalityI subrelI)
  fix p q assume "(p, q) \<in> spans R cs (Seq (i # is))"
  then obtain u v where pq: "p \<le> q" "q \<le> length cs" and uv: "take (q - p) (drop p cs) = u @ v"
    "derives R i u" "derives R (Seq is) v" by (auto simp: spans_def)
  let ?m = "p + length u"
  have l: "length u + length v = q - p" using slice_length [OF pq] uv(1) by simp
  then have m: "p \<le> ?m" "?m \<le> q" using pq by simp_all
  have "u = take (?m - p) (drop p cs)" "v = take (q - ?m) (drop ?m cs)"
    using slice_append [OF m, of cs] uv(1) l pq by (auto simp: append_eq_append_conv)
  with m pq uv show "(p, q) \<in> spans R cs i O spans R cs (Seq is)"
    by (auto simp: spans_def relcomp_unfold intro!: exI [of _ ?m])
next
  fix p q assume "(p, q) \<in> spans R cs i O spans R cs (Seq is)"
  then obtain m where "(p, m) \<in> spans R cs i" "(m, q) \<in> spans R cs (Seq is)" by auto
  then show "(p, q) \<in> spans R cs (Seq (i # is))"
    using slice_append [of p m q cs] by (auto simp: spans_def)
qed

lemma spans_alt: "spans R cs (Alt bs) = (\<Union>b \<in> set bs. spans R cs b)"
  by (auto simp: spans_def)

lemma spans_lit: "(p, q) \<in> spans R cs (Lit l) \<longleftrightarrow>
    q = p + length l \<and> p + length l \<le> length cs \<and> take (length l) (drop p cs) = l"
  by (auto simp: spans_def)

lemma spans_class: "(p, q) \<in> spans R cs (Class rs neg) \<longleftrightarrow> q = p + 1 \<and> p < length cs \<and> class_hit rs neg (cs ! p)"
proof
  assume "(p, q) \<in> spans R cs (Class rs neg)"
  then obtain c where c: "p \<le> q" "q \<le> length cs" "take (q - p) (drop p cs) = [c]" "class_hit rs neg c"
    by (auto simp: spans_def)
  then have "q - p = 1" using slice_length [of p q cs] by simp
  with c show "q = p + 1 \<and> p < length cs \<and> class_hit rs neg (cs ! p)"
    by (auto simp: take_Suc_conv_app_nth)
next
  assume "q = p + 1 \<and> p < length cs \<and> class_hit rs neg (cs ! p)"
  then show "(p, q) \<in> spans R cs (Class rs neg)"
    by (auto simp: spans_def take_Suc_conv_app_nth)
qed

lemma spans_ref: "spans R cs (Ref name) = (case R name of None \<Rightarrow> {} | Some r \<Rightarrow> spans R cs r)"
  by (auto simp: spans_def split: option.splits)

lemma spans_le: "(p, q) \<in> spans R cs nd \<Longrightarrow> p \<le> q \<and> q \<le> length cs"
  by (simp add: spans_def)

text \<open>A repetition spans the powers of its node's span.\<close>

lemma spans_pow:
  "(p, q) \<in> spans R cs n ^^ j \<longleftrightarrow>
    (if j = 0 then p = q else p \<le> q \<and> q \<le> length cs
      \<and> (\<exists>us. length us = j \<and> (\<forall>u \<in> set us. derives R n u) \<and> concat us = take (q - p) (drop p cs)))"
proof (induction j arbitrary: q)
  case (Suc j)
  show ?case
  proof
    assume "(p, q) \<in> spans R cs n ^^ Suc j"
    then obtain m where m: "(p, m) \<in> spans R cs n ^^ j" "(m, q) \<in> spans R cs n" by auto
    obtain us where us: "p \<le> m" "length us = j" "\<forall>u \<in> set us. derives R n u" "concat us = take (m - p) (drop p cs)"
    proof (cases "j = 0")
      case True
      with m(1) that [of "[]"] show thesis by simp
    next
      case False
      with m(1) Suc.IH that show thesis by auto
    qed
    have mq: "m \<le> q" "q \<le> length cs" "derives R n (take (q - m) (drop m cs))" using m(2) by (simp_all add: spans_def)
    have "concat (us @ [take (q - m) (drop m cs)]) = take (q - p) (drop p cs)"
      using us slice_append [OF us(1) mq(1), of cs] by simp
    with us mq show "if Suc j = 0 then p = q else p \<le> q \<and> q \<le> length cs
      \<and> (\<exists>us. length us = Suc j \<and> (\<forall>u \<in> set us. derives R n u) \<and> concat us = take (q - p) (drop p cs))"
      by (auto intro!: exI [of _ "us @ [take (q - m) (drop m cs)]"])
  next
    assume "if Suc j = 0 then p = q else p \<le> q \<and> q \<le> length cs
      \<and> (\<exists>us. length us = Suc j \<and> (\<forall>u \<in> set us. derives R n u) \<and> concat us = take (q - p) (drop p cs))"
    then obtain us where pq: "p \<le> q" "q \<le> length cs" and us: "length us = Suc j" "\<forall>u \<in> set us. derives R n u"
      "concat us = take (q - p) (drop p cs)" by auto
    obtain vs v where v: "us = vs @ [v]" using us(1) by (cases us rule: rev_cases) auto
    let ?m = "p + length (concat vs)"
    have "length (concat us) = q - p" unfolding us(3) by (rule slice_length [OF pq])
    then have l: "length (concat vs) + length v = q - p" using v by simp
    then have m: "p \<le> ?m" "?m \<le> q" using pq by simp_all
    have s: "concat vs = take (?m - p) (drop p cs)" "v = take (q - ?m) (drop ?m cs)"
      using slice_append [OF m, of cs] us(3) v l pq by (auto simp: append_eq_append_conv)
    have "(p, ?m) \<in> spans R cs n ^^ j"
    proof (cases "j = 0")
      case True
      then show ?thesis using us(1) v by simp
    next
      case False
      have "length vs = j \<and> (\<forall>u \<in> set vs. derives R n u) \<and> concat vs = take (?m - p) (drop p cs)"
        using s us(1,2) v by simp
      moreover have "p \<le> ?m \<and> ?m \<le> length cs" using m pq by simp
      ultimately show ?thesis unfolding Suc.IH [of ?m] using False by auto
    qed
    moreover have "(?m, q) \<in> spans R cs n" using m pq s us(2) v by (simp add: spans_def)
    ultimately show "(p, q) \<in> spans R cs n ^^ Suc j" by auto
  qed
qed simp

lemma spans_pow_le: "(p, q) \<in> spans R cs n ^^ j \<Longrightarrow> p \<le> length cs \<Longrightarrow> p \<le> q \<and> q \<le> length cs"
  by (cases "j = 0") (auto simp: spans_pow)

text \<open>Repetitions that consume nothing can be dropped, so as many as there are characters suffice.\<close>

lemma spans_pow_short:
  "(p, q) \<in> spans R cs n ^^ j \<Longrightarrow> \<exists>j' \<le> j. j' \<le> q - p \<and> (p, q) \<in> spans R cs n ^^ j'
    \<and> (0 < j \<and> j' = 0 \<longrightarrow> (p, q) \<in> spans R cs n)"
proof (induction j arbitrary: q)
  case (Suc j)
  then obtain m where m: "(p, m) \<in> spans R cs n ^^ j" "(m, q) \<in> spans R cs n" by auto
  obtain j' where j': "j' \<le> j" "j' \<le> m - p" "(p, m) \<in> spans R cs n ^^ j'" using Suc.IH [OF m(1)] by blast
  have le: "p \<le> m"
  proof (cases "j = 0")
    case False
    with m(1) show ?thesis by (simp add: spans_pow)
  qed (use m(1) in simp)
  have mq: "m \<le> q" "q \<le> length cs" using spans_le [OF m(2)] by simp_all
  show ?case
  proof (cases "m = q")
    case True
    have "(p, q) \<in> spans R cs n" if "j' = 0" using that j'(3) m(2) True by simp
    with j' True show ?thesis by (intro exI [of _ j']) auto
  next
    case False
    then have "Suc j' \<le> q - p" using j'(2) le mq by simp
    with j' m(2) show ?thesis by (intro exI [of _ "Suc j'"]) auto
  qed
qed auto

text \<open>Nodes as the parser builds them: an unbounded repetition asks for at most one.\<close>

fun wf_node :: "node \<Rightarrow> bool" where
  "wf_node (Seq is) \<longleftrightarrow> (\<forall>i \<in> set is. wf_node i)"
| "wf_node (Alt bs) \<longleftrightarrow> (\<forall>b \<in> set bs. wf_node b)"
| "wf_node (Rep n mn mx) \<longleftrightarrow> wf_node n \<and> (mx = None \<longrightarrow> mn \<le> 1)"
| "wf_node _ \<longleftrightarrow> True"

definition wf_rules :: "rules \<Rightarrow> bool" where
  "wf_rules R \<longleftrightarrow> (\<forall>name r. R name = Some r \<longrightarrow> wf_node r)"

lemma spans_rep:
  assumes "mx = None \<longrightarrow> mn \<le> 1" "p \<le> length cs"
  shows "(p, q) \<in> spans R cs (Rep n mn mx) \<longleftrightarrow>
    (\<exists>j. mn \<le> j \<and> j \<le> (case mx of Some m \<Rightarrow> m | None \<Rightarrow> length cs + 1) \<and> (p, q) \<in> spans R cs n ^^ j)"
proof -
  have "(p, q) \<in> spans R cs (Rep n mn mx) \<longleftrightarrow>
      (\<exists>j. mn \<le> j \<and> (\<forall>m. mx = Some m \<longrightarrow> j \<le> m) \<and> (p, q) \<in> spans R cs n ^^ j)"
  proof
    assume "(p, q) \<in> spans R cs (Rep n mn mx)"
    then obtain us where pq: "p \<le> q" "q \<le> length cs" and us: "concat us = take (q - p) (drop p cs)"
      "\<forall>u \<in> set us. derives R n u" "mn \<le> length us" "\<forall>m. mx = Some m \<longrightarrow> length us \<le> m"
      by (auto simp: spans_def derives_rep)
    have "(p, q) \<in> spans R cs n ^^ length us"
    proof (cases "us = []")
      case True
      have "length (concat us) = q - p" unfolding us(1) by (rule slice_length [OF pq])
      with True pq show ?thesis by simp
    next
      case False
      with us pq show ?thesis unfolding spans_pow by auto
    qed
    with us(3,4) show "\<exists>j. mn \<le> j \<and> (\<forall>m. mx = Some m \<longrightarrow> j \<le> m) \<and> (p, q) \<in> spans R cs n ^^ j" by blast
  next
    assume "\<exists>j. mn \<le> j \<and> (\<forall>m. mx = Some m \<longrightarrow> j \<le> m) \<and> (p, q) \<in> spans R cs n ^^ j"
    then obtain j where j: "mn \<le> j" "\<forall>m. mx = Some m \<longrightarrow> j \<le> m" "(p, q) \<in> spans R cs n ^^ j" by blast
    have le: "p \<le> q" "q \<le> length cs" using spans_pow_le [OF j(3) assms(2)] by simp_all
    obtain us where "length us = j" "\<forall>u \<in> set us. derives R n u" "concat us = take (q - p) (drop p cs)"
    proof (cases "j = 0")
      case True
      with j(3) that [of "[]"] show thesis by simp
    next
      case False
      with j(3) that show thesis unfolding spans_pow by auto
    qed
    with j le show "(p, q) \<in> spans R cs (Rep n mn mx)"
      by (auto simp: spans_def derives_rep intro!: exI [of _ us])
  qed
  also have "\<dots> \<longleftrightarrow> (\<exists>j. mn \<le> j \<and> j \<le> (case mx of Some m \<Rightarrow> m | None \<Rightarrow> length cs + 1)
      \<and> (p, q) \<in> spans R cs n ^^ j)"
  proof (cases mx)
    case None
    have "\<exists>j' \<ge> mn. j' \<le> length cs + 1 \<and> (p, q) \<in> spans R cs n ^^ j'" if j: "mn \<le> j" "(p, q) \<in> spans R cs n ^^ j" for j
    proof -
      obtain j' where j': "j' \<le> j" "j' \<le> q - p" "(p, q) \<in> spans R cs n ^^ j'"
        "0 < j \<and> j' = 0 \<longrightarrow> (p, q) \<in> spans R cs n" using spans_pow_short [OF j(2)] by blast
      have "q \<le> length cs" using spans_pow_le [OF j(2) assms(2)] by simp
      show ?thesis
      proof (cases "mn \<le> j'")
        case True
        with j' \<open>q \<le> length cs\<close> show ?thesis by (intro exI [of _ j']) auto
      next
        case False
        then have "j' = 0" "mn = 1" "0 < j" using assms(1) None j(1) by auto
        with j'(4) show ?thesis by (intro exI [of _ 1]) auto
      qed
    qed
    with None show ?thesis by auto
  qed auto
  finally show ?thesis .
qed

section \<open>The matcher computes the spans\<close>

definition ends_from :: "rules \<Rightarrow> uchar list \<Rightarrow> node \<Rightarrow> nat \<Rightarrow> nat set" where
  "ends_from R cs nd p = {q. (p, q) \<in> spans R cs nd}"

text \<open>A matcher of a node is sound: what it returns from a position are the ends of the node's spans.\<close>

definition sound_at :: "rules \<Rightarrow> uchar list \<Rightarrow> node \<Rightarrow> (nat \<Rightarrow> nat set option) \<Rightarrow> bool" where
  "sound_at R cs nd f \<longleftrightarrow> (\<forall>p S. p \<le> length cs \<longrightarrow> f p = Some S \<longrightarrow> S = ends_from R cs nd p)"

lemma bind_set_sound:
  assumes "sound_at R cs nd f" "F \<subseteq> {..length cs}" "bind_set f F = Some S"
  shows "S = (\<Union>p \<in> F. ends_from R cs nd p)" "S \<subseteq> {..length cs}"
proof -
  have s: "the (f p) = ends_from R cs nd p" if "p \<in> F" for p
    using assms that by (cases "f p") (auto simp: bind_set_def sound_at_def split: if_splits)
  have "S = (\<Union>p \<in> F. the (f p))" using assms(3) by (auto simp: bind_set_def split: if_splits)
  with s show u: "S = (\<Union>p \<in> F. ends_from R cs nd p)" by auto
  then show "S \<subseteq> {..length cs}" by (auto simp: ends_from_def dest: spans_le)
qed

lemma seq_loop_sound:
  assumes "\<forall>i \<in> set is. sound_at R cs i (f i)" "F \<subseteq> {..length cs}" "seq_loop f is F = Some S"
  shows "S = {q. \<exists>p \<in> F. (p, q) \<in> spans R cs (Seq is)}"
  using assms
proof (induction "is" arbitrary: F)
  case Nil
  then show ?case by (auto simp: spans_seq_nil)
next
  case (Cons i "is")
  from Cons.prems(3) obtain N where N: "bind_set (f i) F = Some N" by (auto split: option.splits)
  have fi: "sound_at R cs i (f i)" using Cons.prems(1) by simp
  note n = bind_set_sound [OF fi Cons.prems(2) N]
  have "S = {q. \<exists>p \<in> N. (p, q) \<in> spans R cs (Seq is)}"
  proof (cases "N = {}")
    case False
    then show ?thesis using Cons.IH [OF _ n(2)] Cons.prems N by simp
  qed (use Cons.prems N in simp)
  then show ?case by (auto simp: n(1) spans_seq_cons ends_from_def)
qed

lemma alt_loop_sound:
  assumes "\<forall>b \<in> set bs. sound_at R cs b (f b)" "p \<le> length cs" "alt_loop f bs p S0 = Some S"
  shows "S = S0 \<union> ends_from R cs (Alt bs) p"
  using assms
proof (induction bs arbitrary: S0)
  case Nil
  then show ?case by (simp add: ends_from_def spans_alt)
next
  case (Cons b bs)
  from Cons.prems(3) obtain N where N: "f b p = Some N" by (auto split: option.splits)
  then have "N = ends_from R cs b p" using Cons.prems(1,2) by (simp add: sound_at_def)
  with Cons N have "S = (S0 \<union> ends_from R cs b p) \<union> ends_from R cs (Alt bs) p" by simp
  then show ?case by (auto simp: ends_from_def spans_alt)
qed

lemma rep_loop_sound:
  assumes "sound_at R cs nd f" "F \<subseteq> {..length cs}" "rep_loop f r mn c F S0 = Some S"
  shows "S = S0 \<union> {q. \<exists>j p. 0 < j \<and> j \<le> r \<and> mn \<le> c + j \<and> p \<in> F \<and> (p, q) \<in> spans R cs nd ^^ j}"
  using assms(2,3)
proof (induction r arbitrary: c F S0)
  case (Suc r)
  show ?case
  proof (cases "F = {}")
    case False
    from Suc.prems(2) False obtain N where N: "bind_set f F = Some N" by (auto split: option.splits)
    have n: "N = (\<Union>p \<in> F. ends_from R cs nd p)" "N \<subseteq> {..length cs}"
      using bind_set_sound [OF assms(1) Suc.prems(1) N] by simp_all
    let ?later = "{q. \<exists>j p. 0 < j \<and> j \<le> r \<and> mn \<le> c + 1 + j \<and> p \<in> N \<and> (p, q) \<in> spans R cs nd ^^ j}"
    have S: "S = (if mn \<le> c + 1 then S0 \<union> N else S0) \<union> ?later"
    proof -
      have "rep_loop f r mn (c + 1) N (if mn \<le> c + 1 then S0 \<union> N else S0) = Some S"
        using Suc.prems(2) False N by simp
      from Suc.IH [OF n(2) this] show ?thesis .
    qed
    have l: "?later = {q. \<exists>j p. 1 < j \<and> j \<le> Suc r \<and> mn \<le> c + j \<and> p \<in> F \<and> (p, q) \<in> spans R cs nd ^^ j}"
    proof (intro equalityI subsetI)
      fix q assume "q \<in> ?later"
      then obtain j p p0 where "0 < j" "j \<le> r" "mn \<le> c + 1 + j" "p0 \<in> F" "(p0, p) \<in> spans R cs nd"
        "(p, q) \<in> spans R cs nd ^^ j" by (auto simp: n(1) ends_from_def)
      then show "q \<in> {q. \<exists>j p. 1 < j \<and> j \<le> Suc r \<and> mn \<le> c + j \<and> p \<in> F \<and> (p, q) \<in> spans R cs nd ^^ j}"
        by (intro CollectI exI [of _ "Suc j"] exI [of _ p0] conjI relpow_Suc_I2 [of p0 p]) simp_all
    next
      fix q assume "q \<in> {q. \<exists>j p. 1 < j \<and> j \<le> Suc r \<and> mn \<le> c + j \<and> p \<in> F \<and> (p, q) \<in> spans R cs nd ^^ j}"
      then obtain j p0 where j: "1 < j" "j \<le> Suc r" "mn \<le> c + j" "p0 \<in> F" "(p0, q) \<in> spans R cs nd ^^ j" by blast
      then obtain j1 where j1: "j = Suc j1" by (cases j) auto
      then obtain p where p: "(p0, p) \<in> spans R cs nd" "(p, q) \<in> spans R cs nd ^^ j1"
        using j(5) by (metis relpow_Suc_D2)
      then have "p \<in> N" using j(4) by (auto simp: n(1) ends_from_def)
      with p j(1-3) j1 show "q \<in> ?later" by (intro CollectI exI [of _ j1] exI [of _ p] conjI) simp_all
    qed
    let ?first = "{q. \<exists>j p. 0 < j \<and> j \<le> Suc r \<and> mn \<le> c + j \<and> p \<in> F \<and> (p, q) \<in> spans R cs nd ^^ j}"
    have "q \<in> ?first \<longleftrightarrow> mn \<le> c + 1 \<and> q \<in> N \<or> q \<in> ?later" for q
    proof
      assume "q \<in> ?first"
      then obtain j p where j: "0 < j" "j \<le> Suc r" "mn \<le> c + j" "p \<in> F" "(p, q) \<in> spans R cs nd ^^ j" by blast
      show "mn \<le> c + 1 \<and> q \<in> N \<or> q \<in> ?later"
      proof (cases "j = 1")
        case True
        with j show ?thesis by (auto simp: n(1) ends_from_def)
      next
        case False
        with j(1) have "1 < j" by simp
        with j show ?thesis unfolding l by blast
      qed
    next
      assume "mn \<le> c + 1 \<and> q \<in> N \<or> q \<in> ?later"
      then show "q \<in> ?first"
      proof
        assume *: "mn \<le> c + 1 \<and> q \<in> N"
        then obtain p where "p \<in> F" "(p, q) \<in> spans R cs nd" by (auto simp: n(1) ends_from_def)
        with * show ?thesis by (intro CollectI exI [of _ 1] exI [of _ p] conjI) simp_all
      next
        assume "q \<in> ?later"
        then obtain j p where "1 < j" "j \<le> Suc r" "mn \<le> c + j" "p \<in> F" "(p, q) \<in> spans R cs nd ^^ j"
          unfolding l by blast
        then show ?thesis by (intro CollectI exI [of _ j] exI [of _ p] conjI) simp_all
      qed
    qed
    then show ?thesis unfolding S by auto
  qed (use Suc.prems in auto)
qed auto

lemma node_ends_sound:
  assumes "wf_rules R"
  shows "wf_node nd \<Longrightarrow> sound_at R cs nd (node_ends k R cs nd)"
proof (induction k arbitrary: nd)
  case (Suc k)
  have "S = ends_from R cs nd p" if p: "p \<le> length cs" and S: "node_ends (Suc k) R cs nd p = Some S" for p S
  proof (cases nd)
    case (Lit l)
    with S show ?thesis by (auto simp: ends_from_def spans_lit split: if_splits)
  next
    case (Class ranges negated)
    with S show ?thesis by (auto simp: ends_from_def spans_class split: if_splits)
  next
    case (Ref name)
    show ?thesis
    proof (cases "R name")
      case None
      with Ref S show ?thesis by (simp add: ends_from_def spans_ref)
    next
      case (Some r)
      with assms have "sound_at R cs r (node_ends k R cs r)" by (intro Suc.IH) (simp add: wf_rules_def)
      with Ref Some S p show ?thesis by (simp add: sound_at_def ends_from_def spans_ref)
    qed
  next
    case (Seq items)
    have "\<forall>i \<in> set items. sound_at R cs i (node_ends k R cs i)" using Suc.prems Seq by (auto intro: Suc.IH)
    from seq_loop_sound [OF this, of "{p}" S] Seq S p show ?thesis by (simp add: ends_from_def)
  next
    case (Alt branches)
    have "\<forall>b \<in> set branches. sound_at R cs b (node_ends k R cs b)" using Suc.prems Alt by (auto intro: Suc.IH)
    from alt_loop_sound [OF this p, of "{}" S] Alt S show ?thesis by simp
  next
    case (Rep n mn mx)
    let ?cap = "case mx of Some m \<Rightarrow> m | None \<Rightarrow> length cs + 1"
    have n: "sound_at R cs n (node_ends k R cs n)" and w: "mx = None \<longrightarrow> mn \<le> 1"
      using Suc.prems Rep by (auto intro: Suc.IH)
    have "S = (if mn = 0 then {p} else {})
        \<union> {q. \<exists>j p'. 0 < j \<and> j \<le> ?cap \<and> mn \<le> 0 + j \<and> p' \<in> {p} \<and> (p', q) \<in> spans R cs n ^^ j}"
    proof (rule rep_loop_sound [OF n])
      show "rep_loop (node_ends k R cs n) ?cap mn 0 {p} (if mn = 0 then {p} else {}) = Some S"
        using S Rep by simp
    qed (use p in simp)
    moreover have "(\<exists>j. mn \<le> j \<and> j \<le> ?cap \<and> (p, q) \<in> spans R cs n ^^ j) \<longleftrightarrow>
        mn = 0 \<and> q = p \<or> (\<exists>j. 0 < j \<and> j \<le> ?cap \<and> mn \<le> j \<and> (p, q) \<in> spans R cs n ^^ j)" for q
    proof
      assume "\<exists>j. mn \<le> j \<and> j \<le> ?cap \<and> (p, q) \<in> spans R cs n ^^ j"
      then obtain j where "mn \<le> j" "j \<le> ?cap" "(p, q) \<in> spans R cs n ^^ j" by blast
      then show "mn = 0 \<and> q = p \<or> (\<exists>j. 0 < j \<and> j \<le> ?cap \<and> mn \<le> j \<and> (p, q) \<in> spans R cs n ^^ j)"
        by (cases "j = 0") auto
    next
      assume "mn = 0 \<and> q = p \<or> (\<exists>j. 0 < j \<and> j \<le> ?cap \<and> mn \<le> j \<and> (p, q) \<in> spans R cs n ^^ j)"
      then show "\<exists>j. mn \<le> j \<and> j \<le> ?cap \<and> (p, q) \<in> spans R cs n ^^ j"
      proof
        assume "mn = 0 \<and> q = p"
        then show ?thesis by (intro exI [of _ 0]) simp
      qed blast
    qed
    ultimately show ?thesis
      unfolding Rep by (auto simp: ends_from_def spans_rep [OF w p])
  qed
  then show ?case by (simp add: sound_at_def)
qed (simp add: sound_at_def)

lemma accepts_iff_derives:
  assumes "wf_rules R" "grammar_accepts fuel R input = Some b"
  shows "b \<longleftrightarrow> derives R (Ref root_name) (str_chars input)"
proof -
  obtain r S where r: "R root_name = Some r" "node_ends fuel R (str_chars input) r 0 = Some S"
    "b \<longleftrightarrow> length (str_chars input) \<in> S"
    using assms(2) by (auto simp: grammar_accepts_def Let_def split: option.splits)
  have "wf_node r" using assms(1) r(1) by (simp add: wf_rules_def)
  then have "S = ends_from R (str_chars input) r 0"
    using node_ends_sound [OF assms(1)] r(2) by (simp add: sound_at_def)
  then show ?thesis using r(1,3) by (simp add: ends_from_def spans_def)
qed

section \<open>Enough fuel\<close>

text \<open>
  For grammars without repetition whose literals and sequences are not empty, every sentence of a
  node consumes at least a character. A rank of the rules that falls along references in leftmost
  position then bounds the depth of the recursion: a bound K per character, and a rank.
\<close>

fun plain_node :: "node \<Rightarrow> bool" where
  "plain_node (Lit l) \<longleftrightarrow> l \<noteq> []"
| "plain_node (Class ranges negated) \<longleftrightarrow> True"
| "plain_node (Ref name) \<longleftrightarrow> True"
| "plain_node (Seq is) \<longleftrightarrow> is \<noteq> [] \<and> (\<forall>i \<in> set is. plain_node i)"
| "plain_node (Alt bs) \<longleftrightarrow> (\<forall>b \<in> set bs. plain_node b)"
| "plain_node (Rep n mn mx) \<longleftrightarrow> False"

text \<open>The depth of the leftmost recursion of a node, given that of the rules; and of any of its parts.\<close>

fun left_depth :: "(uchar list \<Rightarrow> nat) \<Rightarrow> node \<Rightarrow> nat" where
  "left_depth rk (Ref name) = Suc (rk name)"
| "left_depth rk (Seq (i # is)) = Suc (left_depth rk i)"
| "left_depth rk (Alt bs) = Suc (fold max (map (left_depth rk) bs) 0)"
| "left_depth rk _ = 1"

fun bounded_parts :: "(uchar list \<Rightarrow> nat) \<Rightarrow> nat \<Rightarrow> node \<Rightarrow> bool" where
  "bounded_parts rk K (Seq is) \<longleftrightarrow> (\<forall>i \<in> set is. left_depth rk i \<le> K \<and> bounded_parts rk K i)"
| "bounded_parts rk K (Alt bs) \<longleftrightarrow> (\<forall>b \<in> set bs. bounded_parts rk K b)"
| "bounded_parts rk K _ \<longleftrightarrow> True"

definition ranked :: "rules \<Rightarrow> (uchar list \<Rightarrow> nat) \<Rightarrow> nat \<Rightarrow> bool" where
  "ranked R rk K \<longleftrightarrow> (\<forall>name r. R name = Some r \<longrightarrow> plain_node r \<and> bounded_parts rk K r \<and> left_depth rk r \<le> rk name)"

lemma left_depth_pos: "0 < left_depth rk nd"
proof (cases nd)
  case (Seq "is")
  then show ?thesis by (cases "is") simp_all
qed simp_all

lemma fold_max_ge: "x \<in> set xs \<or> x \<le> a \<Longrightarrow> x \<le> fold max xs (a :: nat)"
proof (induction xs arbitrary: a)
  case (Cons y ys)
  have "x \<in> set ys \<or> x \<le> max y a" using Cons.prems by (simp add: le_max_iff_disj) blast
  then show ?case by (simp add: Cons.IH)
qed simp

lemma left_depth_alt: "b \<in> set bs \<Longrightarrow> left_depth rk b < left_depth rk (Alt bs)"
  using fold_max_ge [of "left_depth rk b" "map (left_depth rk) bs" 0] by (simp add: less_Suc_eq_le)

lemma derives_plain_nonempty:
  assumes "ranked R rk K"
  shows "derives R nd w \<Longrightarrow> plain_node nd \<Longrightarrow> w \<noteq> []"
proof (induction rule: derives.induct)
  case (ref name r w)
  with assms show ?case by (auto simp: ranked_def)
qed auto

lemma bind_set_Some: "(\<And>p. p \<in> F \<Longrightarrow> f p \<noteq> None) \<Longrightarrow> bind_set f F \<noteq> None"
  by (simp add: bind_set_def)

lemma plain_wf: "plain_node nd \<Longrightarrow> wf_node nd"
  by (induction nd) auto

lemma ranked_wf: "ranked R rk K \<Longrightarrow> wf_rules R"
  by (auto simp: ranked_def wf_rules_def plain_wf)

lemma seq_rest_terminates:
  assumes "\<forall>i \<in> set is. sound_at R cs i (f i) \<and> (\<forall>q. p < q \<and> q \<le> length cs \<longrightarrow> f i q \<noteq> None)"
    and "F \<subseteq> {p<..length cs}"
  shows "seq_loop f is F \<noteq> None"
  using assms
proof (induction "is" arbitrary: F)
  case (Cons i "is")
  have "bind_set (f i) F \<noteq> None" using Cons.prems by (intro bind_set_Some) auto
  then obtain N where N: "bind_set (f i) F = Some N" by blast
  have sub: "F \<subseteq> {..length cs}" using Cons.prems(2) by auto
  have fi: "sound_at R cs i (f i)" using Cons.prems(1) by simp
  have "N \<subseteq> {p<..length cs}"
    using bind_set_sound [OF fi sub N] Cons.prems(2) by (force simp: ends_from_def dest: spans_le)
  then have "seq_loop f is N \<noteq> None" using Cons.prems(1) by (intro Cons.IH) auto
  with N show ?case by simp
qed simp

lemma alt_terminates: "(\<And>b. b \<in> set bs \<Longrightarrow> f b p \<noteq> None) \<Longrightarrow> alt_loop f bs p S \<noteq> None"
  by (induction bs arbitrary: S) (auto split: option.splits)

lemma plain_spans_less:
  assumes "ranked R rk K" "plain_node nd" "(p, q) \<in> spans R cs nd"
  shows "p < q"
proof -
  have d: "derives R nd (take (q - p) (drop p cs))" using assms(3) by (simp add: spans_def)
  have "take (q - p) (drop p cs) \<noteq> []" by (rule derives_plain_nonempty [OF assms(1) d assms(2)])
  then show ?thesis by (cases "p < q") auto
qed

lemma node_ends_terminates:
  assumes "ranked R rk K"
  shows "plain_node nd \<Longrightarrow> bounded_parts rk K nd \<Longrightarrow> p \<le> length cs
    \<Longrightarrow> (length cs - p) * K + left_depth rk nd \<le> k \<Longrightarrow> node_ends k R cs nd p \<noteq> None"
proof (induction k arbitrary: nd p)
  case 0
  then show ?case using left_depth_pos [of rk nd] by simp
next
  case (Suc k)
  note snd = node_ends_sound [OF ranked_wf [OF assms]]
  show ?case
  proof (cases nd)
    case (Ref name)
    show ?thesis
    proof (cases "R name")
      case (Some r)
      then have "plain_node r" "bounded_parts rk K r" "left_depth rk r \<le> rk name"
        using assms by (auto simp: ranked_def)
      then have "node_ends k R cs r p \<noteq> None" using Suc.prems Ref by (intro Suc.IH) auto
      with Ref Some show ?thesis by simp
    qed (simp add: Ref)
  next
    case (Seq items)
    with Suc.prems obtain i "is" where items: "items = i # is" by (cases items) auto
    have parts: "plain_node j \<and> bounded_parts rk K j \<and> left_depth rk j \<le> K" if "j \<in> set items" for j
      using that Suc.prems Seq by auto
    have first: "node_ends k R cs i p \<noteq> None"
      using parts [of i] Suc.prems Seq items by (intro Suc.IH) auto
    then obtain N where N: "node_ends k R cs i p = Some N" by blast
    then have Ne: "N = ends_from R cs i p"
      using snd [OF plain_wf] parts [of i] items Suc.prems(3) by (auto simp: sound_at_def)
    have later: "node_ends k R cs j q \<noteq> None" if j: "j \<in> set is" and q: "p < q" "q \<le> length cs" for j q
    proof (rule Suc.IH)
      have "length cs - q + 1 \<le> length cs - p" using q by simp
      then have "(length cs - q + 1) * K \<le> (length cs - p) * K" by (rule mult_le_mono1)
      then have "(length cs - q) * K + K \<le> (length cs - p) * K" by simp
      moreover have "left_depth rk j \<le> K" using parts [of j] j items by simp
      moreover have "(length cs - p) * K \<le> k"
        using Suc.prems(4) Seq items left_depth_pos [of rk i] by simp
      ultimately show "(length cs - q) * K + left_depth rk j \<le> k" by linarith
    qed (use parts [of j] j q items in auto)
    have "N \<subseteq> {p<..length cs}"
      using Ne plain_spans_less [OF assms] parts [of i] items by (auto simp: ends_from_def dest: spans_le)
    then have "seq_loop (node_ends k R cs) is N \<noteq> None"
      using later snd [OF plain_wf] parts items by (intro seq_rest_terminates [where R = R]) auto
    then show ?thesis using N by (simp add: Seq items bind_set_def)
  next
    case (Alt branches)
    have "node_ends k R cs b p \<noteq> None" if b: "b \<in> set branches" for b
      using b Suc.prems Alt left_depth_alt [OF b, of rk] by (intro Suc.IH) auto
    then have "alt_loop (node_ends k R cs) branches p {} \<noteq> None" by (rule alt_terminates)
    with Alt show ?thesis by simp
  next
    case (Rep n mn mx)
    with Suc.prems show ?thesis by simp
  qed auto
qed

lemma accepts_total:
  assumes "ranked R rk K" "R root_name = Some r" "rk root_name \<le> K"
    and "(length (str_chars input) + 1) * K \<le> fuel"
  shows "grammar_accepts fuel R input = Some (derives R (Ref root_name) (str_chars input))"
proof -
  have r: "plain_node r" "bounded_parts rk K r" "left_depth rk r \<le> rk root_name"
    using assms(1,2) by (auto simp: ranked_def)
  have "node_ends fuel R (str_chars input) r 0 \<noteq> None"
    by (rule node_ends_terminates [OF assms(1) r(1,2)]) (use r(3) assms(3,4) in simp_all)
  then obtain b where "grammar_accepts fuel R input = Some b"
    using assms(2) by (auto simp: grammar_accepts_def)
  with accepts_iff_derives [OF ranked_wf [OF assms(1)] this] show ?thesis by simp
qed

section \<open>Grammars without left recursion\<close>

text \<open>
  In general a node can ask for a rule at its own start position when all the nodes before that
  reference derive the empty text. A grammar is left-recursive when a rule can ask for itself in
  this way; in every other grammar the recursion is bounded, by a depth per character that depends on the
  grammar only.
\<close>

inductive starts :: "rules \<Rightarrow> node \<Rightarrow> uchar list \<Rightarrow> bool" for R where
  ref: "starts R (Ref name) name"
| seq: "starts R i name \<Longrightarrow> \<forall>x \<in> set pre. derives R x [] \<Longrightarrow> starts R (Seq (pre @ i # post)) name"
| alt: "starts R b name \<Longrightarrow> b \<in> set bs \<Longrightarrow> starts R (Alt bs) name"
| rep: "starts R n name \<Longrightarrow> starts R (Rep n mn mx) name"

inductive_simps starts_lit [simp]: "starts R (Lit l) name"
inductive_simps starts_class [simp]: "starts R (Class ranges negated) name"
inductive_simps starts_ref [simp]: "starts R (Ref n) name"
inductive_simps starts_alt [simp]: "starts R (Alt bs) name"
inductive_simps starts_rep [simp]: "starts R (Rep n mn mx) name"

definition asks_for :: "rules \<Rightarrow> (uchar list \<times> uchar list) set" where
  "asks_for R = {(a, b). b \<in> dom R \<and> (\<exists>r. R a = Some r \<and> starts R r b)}"

definition left_recursive :: "rules \<Rightarrow> bool" where
  "left_recursive R \<longleftrightarrow> (\<exists>name. (name, name) \<in> (asks_for R)\<^sup>+)"

text \<open>The number of rules a rule can reach in this way falls along the relation.\<close>

definition start_rank :: "rules \<Rightarrow> uchar list \<Rightarrow> nat" where
  "start_rank R a = card {b. (a, b) \<in> (asks_for R)\<^sup>+}"

lemma asks_for_dom: "(a, b) \<in> (asks_for R)\<^sup>+ \<Longrightarrow> b \<in> dom R"
  by (erule tranclE) (auto simp: asks_for_def)

lemma finite_reach: "finite (dom R) \<Longrightarrow> finite {b. (a, b) \<in> (asks_for R)\<^sup>+}"
  by (rule finite_subset [of _ "dom R"]) (auto dest: asks_for_dom)

lemma start_rank_le: "finite (dom R) \<Longrightarrow> start_rank R a \<le> card (dom R)"
  unfolding start_rank_def by (rule card_mono) (auto dest: asks_for_dom)

lemma start_rank_less:
  assumes "finite (dom R)" "\<not> left_recursive R" "(a, b) \<in> asks_for R"
  shows "start_rank R b < start_rank R a"
  unfolding start_rank_def
proof (rule psubset_card_mono)
  have "(b, b) \<notin> (asks_for R)\<^sup>+" using assms(2) by (simp add: left_recursive_def)
  moreover have "(a, b) \<in> (asks_for R)\<^sup>+" using assms(3) by blast
  moreover have "{c. (b, c) \<in> (asks_for R)\<^sup>+} \<subseteq> {c. (a, c) \<in> (asks_for R)\<^sup>+}"
    using assms(3) by (auto intro: trancl_into_trancl2)
  ultimately show "{c. (b, c) \<in> (asks_for R)\<^sup>+} \<subset> {c. (a, c) \<in> (asks_for R)\<^sup>+}" by blast
qed (rule finite_reach [OF assms(1)])

lemma seq_terminates:
  assumes "\<forall>i \<in> set is. sound_at R cs i (f i) \<and> (\<forall>q. p < q \<and> q \<le> length cs \<longrightarrow> f i q \<noteq> None)"
    and "p \<in> F \<Longrightarrow> \<forall>pre i post. is = pre @ i # post \<and> (\<forall>x \<in> set pre. derives R x []) \<longrightarrow> f i p \<noteq> None"
    and "F \<subseteq> {p..length cs}"
  shows "seq_loop f is F \<noteq> None"
  using assms
proof (induction "is" arbitrary: F)
  case (Cons i "is")
  have fi: "sound_at R cs i (f i)" using Cons.prems(1) by simp
  have "f i q \<noteq> None" if "q \<in> F" for q
  proof (cases "q = p")
    case True
    have "i # is = [] @ i # is \<and> (\<forall>x \<in> set []. derives R x [])" by simp
    then show ?thesis using Cons.prems(2) that unfolding True by blast
  next
    case False
    then show ?thesis using that Cons.prems(1,3) by force
  qed
  then obtain N where N: "bind_set (f i) F = Some N" using bind_set_Some [of F "f i"] by blast
  have F: "F \<subseteq> {..length cs}" using Cons.prems(3) by auto
  note n = bind_set_sound [OF fi F N]
  have "seq_loop f is N \<noteq> None"
  proof (rule Cons.IH)
    show "\<forall>pre j post. is = pre @ j # post \<and> (\<forall>x \<in> set pre. derives R x []) \<longrightarrow> f j p \<noteq> None" if pN: "p \<in> N"
    proof (intro allI impI)
      fix pre j post assume s: "is = pre @ j # post \<and> (\<forall>x \<in> set pre. derives R x [])"
      obtain q where q: "q \<in> F" "(q, p) \<in> spans R cs i" using pN by (auto simp: n(1) ends_from_def)
      then have "q = p" using spans_le [OF q(2)] Cons.prems(3) by force
      with q have "p \<in> F" "derives R i []" by (auto simp: spans_def)
      moreover have "i # is = (i # pre) @ j # post" using s by simp
      ultimately show "f j p \<noteq> None" using Cons.prems(2) s by (metis set_ConsD)
    qed
    show "N \<subseteq> {p..length cs}"
      using Cons.prems(3) by (force simp: n(1) ends_from_def dest: spans_le)
  qed (use Cons.prems(1) in simp)
  with N show ?case by simp
qed simp

lemma rep_terminates:
  assumes "sound_at R cs nd f" "\<forall>q. p \<le> q \<and> q \<le> length cs \<longrightarrow> f q \<noteq> None" "F \<subseteq> {p..length cs}"
  shows "rep_loop f r mn c F S \<noteq> None"
  using assms(3)
proof (induction r arbitrary: c F S)
  case (Suc r)
  have "bind_set f F \<noteq> None" using assms(2) Suc.prems by (intro bind_set_Some) force
  then obtain N where N: "bind_set f F = Some N" by blast
  have F: "F \<subseteq> {..length cs}" using Suc.prems by auto
  have "N \<subseteq> {p..length cs}"
    using Suc.prems by (force simp: bind_set_sound(1) [OF assms(1) F N] ends_from_def dest: spans_le)
  then have "rep_loop f r mn (c + 1) N S' \<noteq> None" for S' by (rule Suc.IH)
  with N show ?case by simp
qed simp

text \<open>
  The depth: a node at a position needs its own size, a rule size per rank it can still fall, and the
  deepest of these again for every character left.
\<close>

lemma node_ends_total:
  assumes R: "wf_rules R"
    and rk: "\<And>a r b. R a = Some r \<Longrightarrow> starts R r b \<Longrightarrow> b \<in> dom R \<Longrightarrow> rk b < rk a"
    and N: "\<And>a. a \<in> dom R \<Longrightarrow> rk a < N" and M: "\<And>a r. R a = Some r \<Longrightarrow> size r < M"
  shows "wf_node nd \<Longrightarrow> size nd < M \<Longrightarrow> (\<And>b. starts R nd b \<Longrightarrow> b \<in> dom R \<Longrightarrow> rk b < \<rho>) \<Longrightarrow> \<rho> \<le> N
    \<Longrightarrow> p \<le> length cs \<Longrightarrow> (length cs - p) * ((N + 1) * M) + \<rho> * M + size nd < k
    \<Longrightarrow> node_ends k R cs nd p \<noteq> None"
proof (induction k arbitrary: nd p \<rho>)
  case (Suc k)
  let ?K = "(N + 1) * M"
  have here: "node_ends k R cs i p \<noteq> None"
    if "wf_node i" "size i < size nd" "\<And>b. starts R i b \<Longrightarrow> starts R nd b" for i
    by (rule Suc.IH [of i \<rho>]) (use that Suc.prems in auto)
  have later: "node_ends k R cs i q \<noteq> None"
    if "wf_node i" "size i < M" "p < q" "q \<le> length cs" for i q
  proof (rule Suc.IH [of i N])
    have "(length cs - q + 1) * ?K \<le> (length cs - p) * ?K" using that by (intro mult_le_mono1) simp
    moreover have "(length cs - p) * ?K \<le> k" using Suc.prems(6) by simp
    ultimately show "(length cs - q) * ?K + N * M + size i < k" using that(2) by (simp add: algebra_simps)
  qed (use that N in auto)
  note snd = node_ends_sound [OF R]
  show ?case
  proof (cases nd)
    case (Ref name)
    show ?thesis
    proof (cases "R name")
      case (Some r)
      have "rk name < \<rho>" using Suc.prems(3) Some Ref by auto
      then have "(rk name + 1) * M \<le> \<rho> * M" by (rule_tac mult_le_mono1) simp
      then have "(length cs - p) * ?K + rk name * M + size r < k"
        using Suc.prems(6) M [OF Some] by simp
      then have "node_ends k R cs r p \<noteq> None"
        using Some R M [OF Some] rk [OF Some] \<open>rk name < \<rho>\<close> Suc.prems(4,5)
        by (intro Suc.IH [of r "rk name"]) (auto simp: wf_rules_def)
      with Ref Some show ?thesis by simp
    qed (simp add: Ref)
  next
    case (Seq items)
    have it: "wf_node i \<and> size i < size nd" if "i \<in> set items" for i
      using that Suc.prems(1) Seq by (auto simp: less_Suc_eq_le intro: size_list_estimation')
    have "seq_loop (node_ends k R cs) items {p} \<noteq> None"
    proof (rule seq_terminates [where R = R])
      show "\<forall>i \<in> set items. sound_at R cs i (node_ends k R cs i)
          \<and> (\<forall>q. p < q \<and> q \<le> length cs \<longrightarrow> node_ends k R cs i q \<noteq> None)"
      proof (intro ballI conjI allI impI)
        fix i q assume "i \<in> set items" "p < q \<and> q \<le> length cs"
        then show "node_ends k R cs i q \<noteq> None" using it Suc.prems(2) by (intro later) force+
      qed (use it snd in blast)
      show "\<forall>pre i post. items = pre @ i # post \<and> (\<forall>x \<in> set pre. derives R x []) \<longrightarrow> node_ends k R cs i p \<noteq> None"
      proof (intro allI impI)
        fix pre i post assume s: "items = pre @ i # post \<and> (\<forall>x \<in> set pre. derives R x [])"
        then have "i \<in> set items" by simp
        with it s show "node_ends k R cs i p \<noteq> None" unfolding Seq by (intro here) (auto simp: Seq intro: starts.seq)
      qed
    qed (use Suc.prems(5) in auto)
    with Seq show ?thesis by simp
  next
    case (Alt branches)
    have it: "wf_node i \<and> size i < size nd" if "i \<in> set branches" for i
      using that Suc.prems(1) Alt by (auto simp: less_Suc_eq_le intro: size_list_estimation')
    have "alt_loop (node_ends k R cs) branches p {} \<noteq> None"
    proof (rule alt_terminates)
      fix b assume "b \<in> set branches"
      then show "node_ends k R cs b p \<noteq> None" using it [of b] by (intro here) (auto simp: Alt)
    qed
    with Alt show ?thesis by simp
  next
    case (Rep n mn mx)
    have n: "wf_node n" "size n < size nd" using Suc.prems(1) Rep by auto
    have "rep_loop (node_ends k R cs n) r mn 0 {p} S \<noteq> None" for r S
    proof (rule rep_terminates [OF snd [OF n(1)]])
      show "\<forall>q. p \<le> q \<and> q \<le> length cs \<longrightarrow> node_ends k R cs n q \<noteq> None"
      proof (intro allI impI)
        fix q assume q: "p \<le> q \<and> q \<le> length cs"
        show "node_ends k R cs n q \<noteq> None"
        proof (cases "q = p")
          case True
          show ?thesis unfolding True using n by (intro here) (simp_all add: Rep)
        next
          case False
          then show ?thesis using q n Suc.prems(2) by (intro later) auto
        qed
      qed
    qed (use Suc.prems(5) in auto)
    with Rep show ?thesis by simp
  qed auto
qed simp

text \<open>So every input is decided at a depth linear in its length.\<close>

lemma accepts_decides:
  assumes "wf_rules R" "finite (dom R)" "\<not> left_recursive R" "R root_name \<noteq> None"
  shows "\<exists>K. \<forall>input fuel. (length (str_chars input) + 1) * K \<le> fuel
    \<longrightarrow> grammar_accepts fuel R input = Some (derives R (Ref root_name) (str_chars input))"
proof -
  obtain r where r: "R root_name = Some r" using assms(4) by blast
  have fin: "finite (ran R)" by (rule finite_ran [OF assms(2)])
  define M where "M = Suc (Max (size ` ran R))"
  define N where "N = Suc (card (dom R))"
  have M: "size r' < M" if "R a = Some r'" for a r'
    using fin that by (auto simp: M_def less_Suc_eq_le ran_def intro!: Max_ge)
  have N: "start_rank R a < N" for a using start_rank_le [OF assms(2)] by (simp add: N_def less_Suc_eq_le)
  have rk: "start_rank R b < start_rank R a" if "R a = Some r'" "starts R r' b" "b \<in> dom R" for a b r'
    using that by (intro start_rank_less [OF assms(2,3)]) (auto simp: asks_for_def)
  show ?thesis
  proof (intro exI allI impI)
    fix input fuel assume fuel: "(length (str_chars input) + 1) * ((N + 1) * M) \<le> fuel"
    have "node_ends fuel R (str_chars input) r 0 \<noteq> None"
    proof (rule node_ends_total [OF assms(1) rk N M])
      show "(length (str_chars input) - 0) * ((N + 1) * M) + N * M + size r < fuel"
        using fuel M [OF r] by (simp add: algebra_simps)
    qed (use r assms(1) M N in \<open>auto simp: wf_rules_def\<close>)
    then obtain b where "grammar_accepts fuel R input = Some b" using r by (auto simp: grammar_accepts_def)
    with accepts_iff_derives [OF assms(1) this]
    show "grammar_accepts fuel R input = Some (derives R (Ref root_name) (str_chars input))" by simp
  qed
qed

end
