(* ===== verification/Guard_Gbnf.thy ===== *)
theory Guard_Gbnf
  imports Guard_Grammar
begin

text \<open>
  The parser of the grammar source, \<open>Grammar::parse\<close> and \<open>ExprParser\<close> of
  \<open>ctp-guard/src/grammar.rs\<close>. The parser's state, a vector and a position, is the list of the
  characters from the position on. Its procedures call each other without a bound the text
  shows; the model gives them fuel, and the fuel it starts with is proved to be enough for every
  input. The Unicode tables behind \<open>is_alphabetic\<close> and \<open>is_alphanumeric\<close> are arguments outside
  ASCII.
\<close>

section \<open>Characters\<close>

record char_tables =
  ct_alphabetic :: "uchar \<Rightarrow> bool"
  ct_numeric :: "uchar \<Rightarrow> bool"

definition is_ascii_alphabetic :: "uchar \<Rightarrow> bool" where
  "is_ascii_alphabetic c \<longleftrightarrow> 0x41 \<le> c \<and> c \<le> 0x5A \<or> 0x61 \<le> c \<and> c \<le> 0x7A"

definition char_is_alphabetic :: "char_tables \<Rightarrow> uchar \<Rightarrow> bool" where
  "char_is_alphabetic t c = (if c < 0x80 then is_ascii_alphabetic c else ct_alphabetic t c)"

definition char_is_alphanumeric :: "char_tables \<Rightarrow> uchar \<Rightarrow> bool" where
  "char_is_alphanumeric t c =
     (if c < 0x80 then is_ascii_alphabetic c \<or> 0x30 \<le> c \<and> c \<le> 0x39 else ct_alphabetic t c \<or> ct_numeric t c)"

text \<open>\<open>char::is_whitespace\<close>, the Unicode property White_Space.\<close>

definition is_whitespace :: "uchar \<Rightarrow> bool" where
  "is_whitespace c \<longleftrightarrow> 0x09 \<le> c \<and> c \<le> 0x0D \<or> c \<in> set [0x20, 0x85, 0xA0, 0x1680, 0x2028, 0x2029, 0x202F, 0x205F, 0x3000]
     \<or> 0x2000 \<le> c \<and> c \<le> 0x200A"

definition trim_chars :: "uchar list \<Rightarrow> uchar list" where
  "trim_chars s = rev (dropWhile is_whitespace (rev (dropWhile is_whitespace s)))"

text \<open>\<open>str::lines\<close>: the pieces that end in a line feed, each without it and without a carriage return
  before it, then what follows the last line feed, as it is, if it is not empty.\<close>

definition chop_cr :: "uchar list \<Rightarrow> uchar list" where
  "chop_cr l = (if l \<noteq> [] \<and> last l = 0x0D then butlast l else l)"

function str_lines :: "uchar list \<Rightarrow> uchar list list" where
  "str_lines s =
     (if s = [] then []
      else case dropWhile (\<lambda>c. c \<noteq> 0x0A) s of
             [] \<Rightarrow> [s]
           | _ # rest \<Rightarrow> chop_cr (takeWhile (\<lambda>c. c \<noteq> 0x0A) s) # str_lines rest)"
  by pat_completeness auto
termination
proof (relation "measure length")
  fix s :: "uchar list" and x rest
  assume d: "dropWhile (\<lambda>c. c \<noteq> 0x0A) s = x # rest"
  have "length rest < length (dropWhile (\<lambda>c. c \<noteq> 0x0A) s)" by (simp add: d)
  also have "\<dots> \<le> length s" by (rule length_dropWhile_le)
  finally show "(rest, s) \<in> measure length" by simp
qed simp

declare str_lines.simps [simp del]

definition strip_comment :: "uchar list \<Rightarrow> uchar list" where
  "strip_comment line = takeWhile (\<lambda>c. c \<noteq> 0x23) line"

text \<open>\<open>split_once("::=")\<close>.\<close>

fun split_rule :: "uchar list \<Rightarrow> (uchar list \<times> uchar list) option" where
  "split_rule (a # b # c # s) =
     (if a = 0x3A \<and> b = 0x3A \<and> c = 0x3D then Some ([], s)
      else map_option (\<lambda>(x, y). (a # x, y)) (split_rule (b # c # s)))"
| "split_rule _ = None"

section \<open>The leaves\<close>

type_synonym 'a presult = "string + 'a \<times> uchar list"

definition show_char :: "uchar \<Rightarrow> string" where
  "show_char c = [CHR 0x27] @ utf8_encode1 c @ [CHR 0x27]"

definition skip_ws :: "uchar list \<Rightarrow> uchar list" where
  "skip_ws cs = dropWhile (\<lambda>c. c = 0x20 \<or> c = 0x09) cs"

fun read_escaped :: "uchar list \<Rightarrow> uchar presult" where
  "read_escaped [] = Inl ''dangling escape''"
| "read_escaped (c # cs) =
     Inr (if c = 0x6E then 0x0A else if c = 0x74 then 0x09 else if c = 0x72 then 0x0D else c, cs)"

lemma read_escaped_shrinks: "read_escaped cs = Inr (c, r) \<Longrightarrow> length r < length cs"
  by (cases cs) auto

function parse_literal :: "uchar list \<Rightarrow> uchar list \<Rightarrow> node presult" where
  "parse_literal out [] = Inl ''unterminated string literal''"
| "parse_literal out (c # cs) =
     (if c = 0x22 then Inr (Lit out, cs)
      else if c = 0x5C then and_then (read_escaped cs) (\<lambda>(e, r). parse_literal (out @ [e]) r)
      else parse_literal (out @ [c]) cs)"
  by pat_completeness auto
termination
  by (relation "measure (\<lambda>(out, cs). length cs)") (auto dest: read_escaped_shrinks)

fun range_end :: "uchar list \<Rightarrow> uchar presult" where
  "range_end [] = Inl ''unterminated range''"
| "range_end (c # cs) = (if c = 0x5C then read_escaped cs else Inr (c, cs))"

lemma range_end_shrinks: "range_end cs = Inr (c, r) \<Longrightarrow> length r < length cs"
  by (cases cs) (auto dest: read_escaped_shrinks split: if_splits)

definition is_range :: "uchar list \<Rightarrow> bool" where
  "is_range cs \<longleftrightarrow> cs \<noteq> [] \<and> hd cs = 0x2D \<and> \<not> (tl cs \<noteq> [] \<and> hd (tl cs) = 0x5D)"

function parse_class :: "bool \<Rightarrow> (uchar \<times> uchar) list \<Rightarrow> uchar list \<Rightarrow> node presult" where
  "parse_class negated ranges [] = Inl ''unterminated character class''"
| "parse_class negated ranges (c # cs) =
     (if c = 0x5D then Inr (Class ranges negated, cs)
      else if c = 0x5C then
        and_then (read_escaped cs) (\<lambda>(e, r). parse_class negated (ranges @ [(e, e)]) r)
      else if is_range cs then
        and_then (range_end (tl cs)) (\<lambda>(e, r). parse_class negated (ranges @ [(c, e)]) r)
      else parse_class negated (ranges @ [(c, c)]) cs)"
  by pat_completeness auto
termination
  by (relation "measure (\<lambda>(negated, ranges, cs). length cs)")
    (auto dest!: read_escaped_shrinks range_end_shrinks simp: is_range_def)

definition parse_class_start :: "uchar list \<Rightarrow> node presult" where
  "parse_class_start cs =
     (if cs \<noteq> [] \<and> hd cs = 0x5E then parse_class True [] (tl cs) else parse_class False [] cs)"

definition ref_char :: "char_tables \<Rightarrow> uchar \<Rightarrow> bool" where
  "ref_char t c \<longleftrightarrow> char_is_alphanumeric t c \<or> c = 0x5F \<or> c = 0x2D"

definition parse_ref :: "char_tables \<Rightarrow> uchar list \<Rightarrow> node presult" where
  "parse_ref t cs = Inr (Ref (takeWhile (ref_char t) cs), dropWhile (ref_char t) cs)"

section \<open>The expressions\<close>

text \<open>Results under fuel: \<open>None\<close> when it runs out, else the code's \<open>Result\<close>.\<close>

fun fuel_bind :: "'a presult option \<Rightarrow> ('a \<Rightarrow> uchar list \<Rightarrow> 'b presult option) \<Rightarrow> 'b presult option" where
  "fuel_bind None f = None"
| "fuel_bind (Some (Inl e)) f = Some (Inl e)"
| "fuel_bind (Some (Inr (x, r))) f = f x r"

fun alt_of :: "node list \<Rightarrow> node" where
  "alt_of [b] = b"
| "alt_of bs = Alt bs"

fun seq_of :: "node list \<Rightarrow> node" where
  "seq_of [i] = i"
| "seq_of is = Seq is"

fun postfix :: "node \<Rightarrow> uchar list \<Rightarrow> node \<times> uchar list" where
  "postfix f [] = (f, [])"
| "postfix f (c # cs) =
     (if c = 0x2A then (Rep f 0 None, cs)
      else if c = 0x2B then (Rep f 1 None, cs)
      else if c = 0x3F then (Rep f 0 (Some 1), cs)
      else (f, c # cs))"

fun close_paren :: "node \<Rightarrow> uchar list \<Rightarrow> node presult" where
  "close_paren n (c # cs) = (if c = 0x29 then Inr (n, cs) else Inl (''missing '' @ [CHR 0x27, CHR 0x29, CHR 0x27]))"
| "close_paren n [] = Inl (''missing '' @ [CHR 0x27, CHR 0x29, CHR 0x27])"

text \<open>
  The six mutually recursive procedures, as one recursion on the fuel; the loops carry the branches
  or items collected so far.
\<close>

datatype proc = PAlt | PAltLoop "node list" | PSeq | PSeqLoop "node list" | PTerm | PFactor

primrec run_parser :: "nat \<Rightarrow> char_tables \<Rightarrow> proc \<Rightarrow> uchar list \<Rightarrow> node presult option" where
  "run_parser 0 t = (\<lambda>p cs. None)"
| "run_parser (Suc k) t = (\<lambda>p cs.
     case p of
       PAlt \<Rightarrow> fuel_bind (run_parser k t PSeq cs) (\<lambda>n r. run_parser k t (PAltLoop [n]) r)
     | PAltLoop bs \<Rightarrow>
         (case skip_ws cs of
            [] \<Rightarrow> Some (Inr (alt_of bs, []))
          | c # r \<Rightarrow>
              if c = 0x7C then fuel_bind (run_parser k t PSeq r) (\<lambda>n r2. run_parser k t (PAltLoop (bs @ [n])) r2)
              else Some (Inr (alt_of bs, c # r)))
     | PSeq \<Rightarrow> run_parser k t (PSeqLoop []) cs
     | PSeqLoop is \<Rightarrow>
         (let r = skip_ws cs in
          if r = [] \<or> hd r = 0x7C \<or> hd r = 0x29 then
            Some (if is = [] then Inl ''empty sequence'' else Inr (seq_of is, r))
          else fuel_bind (run_parser k t PTerm r) (\<lambda>n r2. run_parser k t (PSeqLoop (is @ [n])) r2))
     | PTerm \<Rightarrow> fuel_bind (run_parser k t PFactor cs) (\<lambda>f r. Some (Inr (postfix f r)))
     | PFactor \<Rightarrow>
         (case skip_ws cs of
            [] \<Rightarrow> Some (Inl ''unexpected end of expression'')
          | c # r \<Rightarrow>
              if c = 0x22 then Some (parse_literal [] r)
              else if c = 0x5B then Some (parse_class_start r)
              else if c = 0x28 then
                fuel_bind (run_parser k t PAlt r) (\<lambda>n r2. Some (close_paren n (skip_ws r2)))
              else if char_is_alphabetic t c \<or> c = 0x5F then Some (parse_ref t (c # r))
              else Some (Inl (''unexpected '' @ show_char c))))"

definition parse_alt :: "char_tables \<Rightarrow> nat \<Rightarrow> uchar list \<Rightarrow> node presult option" where
  "parse_alt t k cs = run_parser k t PAlt cs"

definition expect_end :: "uchar list \<Rightarrow> string + unit" where
  "expect_end cs = (case skip_ws cs of [] \<Rightarrow> Inr () | c # _ \<Rightarrow> Inl (''unexpected trailing '' @ show_char c))"

definition expr_fuel :: "uchar list \<Rightarrow> nat" where
  "expr_fuel cs = 5 * length cs + 5"

section \<open>The parser returns\<close>

text \<open>What a procedure returns leaves a rest that is not longer (shorter, if strict), and well-formed nodes.\<close>

definition returns :: "bool \<Rightarrow> nat \<Rightarrow> node presult option \<Rightarrow> bool" where
  "returns strict n res \<longleftrightarrow>
     (\<exists>x. res = Some x \<and> (\<forall>nd r. x = Inr (nd, r) \<longrightarrow> wf_node nd \<and> length r \<le> n \<and> (strict \<longrightarrow> length r < n)))"

lemma returns_Inl [simp]: "returns s n (Some (Inl e))"
  by (simp add: returns_def)

lemma returns_Inr [simp]: "returns s n (Some (Inr (nd, r))) \<longleftrightarrow> wf_node nd \<and> length r \<le> n \<and> (s \<longrightarrow> length r < n)"
  by (simp add: returns_def)

lemma returns_bind:
  assumes "returns s n res"
    and "\<And>nd r. wf_node nd \<Longrightarrow> length r \<le> n \<Longrightarrow> (s \<Longrightarrow> length r < n) \<Longrightarrow> returns s' n' (f nd r)"
  shows "returns s' n' (fuel_bind res f)"
proof -
  obtain x where x: "res = Some x" and ok: "\<And>nd r. x = Inr (nd, r) \<Longrightarrow> wf_node nd \<and> length r \<le> n \<and> (s \<longrightarrow> length r < n)"
    using assms(1) by (auto simp: returns_def)
  show ?thesis
  proof (cases x)
    case (Inr y)
    then obtain nd r where "x = Inr (nd, r)" by (cases y) auto
    with ok [of nd r] assms(2) [of nd r] x show ?thesis by simp
  qed (simp add: x)
qed

lemma returns_mono: "returns s m res \<Longrightarrow> m \<le> n \<Longrightarrow> s' \<longrightarrow> s \<or> m < n \<Longrightarrow> returns s' n res"
  by (auto simp: returns_def)

lemma skip_ws_length: "length (skip_ws cs) \<le> length cs"
  by (simp add: skip_ws_def length_dropWhile_le)

lemma wf_alt_of: "\<forall>b \<in> set bs. wf_node b \<Longrightarrow> wf_node (alt_of bs)"
  by (cases bs rule: alt_of.cases) auto

lemma wf_seq_of: "\<forall>i \<in> set is. wf_node i \<Longrightarrow> wf_node (seq_of is)"
  by (cases "is" rule: seq_of.cases) auto

lemma postfix_ok:
  assumes "wf_node f" "length r < n"
  shows "returns True n (Some (Inr (postfix f r)))"
  using assms by (cases r) auto

lemma parse_literal_ok: "returns True (Suc (length cs)) (Some (parse_literal out cs))"
proof (induction out cs rule: parse_literal.induct)
  case (2 out c cs)
  show ?case
  proof (cases "c \<noteq> 0x22 \<and> c = 0x5C")
    case True
    show ?thesis
    proof (cases "read_escaped cs")
      case (Inr y)
      then obtain e r where y: "read_escaped cs = Inr (e, r)" by (cases y) auto
      have "returns True (Suc (length r)) (Some (parse_literal (out @ [e]) r))" using 2 True y by simp
      moreover have "length r < length cs" using y by (rule read_escaped_shrinks)
      ultimately show ?thesis using True y by (auto intro: returns_mono)
    qed (use True in simp)
  next
    case False
    with 2 show ?thesis by (auto intro: returns_mono)
  qed
qed simp

lemma parse_class_ok: "returns True (Suc (length cs)) (Some (parse_class negated ranges cs))"
proof (induction negated ranges cs rule: parse_class.induct)
  case (2 negated ranges c cs)
  let ?goal = "returns True (Suc (length (c # cs))) (Some (parse_class negated ranges (c # cs)))"
  consider "c = 0x5D" | "c = 0x5C" | "c \<noteq> 0x5D" "c \<noteq> 0x5C" "is_range cs" | "c \<noteq> 0x5D" "c \<noteq> 0x5C" "\<not> is_range cs"
    by blast
  then show ?case
  proof cases
    case 2
    show ?thesis
    proof (cases "read_escaped cs")
      case (Inr y)
      then obtain e r where y: "read_escaped cs = Inr (e, r)" by (cases y) auto
      have "returns True (Suc (length r)) (Some (parse_class negated (ranges @ [(e, e)]) r))"
        using "2.IH"(1) 2 y by simp
      moreover have "length r < length cs" using y by (rule read_escaped_shrinks)
      ultimately show ?thesis using 2 y by (auto intro: returns_mono)
    qed (use 2 in simp)
  next
    case 3
    show ?thesis
    proof (cases "range_end (tl cs)")
      case (Inr y)
      then obtain e r where y: "range_end (tl cs) = Inr (e, r)" by (cases y) auto
      have "returns True (Suc (length r)) (Some (parse_class negated (ranges @ [(c, e)]) r))"
        using "2.IH"(2) 3 y by simp
      moreover have "length r < length (tl cs)" using y by (rule range_end_shrinks)
      ultimately show ?thesis using 3 y by (auto intro: returns_mono)
    qed (use 3 in simp)
  next
    case 4
    with "2.IH"(3) show ?thesis by (auto intro: returns_mono)
  qed simp
qed simp

lemma parse_class_start_ok: "returns True (Suc (length cs)) (Some (parse_class_start cs))"
  using parse_class_ok [of "tl cs" True "[]"] parse_class_ok [of cs False "[]"]
  by (auto simp: parse_class_start_def intro: returns_mono)

lemma parse_ref_ok:
  assumes "char_is_alphabetic t c \<or> c = 0x5F"
  shows "returns True (Suc (length cs)) (Some (parse_ref t (c # cs)))"
proof -
  have "ref_char t c"
    using assms by (auto simp: ref_char_def char_is_alphabetic_def char_is_alphanumeric_def split: if_splits)
  then show ?thesis by (simp add: parse_ref_def length_dropWhile_le le_imp_less_Suc le_SucI)
qed

text \<open>The fuel each procedure needs on n characters.\<close>

fun need :: "proc \<Rightarrow> nat \<Rightarrow> nat" where
  "need PAlt n = 5 * n + 5"
| "need (PAltLoop bs) n = 5 * n + 1"
| "need PSeq n = 5 * n + 4"
| "need (PSeqLoop is) n = 5 * n + 3"
| "need PTerm n = 5 * n + 2"
| "need PFactor n = 5 * n + 1"

fun proc_ok :: "proc \<Rightarrow> bool" where
  "proc_ok (PAltLoop bs) \<longleftrightarrow> (\<forall>b \<in> set bs. wf_node b)"
| "proc_ok (PSeqLoop is) \<longleftrightarrow> (\<forall>i \<in> set is. wf_node i)"
| "proc_ok _ \<longleftrightarrow> True"

definition consumes :: "proc \<Rightarrow> bool" where
  "consumes p \<longleftrightarrow> p = PTerm \<or> p = PFactor"

lemma consumes_simps [simp]:
  "\<not> consumes PAlt" "\<not> consumes (PAltLoop bs)" "\<not> consumes PSeq" "\<not> consumes (PSeqLoop is)"
  "consumes PTerm" "consumes PFactor"
  by (simp_all add: consumes_def)

lemma close_paren_ok: "wf_node n \<Longrightarrow> length r \<le> m \<Longrightarrow> returns True (Suc m) (Some (close_paren n (skip_ws r)))"
  using skip_ws_length [of r] by (cases "skip_ws r") auto

lemma run_parser_returns:
  "need p (length cs) \<le> k \<Longrightarrow> proc_ok p \<Longrightarrow> returns (consumes p) (length cs) (run_parser k t p cs)"
proof (induction k arbitrary: p cs)
  case 0
  then show ?case by (cases p) auto
next
  case (Suc k)
  have ws: "length (skip_ws cs) \<le> length cs" by (rule skip_ws_length)
  show ?case
  proof (cases p)
    case PAlt
    have "returns False (length cs) (run_parser k t PSeq cs)" using Suc.IH [of PSeq cs] Suc.prems PAlt by simp
    moreover have "returns False (length cs) (run_parser k t (PAltLoop [nd]) r)"
      if "wf_node nd" "length r \<le> length cs" for nd r
      using Suc.IH [of "PAltLoop [nd]" r] Suc.prems PAlt that by (auto intro: returns_mono)
    ultimately show ?thesis using PAlt by (auto intro: returns_bind)
  next
    case (PAltLoop bs)
    show ?thesis
    proof (cases "skip_ws cs")
      case Nil
      then show ?thesis using PAltLoop Suc.prems by (simp add: wf_alt_of)
    next
      case (Cons c r)
      have l: "length r < length cs" using ws Cons by simp
      have "returns False (length r) (run_parser k t PSeq r)" using Suc.IH [of PSeq r] Suc.prems PAltLoop l by simp
      moreover have "returns False (length cs) (run_parser k t (PAltLoop (bs @ [nd])) r2)"
        if "wf_node nd" "length r2 \<le> length r" for nd r2
        using Suc.IH [of "PAltLoop (bs @ [nd])" r2] Suc.prems PAltLoop l that by (auto intro: returns_mono)
      ultimately show ?thesis using PAltLoop Cons ws Suc.prems by (auto intro: returns_bind simp: wf_alt_of)
    qed
  next
    case PSeq
    with Suc.IH [of "PSeqLoop []" cs] Suc.prems show ?thesis by simp
  next
    case (PSeqLoop "is")
    let ?r = "skip_ws cs"
    have "returns True (length ?r) (run_parser k t PTerm ?r)"
      using Suc.IH [of PTerm ?r] Suc.prems PSeqLoop ws by simp
    moreover have "returns False (length cs) (run_parser k t (PSeqLoop (is @ [nd])) r2)"
      if "wf_node nd" "length r2 < length ?r" for nd r2
      using Suc.IH [of "PSeqLoop (is @ [nd])" r2] Suc.prems PSeqLoop ws that by (auto intro: returns_mono)
    ultimately have "returns False (length cs) (fuel_bind (run_parser k t PTerm ?r) (\<lambda>n r2. run_parser k t (PSeqLoop (is @ [n])) r2))"
      by (auto intro: returns_bind)
    then show ?thesis using PSeqLoop Suc.prems ws by (simp add: Let_def wf_seq_of)
  next
    case PTerm
    have "returns True (length cs) (run_parser k t PFactor cs)" using Suc.IH [of PFactor cs] Suc.prems PTerm by simp
    then show ?thesis using PTerm by (auto intro: returns_bind postfix_ok)
  next
    case PFactor
    show ?thesis
    proof (cases "skip_ws cs")
      case (Cons c r)
      have l: "Suc (length r) \<le> length cs" using ws Cons by simp
      have "returns False (length r) (run_parser k t PAlt r)" using Suc.IH [of PAlt r] Suc.prems PFactor l by simp
      then have "returns True (Suc (length r)) (fuel_bind (run_parser k t PAlt r) (\<lambda>n r2. Some (close_paren n (skip_ws r2))))"
        by (auto intro: returns_bind close_paren_ok)
      then show ?thesis
        using PFactor Cons l parse_literal_ok [of r "[]"] parse_class_start_ok [of r] parse_ref_ok [of t c r]
        by (auto intro: returns_mono)
    qed (simp add: PFactor)
  qed
qed

lemma fuel_bind_mono:
  assumes "\<And>y. r = Some y \<Longrightarrow> r' = Some y" "\<And>a cs y. f a cs = Some y \<Longrightarrow> f' a cs = Some y"
  shows "fuel_bind r f = Some x \<Longrightarrow> fuel_bind r' f' = Some x"
  using assms by (cases r rule: option.exhaust; cases "the r") fastforce+

text \<open>More depth never changes an answer.\<close>

lemma run_parser_mono: "run_parser k t p cs = Some x \<Longrightarrow> run_parser (k + j) t p cs = Some x"
proof (induction k arbitrary: p cs x)
  case (Suc k)
  have bind: "fuel_bind (run_parser (k + j) t p' cs') f' = Some y"
    if "fuel_bind (run_parser k t p' cs') f = Some y" "\<forall>a r z. f a r = Some z \<longrightarrow> f' a r = Some z"
    for p' cs' y and f f' :: "node \<Rightarrow> uchar list \<Rightarrow> node presult option"
    by (rule fuel_bind_mono [OF Suc.IH _ that(1)]) (use that(2) in auto)
  have loop: "\<forall>a r z. run_parser k t (g a) r = Some z \<longrightarrow> run_parser (k + j) t (g a) r = Some z" for g
    using Suc.IH by blast
  show ?case
  proof (cases p)
    case PAlt
    with Suc.prems bind [OF _ loop, of PSeq cs "\<lambda>n. PAltLoop [n]" x] show ?thesis by simp
  next
    case (PAltLoop bs)
    show ?thesis
    proof (cases "skip_ws cs")
      case (Cons c r)
      with PAltLoop Suc.prems bind [OF _ loop, of PSeq r "\<lambda>n. PAltLoop (bs @ [n])" x] show ?thesis
        by (cases "c = 0x7C") simp_all
    qed (use PAltLoop Suc.prems in simp)
  next
    case (PSeqLoop "is")
    with Suc.prems bind [OF _ loop, of PTerm "skip_ws cs" "\<lambda>n. PSeqLoop (is @ [n])" x] show ?thesis
      by (cases "skip_ws cs = [] \<or> hd (skip_ws cs) = 0x7C \<or> hd (skip_ws cs) = 0x29") (simp_all add: Let_def)
  next
    case PTerm
    with Suc.prems bind [of PFactor cs "\<lambda>f r. Some (Inr (postfix f r))" x "\<lambda>f r. Some (Inr (postfix f r))"]
    show ?thesis by simp
  next
    case PFactor
    show ?thesis
    proof (cases "skip_ws cs")
      case (Cons c r)
      let ?f = "\<lambda>n r2. Some (close_paren n (skip_ws r2))"
      show ?thesis
      proof (cases "c = 0x28")
        case True
        from Cons True PFactor Suc.prems bind [of PAlt r ?f x ?f] show ?thesis by simp
      next
        case False
        then have "run_parser (Suc k + j) t p cs = run_parser (Suc k) t p cs" by (simp add: Cons PFactor)
        with Suc.prems show ?thesis by (simp only:)
      qed
    qed (use PFactor Suc.prems in simp)
  qed (use Suc.prems Suc.IH in simp)
qed simp

lemma parse_alt_returns: "5 * length cs + 5 \<le> k \<Longrightarrow> returns False (length cs) (parse_alt t k cs)"
  using run_parser_returns [of PAlt cs k t] by (simp add: parse_alt_def)

lemma parse_alt_total: "\<exists>x. parse_alt t (expr_fuel cs) cs = Some x"
  using parse_alt_returns [of cs "expr_fuel cs" t] by (auto simp: returns_def expr_fuel_def)

text \<open>The procedure as the callers see it; the fuel it is given is enough.\<close>

definition parse_expr :: "char_tables \<Rightarrow> uchar list \<Rightarrow> node presult" where
  "parse_expr t cs = the (parse_alt t (expr_fuel cs) cs)"

lemma parse_expr_run: "5 * length cs + 5 \<le> k \<Longrightarrow> parse_alt t (expr_fuel cs) cs = Some (parse_expr t cs)"
  using parse_alt_total [of t cs] by (auto simp: parse_expr_def)

lemma parse_expr_wf: "parse_expr t cs = Inr (nd, r) \<Longrightarrow> wf_node nd"
  using parse_alt_returns [of cs "expr_fuel cs" t] by (auto simp: parse_expr_def returns_def expr_fuel_def)

section \<open>The rules\<close>

definition parse_rule :: "char_tables \<Rightarrow> uchar list \<Rightarrow> string + node" where
  "parse_rule t body =
     and_then (parse_expr t (trim_chars body)) (\<lambda>(nd, r). and_then (expect_end r) (\<lambda>_. Inr nd))"

definition line_error :: "nat \<Rightarrow> string \<Rightarrow> string" where
  "line_error lineno e = ''line '' @ show_nat (lineno + 1) @ '': '' @ e"

text \<open>The insertion a line makes, if any.\<close>

definition parse_line :: "char_tables \<Rightarrow> nat \<Rightarrow> uchar list \<Rightarrow> string + (uchar list \<times> node) list" where
  "parse_line t lineno raw =
     (let line = trim_chars (strip_comment raw) in
      if line = [] then Inr []
      else case split_rule line of
        None \<Rightarrow> Inl (line_error lineno (''missing '' @ [CHR 0x27] @ ''::='' @ [CHR 0x27]))
      | Some (name, body) \<Rightarrow>
          (case parse_rule t body of
             Inl e \<Rightarrow> Inl (line_error lineno e)
           | Inr nd \<Rightarrow> Inr [(trim_chars name, nd)]))"

fun parse_lines :: "char_tables \<Rightarrow> nat \<Rightarrow> uchar list list \<Rightarrow> string + (uchar list \<times> node) list" where
  "parse_lines t lineno [] = Inr []"
| "parse_lines t lineno (raw # raws) =
     and_then (parse_line t lineno raw) (\<lambda>new.
     and_then (parse_lines t (lineno + 1) raws) (\<lambda>later. Inr (new @ later)))"

text \<open>A later insertion under the same name replaces an earlier one.\<close>

definition grammar_parse :: "char_tables \<Rightarrow> string \<Rightarrow> string + rules" where
  "grammar_parse t src =
     and_then (parse_lines t 0 (str_lines (str_chars src))) (\<lambda>insertions.
       let rs = map_of (rev insertions) in
       if rs root_name = None then Inl (''grammar has no '' @ [CHR 0x27] @ ''root'' @ [CHR 0x27] @ '' rule'')
       else Inr rs)"

lemma parse_rule_wf: "parse_rule t body = Inr nd \<Longrightarrow> wf_node nd"
  using parse_expr_wf [of t "trim_chars body"] by (auto simp: parse_rule_def and_then_Inr_iff)

lemma parse_line_wf:
  assumes "parse_line t n raw = Inr new" "(name, nd) \<in> set new"
  shows "wf_node nd"
proof -
  obtain body where "parse_rule t body = Inr nd"
    using assms by (auto simp: parse_line_def Let_def split: if_splits option.splits sum.splits)
  then show ?thesis by (rule parse_rule_wf)
qed

lemma parse_lines_wf: "parse_lines t n raws = Inr new \<Longrightarrow> (name, nd) \<in> set new \<Longrightarrow> wf_node nd"
  by (induction t n raws arbitrary: new rule: parse_lines.induct)
    (auto simp: and_then_Inr_iff dest: parse_line_wf)

lemma grammar_parse_wf:
  assumes "grammar_parse t src = Inr R"
  shows "wf_rules R"
proof -
  obtain ins where "parse_lines t 0 (str_lines (str_chars src)) = Inr ins" "R = map_of (rev ins)"
    using assms by (auto simp: grammar_parse_def and_then_Inr_iff Let_def split: if_splits)
  then show ?thesis by (auto simp: wf_rules_def dest!: map_of_SomeD parse_lines_wf)
qed

lemma grammar_parse_finite: "grammar_parse t src = Inr R \<Longrightarrow> finite (dom R)"
  by (auto simp: grammar_parse_def and_then_Inr_iff Let_def finite_dom_map_of split: if_splits)

text \<open>C31: A grammar that parses and is not left-recursive is one the acceptor decides: there is a depth per
  character, fixed by the grammar alone, such that on every input a recursion that deep returns an answer, and
  the answer is exactly membership in the language that the grammar's root rule derives. (In a
  left-recursive grammar a rule can ask for itself before any character is consumed.)\<close>
theorem parsed_grammar_acceptor_correct:
  assumes "grammar_parse t src = Inr R" "\<not> left_recursive R"
  shows "\<exists>K. \<forall>input fuel. (length (str_chars input) + 1) * K \<le> fuel
    \<longrightarrow> grammar_accepts fuel R input = Some (derives R (Ref root_name) (str_chars input))"
proof (rule accepts_decides [OF grammar_parse_wf [OF assms(1)] grammar_parse_finite [OF assms(1)] assms(2)])
  show "R root_name \<noteq> None" using assms(1) by (auto simp: grammar_parse_def and_then_Inr_iff Let_def split: if_splits)
qed

definition ascii_tables :: char_tables where
  "ascii_tables = \<lparr>ct_alphabetic = (\<lambda>_. False), ct_numeric = (\<lambda>_. False)\<rparr>"

definition tiny_grammar :: string where
  "tiny_grammar = ''root ::= [-]? num'' @ CHR 10 # ''num ::= [0-9]+''"

definition tiny_rules :: rules where
  "tiny_rules = map_of [(str_chars ''num'', Rep (Class [(48, 57)] False) 1 None),
     (str_chars ''root'', Seq [Rep (Class [(45, 45)] False) 0 (Some 1), Ref (str_chars ''num'')])]"

lemma tiny_grammar_parses: "grammar_parse ascii_tables tiny_grammar = Inr tiny_rules"
proof -
  have "parse_lines ascii_tables 0 (str_lines (str_chars tiny_grammar)) =
      Inr [(str_chars ''root'', Seq [Rep (Class [(45, 45)] False) 0 (Some 1), Ref (str_chars ''num'')]),
           (str_chars ''num'', Rep (Class [(48, 57)] False) 1 None)]"
    by code_simp
  moreover have "tiny_rules root_name \<noteq> None" by code_simp
  ultimately show ?thesis by (simp add: grammar_parse_def tiny_rules_def)
qed

lemma root_num: "str_chars ''root'' \<noteq> str_chars ''num''" "str_chars ''num'' \<noteq> str_chars ''root''"
  by code_simp+

lemma tiny_asks: "(a, b) \<in> asks_for tiny_rules \<Longrightarrow> a = str_chars ''root'' \<and> b = str_chars ''num''"
proof -
  assume "(a, b) \<in> asks_for tiny_rules"
  then obtain r where r: "tiny_rules a = Some r" "starts tiny_rules r b" by (auto simp: asks_for_def)
  then consider "a = str_chars ''num''" "r = Rep (Class [(48, 57)] False) 1 None"
    | "a = str_chars ''root''" "r = Seq [Rep (Class [(45, 45)] False) 0 (Some 1), Ref (str_chars ''num'')]"
    by (auto simp: tiny_rules_def split: if_splits)
  then show ?thesis
  proof cases
    case 2
    from r(2) [unfolded 2(2)] have "b = str_chars ''num''"
      by (rule starts.cases) (auto simp: Cons_eq_append_conv)
    with 2(1) show ?thesis by simp
  qed (use r(2) in simp)
qed

lemma tiny_not_left_recursive: "\<not> left_recursive tiny_rules"
proof
  assume "left_recursive tiny_rules"
  then obtain a where a: "(a, a) \<in> (asks_for tiny_rules)\<^sup>+" by (auto simp: left_recursive_def)
  from a have "a = str_chars ''root''" by (auto dest!: tranclD tiny_asks)
  moreover from a have "a = str_chars ''num''" by (auto dest!: tranclD2 tiny_asks)
  ultimately show False using root_num by simp
qed

lemma parsed_grammar_acceptor_correct_witness:
  "\<exists>K. \<forall>input fuel. (length (str_chars input) + 1) * K \<le> fuel
    \<longrightarrow> grammar_accepts fuel tiny_rules input = Some (derives tiny_rules (Ref root_name) (str_chars input))"
  by (rule parsed_grammar_acceptor_correct [OF tiny_grammar_parses tiny_not_left_recursive])

section \<open>The embedded grammar\<close>

text \<open>\<open>ctp-guard/grammar/verdict.gbnf\<close>, byte for byte, line by line.\<close>

definition verdict_gbnf_lines :: "string list" where
  "verdict_gbnf_lines = [
   ''# CTP guard verdict grammar (GBNF, llama.cpp constrained decoding).'',
   ''#'',
   ''# This grammar is the physical boundary on the guard model'' @ [CHR 0x27] @ ''s output: the'',
   ''# sampler can only emit tokens that keep a partial string on a path to a'',
   ''# complete sentence in this language. Prose, markdown, explanations and'',
   ''# free-form JSON are not in the language and therefore cannot be produced '' @ [CHR 0xE2, CHR 0x80, CHR 0x94],
   ''# not '' @ [CHR 0x22] @ ''discouraged by the prompt'' @ [CHR 0x22] @ '', but unreachable by the decoder.'',
   ''#'',
   ''# The accepted language is exactly:'',
   ''#   {'' @ [CHR 0x22] @ ''verdict'' @ [CHR 0x22] @ '':'' @ [CHR 0x22] @ ''PASS'' @ [CHR 0x22] @ ''|'' @ [CHR 0x22] @ ''BLOCK'' @ [CHR 0x22] @ '','' @ [CHR 0x22] @ ''confidence'' @ [CHR 0x22] @ '':<0.d|0.dd|1.d|1.dd>,'' @ [CHR 0x22] @ ''flags'' @ [CHR 0x22] @ '':[<'' @ [CHR 0x22] @ ''snake'' @ [CHR 0x22] @ ''...>]}'',
   ''#'',
   ''# Written WITHOUT the '' @ [CHR 0x60] @ ''?'' @ [CHR 0x60] @ ''/'' @ [CHR 0x60] @ ''*'' @ [CHR 0x60] @ ''/'' @ [CHR 0x60] @ ''+'' @ [CHR 0x60] @ ''/'' @ [CHR 0x60] @ ''()'' @ [CHR 0x60] @ '' operators on purpose. llama.cpp'' @ [CHR 0x27] @ ''s GBNF'',
   ''# parser supports them, but it desugars each into synthesized helper rules,'',
   ''# and that desugaring is where init edge-cases live (an empty initial stack'',
   ''# trips GGML_ASSERT(!stacks.empty()) at apply time, a hard C++ abort that'',
   ''# cannot be caught from Rust). Plain right-recursion produces no synthesized'',
   ''# rules and is the most widely-exercised GBNF form. The language is identical.'',
   ''#'',
   ''# Whitespace is intentionally NOT permitted: the model emits compact JSON.'',
   ''# The downstream strict parser (parse.rs) is whitespace-tolerant and re-'',
   ''# validates regardless, so this grammar can be the tighter of the two.'',
   [],
   ''root        ::= '' @ [CHR 0x22] @ ''{'' @ [CHR 0x5C, CHR 0x22] @ ''verdict'' @ [CHR 0x5C, CHR 0x22] @ '':'' @ [CHR 0x22] @ '' verdict '' @ [CHR 0x22] @ '','' @ [CHR 0x5C, CHR 0x22] @ ''confidence'' @ [CHR 0x5C, CHR 0x22] @ '':'' @ [CHR 0x22] @ '' confidence '' @ [CHR 0x22] @ '','' @ [CHR 0x5C, CHR 0x22] @ ''flags'' @ [CHR 0x5C, CHR 0x22] @ '':'' @ [CHR 0x22] @ '' flags '' @ [CHR 0x22] @ ''}'' @ [CHR 0x22],
   ''verdict     ::= '' @ [CHR 0x22, CHR 0x5C, CHR 0x22] @ ''PASS'' @ [CHR 0x5C, CHR 0x22, CHR 0x22] @ '' | '' @ [CHR 0x22, CHR 0x5C, CHR 0x22] @ ''BLOCK'' @ [CHR 0x5C, CHR 0x22, CHR 0x22],
   ''confidence  ::= onenine '' @ [CHR 0x22] @ ''.'' @ [CHR 0x22] @ '' digits'',
   ''onenine     ::= '' @ [CHR 0x22] @ ''0'' @ [CHR 0x22] @ '' | '' @ [CHR 0x22] @ ''1'' @ [CHR 0x22],
   ''digits      ::= digit | digit digit'',
   ''digit       ::= [0-9]'',
   ''flags       ::= '' @ [CHR 0x22] @ ''[]'' @ [CHR 0x22] @ '' | '' @ [CHR 0x22] @ ''['' @ [CHR 0x22] @ '' flaglist '' @ [CHR 0x22] @ '']'' @ [CHR 0x22],
   ''flaglist    ::= flag | flag '' @ [CHR 0x22] @ '','' @ [CHR 0x22] @ '' flaglist'',
   ''flag        ::= '' @ [CHR 0x22, CHR 0x5C, CHR 0x22, CHR 0x22] @ '' flagchars '' @ [CHR 0x22, CHR 0x5C, CHR 0x22, CHR 0x22],
   ''flagchars   ::= flagchar | flagchar flagchars'',
   ''flagchar    ::= [a-z0-9_]'']"

definition verdict_gbnf :: string where
  "verdict_gbnf = concat (map (\<lambda>l. l @ [CHR 0x0A]) verdict_gbnf_lines)"

definition verdict_grammar :: "char_tables \<Rightarrow> rules" where
  "verdict_grammar t = projr (grammar_parse t verdict_gbnf)"

text \<open>Its rules, in the order of the lines.\<close>

definition quoted :: "string \<Rightarrow> string" where
  "quoted s = [CHR 0x22] @ s @ [CHR 0x22]"

abbreviation nt :: "string \<Rightarrow> node" where
  "nt s \<equiv> Ref (str_chars s)"

abbreviation tm :: "string \<Rightarrow> node" where
  "tm s \<equiv> Lit (str_chars s)"

definition verdict_rule_list :: "(string \<times> node) list" where
  "verdict_rule_list =
    [(''root'', Seq [tm (''{'' @ quoted ''verdict'' @ '':''), nt ''verdict'', tm ('','' @ quoted ''confidence'' @ '':''),
                     nt ''confidence'', tm ('','' @ quoted ''flags'' @ '':''), nt ''flags'', tm ''}'']),
     (''verdict'', Alt [tm (quoted ''PASS''), tm (quoted ''BLOCK'')]),
     (''confidence'', Seq [nt ''onenine'', tm ''.'', nt ''digits'']),
     (''onenine'', Alt [tm ''0'', tm ''1'']),
     (''digits'', Alt [nt ''digit'', Seq [nt ''digit'', nt ''digit'']]),
     (''digit'', Class [(48, 57)] False),
     (''flags'', Alt [tm ''[]'', Seq [tm ''['', nt ''flaglist'', tm '']'']]),
     (''flaglist'', Alt [nt ''flag'', Seq [nt ''flag'', tm '','', nt ''flaglist'']]),
     (''flag'', Seq [tm [CHR 0x22], nt ''flagchars'', tm [CHR 0x22]]),
     (''flagchars'', Alt [nt ''flagchar'', Seq [nt ''flagchar'', nt ''flagchars'']]),
     (''flagchar'', Class [(97, 122), (48, 57), (95, 95)] False)]"

definition verdict_rules :: rules where
  "verdict_rules = map_of (map (\<lambda>(name, nd). (str_chars name, nd)) verdict_rule_list)"

lemma str_lines_unlines:
  assumes "\<forall>l \<in> set ls. 0x0A \<notin> set l \<and> (l \<noteq> [] \<longrightarrow> last l \<noteq> 0x0D)"
  shows "str_lines (concat (map (\<lambda>l. l @ [0x0A]) ls)) = ls"
  using assms
proof (induction ls)
  case (Cons l ls)
  have "takeWhile (\<lambda>c. c \<noteq> 0x0A) (l @ [0x0A] @ rest) = l" "dropWhile (\<lambda>c. c \<noteq> 0x0A) (l @ [0x0A] @ rest) = 0x0A # rest" for rest
    using Cons.prems by (auto simp: takeWhile_append2 dropWhile_append2 takeWhile_append dropWhile_append)
  then show ?case using Cons by (subst str_lines.simps) (auto simp: chop_cr_def)
qed (simp add: str_lines.simps)

definition line_ok :: "string \<Rightarrow> bool" where
  "line_ok l \<longleftrightarrow> list_all is_scalar (str_chars l) \<and> utf8_encode (str_chars l) = l
     \<and> 0x0A \<notin> set (str_chars l) \<and> (str_chars l \<noteq> [] \<longrightarrow> last (str_chars l) \<noteq> 0x0D)"

lemma str_chars_unlines:
  assumes "\<forall>l \<in> set ls. line_ok l"
  shows "str_chars (concat (map (\<lambda>l. l @ [CHR 0x0A]) ls)) = concat (map (\<lambda>l. str_chars l @ [0x0A]) ls)"
proof -
  let ?cs = "concat (map (\<lambda>l. str_chars l @ [0x0A]) ls)"
  have nl: "utf8_encode1 0x0A = [CHR 0x0A]" by code_simp
  have "list_all is_scalar ?cs \<and> utf8_encode ?cs = concat (map (\<lambda>l. l @ [CHR 0x0A]) ls)"
    using assms by (induction ls) (simp_all add: utf8_encode_def line_ok_def nl is_scalar_def)
  then show ?thesis using lossy_chars_encode [of ?cs] by (simp add: str_chars_def)
qed

lemma str_lines_text:
  assumes "\<forall>l \<in> set ls. line_ok l"
  shows "str_lines (str_chars (concat (map (\<lambda>l. l @ [CHR 0x0A]) ls))) = map str_chars ls"
  using str_lines_unlines [of "map str_chars ls"] assms
  unfolding str_chars_unlines [OF assms] by (simp add: line_ok_def comp_def)

definition ascii_line :: "string \<Rightarrow> bool" where
  "ascii_line l \<longleftrightarrow> list_all (\<lambda>c. \<not> digit7 c \<and> c \<noteq> CHR 0x0A \<and> c \<noteq> CHR 0x0D) l"

lemma byte_val_digit7: "byte_val c < 0x80 \<longleftrightarrow> \<not> digit7 c"
  by (cases c) (simp add: byte_val_def of_char_def)

lemma byte_val_inject: "byte_val a = byte_val b \<longleftrightarrow> a = b"
  by (simp add: byte_val_def)

lemma ascii_line_ok:
  assumes "ascii_line l"
  shows "line_ok l" "str_chars l = map byte_val l"
proof -
  have a: "ascii l" and n: "\<forall>c \<in> set l. c \<noteq> CHR 0x0A \<and> c \<noteq> CHR 0x0D"
    using assms by (simp_all add: ascii_line_def ascii_def list_all_iff byte_val_digit7)
  show s: "str_chars l = map byte_val l" using a by (simp add: str_chars_def lossy_chars_ascii)
  have b: "byte_val c \<noteq> 0x0A \<and> byte_val c \<noteq> 0x0D" if "c \<in> set l" for c
  proof -
    have "byte_val (CHR 0x0A) = 0x0A" "byte_val (CHR 0x0D) = 0x0D" by code_simp+
    with n that byte_val_inject [of c "CHR 0x0A"] byte_val_inject [of c "CHR 0x0D"] show ?thesis by auto
  qed
  have "list_all is_scalar (str_chars l)"
    unfolding str_chars_def by (rule lossy_chars_scalar)
  moreover have "utf8_encode (str_chars l) = l" using utf8_encode_ascii [OF a] s by simp
  moreover have "0x0A \<notin> set (str_chars l)" using b s by auto
  moreover have "last (str_chars l) \<noteq> 0x0D" if "str_chars l \<noteq> []"
    using that b [of "last l"] s by (simp add: last_map)
  ultimately show "line_ok l" by (simp add: line_ok_def)
qed

lemma dash_line_ok: "line_ok (''# free-form JSON are not in the language and therefore cannot be produced '' @ [CHR 0xE2, CHR 0x80, CHR 0x94])"
  by code_simp

lemma verdict_lines_ascii: "list_all (\<lambda>l. ascii_line l \<or> l = ''# free-form JSON are not in the language and therefore cannot be produced '' @ [CHR 0xE2, CHR 0x80, CHR 0x94]) verdict_gbnf_lines"
  by code_simp

lemma verdict_lines_ok: "\<forall>l \<in> set verdict_gbnf_lines. line_ok l"
  using verdict_lines_ascii dash_line_ok by (auto simp: list_all_iff ascii_line_ok(1))

lemma verdict_lines_parse:
  "parse_lines t 0 (map str_chars verdict_gbnf_lines) = Inr (map (\<lambda>(name, nd). (str_chars name, nd)) verdict_rule_list)"
  by code_simp

lemma verdict_names_distinct: "distinct (map (str_chars \<circ> fst) verdict_rule_list)"
  by code_simp

lemma verdict_gbnf_parses: "grammar_parse t verdict_gbnf = Inr verdict_rules"
proof -
  let ?l = "map (\<lambda>(name, nd). (str_chars name, nd)) verdict_rule_list"
  have "map fst ?l = map (str_chars \<circ> fst) verdict_rule_list" by (simp add: case_prod_unfold comp_def)
  then have d: "distinct (map fst ?l)" using verdict_names_distinct by (simp only:)
  then have m: "map_of (rev ?l) = map_of ?l" by (simp add: map_of_inject_set rev_map [symmetric] del: map_map)
  have "map_of ?l root_name = Some (snd (hd verdict_rule_list))"
    by (simp add: verdict_rule_list_def root_name_def)
  then show ?thesis
    unfolding grammar_parse_def verdict_gbnf_def str_lines_text [OF verdict_lines_ok] verdict_lines_parse
    by (simp add: m verdict_rules_def Let_def)
qed

lemma verdict_grammar_rules [simp]: "verdict_grammar t = verdict_rules"
  by (simp add: verdict_grammar_def verdict_gbnf_parses)

text \<open>C32: Parsing a grammar text always returns: on an expression of n characters the recursive descent has
  an answer within a recursion depth of 5n + 5, whatever the Unicode tables say, and a larger depth changes nothing: there is
  one answer, and every depth from 5n + 5 on gives it.\<close>
theorem expression_parser_terminates:
  "\<exists>x. \<forall>j. parse_alt t (5 * length cs + 5 + j) cs = Some x"
proof (intro exI allI)
  fix j
  have "run_parser (expr_fuel cs) t PAlt cs = Some (parse_expr t cs)"
    using parse_expr_run [of cs "expr_fuel cs" t] by (simp add: parse_alt_def expr_fuel_def)
  then show "parse_alt t (5 * length cs + 5 + j) cs = Some (parse_expr t cs)"
    unfolding parse_alt_def expr_fuel_def by (rule run_parser_mono)
qed

end
