(* ===== verification/Guard_Server.thy ===== *)
theory Guard_Server
  imports Guard_Parse Guard_Inference
begin

text \<open>
  The guard's service, \<open>ctp-guard/src/server.rs\<close>, over the messages of \<open>proto/guard.proto\<close>. The JSON
  parser, the parser of UUIDs and the backend are arguments; the fresh nonce and the measured time of
  a call come from the environment.
\<close>

section \<open>The messages\<close>

text \<open>An enum field travels as its \<open>i32\<close>; the sender may put any number there.\<close>

record classify_request =
  cq_payload_window :: bytes
  cq_window_index :: u32
  cq_window_count :: u32
  cq_direction :: int
  cq_tool_name :: string
  cq_anomaly_flags :: "string list"
  cq_session_id :: string

record classify_response =
  cs_verdict :: int
  cs_confidence :: f32
  cs_flags :: "string list"
  cs_model_id :: string
  cs_inference_micros :: u64

record health_response =
  hr_ready :: bool
  hr_model_id :: string

datatype proto_direction = DirectionUnspecified | DirectionInbound | DirectionOutbound

datatype proto_verdict = VerdictUnspecified | VerdictPass | VerdictBlock

fun direction_number :: "proto_direction \<Rightarrow> int" where
  "direction_number DirectionUnspecified = 0"
| "direction_number DirectionInbound = 1"
| "direction_number DirectionOutbound = 2"

fun verdict_number :: "proto_verdict \<Rightarrow> int" where
  "verdict_number VerdictUnspecified = 0"
| "verdict_number VerdictPass = 1"
| "verdict_number VerdictBlock = 2"

definition direction_of_number :: "int \<Rightarrow> proto_direction option" where
  "direction_of_number n = List.find (\<lambda>d. direction_number d = n) [DirectionUnspecified, DirectionInbound, DirectionOutbound]"

definition verdict_of_number :: "int \<Rightarrow> proto_verdict option" where
  "verdict_of_number n = List.find (\<lambda>d. verdict_number d = n) [VerdictUnspecified, VerdictPass, VerdictBlock]"

lemma direction_of_number_simps:
  "direction_of_number n = (if n = 0 then Some DirectionUnspecified else if n = 1 then Some DirectionInbound
     else if n = 2 then Some DirectionOutbound else None)"
  by (auto simp: direction_of_number_def)

lemma verdict_of_number_simps:
  "verdict_of_number n = (if n = 0 then Some VerdictUnspecified else if n = 1 then Some VerdictPass
     else if n = 2 then Some VerdictBlock else None)"
  by (auto simp: verdict_of_number_def)

text \<open>What the two ends of the wire use of crates: printing and parsing an identifier (\<open>uuid\<close>), and the name
  of a status code in debug output (\<open>tonic\<close>).\<close>

record wire_api =
  ua_show :: "uuid \<Rightarrow> string"
  ua_parse :: "string \<Rightarrow> uuid option"
  ua_code :: "nat \<Rightarrow> string"

section \<open>The server\<close>

record guard_server =
  gs_backend :: backend
  gs_system_prompt :: string
  gs_max_window_bytes :: nat

definition guard_server_new :: "backend \<Rightarrow> string \<Rightarrow> nat \<Rightarrow> guard_server" where
  "guard_server_new b p n = \<lparr>gs_backend = b, gs_system_prompt = p, gs_max_window_bytes = n\<rparr>"

definition server_block :: "guard_server \<Rightarrow> string \<Rightarrow> nanos \<Rightarrow> guard_verdict" where
  "server_block srv flag elapsed =
     \<lparr>gv_verdict = Block, gv_confidence = Fin 1, gv_flags = [flag],
      gv_model_id = be_model_id (gs_backend srv), gv_inference = elapsed\<rparr>"

definition classify_inner :: "json_api \<Rightarrow> guard_server \<Rightarrow> string \<Rightarrow> nanos \<Rightarrow> guard_request \<Rightarrow> guard_verdict" where
  "classify_inner js srv nonce elapsed rq =
     (if gs_max_window_bytes srv < length (gr_window rq) then server_block srv ''oversize_window'' elapsed
      else case be_infer (gs_backend srv) (build_prompt (gs_system_prompt srv) rq nonce) of
        Inl e \<Rightarrow> server_block srv ''backend_error'' elapsed
      | Inr raw \<Rightarrow>
          (case parse_strict js raw of
             Inr v \<Rightarrow> \<lparr>gv_verdict = sv_verdict v, gv_confidence = sv_confidence v, gv_flags = sv_flags v,
                       gv_model_id = be_model_id (gs_backend srv), gv_inference = elapsed\<rparr>
           | Inl e \<Rightarrow> server_block srv ''guard_contract_violation'' elapsed))"

definition response_of :: "guard_verdict \<Rightarrow> classify_response" where
  "response_of v =
     \<lparr>cs_verdict = verdict_number (case gv_verdict v of Pass \<Rightarrow> VerdictPass | Block \<Rightarrow> VerdictBlock),
      cs_confidence = gv_confidence v, cs_flags = gv_flags v, cs_model_id = gv_model_id v,
      cs_inference_micros = of_nat (gv_inference v div 1000)\<rparr>"

definition request_of :: "wire_api \<Rightarrow> classify_request \<Rightarrow> guard_request option" where
  "request_of ua r =
     map_option (\<lambda>dir.
       \<lparr>gr_window = cq_payload_window r, gr_window_index = cq_window_index r, gr_window_count = cq_window_count r,
        gr_direction = dir,
        gr_tool_name = (if cq_tool_name r = [] then None else Some (cq_tool_name r)),
        gr_anomaly_flags = cq_anomaly_flags r,
        gr_session_id = (case ua_parse ua (cq_session_id r) of Some u \<Rightarrow> u | None \<Rightarrow> 0)\<rparr>)
     (case direction_of_number (cq_direction r) of
        Some DirectionInbound \<Rightarrow> Some Inbound
      | Some DirectionOutbound \<Rightarrow> Some Outbound
      | _ \<Rightarrow> None)"

definition server_classify ::
  "json_api \<Rightarrow> wire_api \<Rightarrow> guard_server \<Rightarrow> string \<Rightarrow> nanos \<Rightarrow> classify_request \<Rightarrow> classify_response" where
  "server_classify js ua srv nonce elapsed r =
     (case request_of ua r of
        None \<Rightarrow> response_of (server_block srv ''invalid_direction'' 0)
      | Some rq \<Rightarrow> response_of (classify_inner js srv nonce elapsed rq))"

definition server_health :: "guard_server \<Rightarrow> health_response" where
  "server_health srv = \<lparr>hr_ready = True, hr_model_id = be_model_id (gs_backend srv)\<rparr>"

section \<open>When it passes\<close>

lemma server_block_simps [simp]:
  "gv_verdict (server_block srv f t) = Block" "gv_flags (server_block srv f t) = [f]"
  "gv_model_id (server_block srv f t) = be_model_id (gs_backend srv)"
  by (simp_all add: server_block_def)

text \<open>The backend's answer to a window, as far as the strict parser lets it through.\<close>

definition strict_answer :: "json_api \<Rightarrow> guard_server \<Rightarrow> string \<Rightarrow> guard_request \<Rightarrow> strict_verdict option" where
  "strict_answer js srv nonce rq =
     (if gs_max_window_bytes srv < length (gr_window rq) then None
      else case be_infer (gs_backend srv) (build_prompt (gs_system_prompt srv) rq nonce) of
        Inl e \<Rightarrow> None
      | Inr raw \<Rightarrow> (case parse_strict js raw of Inl e \<Rightarrow> None | Inr v \<Rightarrow> Some v))"

lemma strict_answer_iff:
  "strict_answer js srv nonce rq = Some v \<longleftrightarrow>
    length (gr_window rq) \<le> gs_max_window_bytes srv
    \<and> (\<exists>raw. be_infer (gs_backend srv) (build_prompt (gs_system_prompt srv) rq nonce) = Inr raw \<and> parse_strict js raw = Inr v)"
  by (auto simp: strict_answer_def split: sum.splits)

lemma classify_inner_cases:
  obtains v where "strict_answer js srv nonce rq = Some v"
    "gv_verdict (classify_inner js srv nonce t rq) = sv_verdict v" "gv_flags (classify_inner js srv nonce t rq) = sv_flags v"
  | f where "strict_answer js srv nonce rq = None" "gv_verdict (classify_inner js srv nonce t rq) = Block"
    "gv_flags (classify_inner js srv nonce t rq) = [f]"
    "f \<in> {''oversize_window'', ''backend_error'', ''guard_contract_violation''}"
proof (cases "gs_max_window_bytes srv < length (gr_window rq)")
  case True
  then show ?thesis by (intro that(2) [of "''oversize_window''"]) (simp_all add: classify_inner_def strict_answer_def)
next
  case size: False
  show ?thesis
  proof (cases "be_infer (gs_backend srv) (build_prompt (gs_system_prompt srv) rq nonce)")
    case (Inl e)
    with size show ?thesis
      by (intro that(2) [of "''backend_error''"]) (simp_all add: classify_inner_def strict_answer_def)
  next
    case raw: (Inr raw)
    show ?thesis
    proof (cases "parse_strict js raw")
      case (Inl e)
      with size raw show ?thesis
        by (intro that(2) [of "''guard_contract_violation''"]) (simp_all add: classify_inner_def strict_answer_def)
    next
      case (Inr v)
      with size raw show ?thesis by (intro that(1) [of v]) (simp_all add: classify_inner_def strict_answer_def)
    qed
  qed
qed

lemma server_verdict:
  "cs_verdict (server_classify js ua srv nonce t r) =
    (if \<exists>rq v raw. request_of ua r = Some rq \<and> length (gr_window rq) \<le> gs_max_window_bytes srv
        \<and> be_infer (gs_backend srv) (build_prompt (gs_system_prompt srv) rq nonce) = Inr raw
        \<and> parse_strict js raw = Inr v \<and> sv_verdict v = Pass
     then 1 else 2)"
proof (cases "request_of ua r")
  case None
  then show ?thesis by (simp add: server_classify_def response_of_def)
next
  case (Some rq)
  show ?thesis
  proof (cases rule: classify_inner_cases [of js srv nonce rq t])
    case (1 v)
    with Some show ?thesis
      by (cases "sv_verdict v") (auto simp: server_classify_def response_of_def strict_answer_iff)
  next
    case (2 f)
    then have "\<not> (\<exists>v raw. length (gr_window rq) \<le> gs_max_window_bytes srv
        \<and> be_infer (gs_backend srv) (build_prompt (gs_system_prompt srv) rq nonce) = Inr raw \<and> parse_strict js raw = Inr v)"
      using strict_answer_iff [of js srv nonce rq] by auto
    with 2 Some show ?thesis by (auto simp: server_classify_def response_of_def)
  qed
qed

lemma request_of_numbers:
  "request_of ua r = Some rq \<longleftrightarrow>
    (\<exists>dir. (cq_direction r = 1 \<and> dir = Inbound \<or> cq_direction r = 2 \<and> dir = Outbound)
      \<and> rq = \<lparr>gr_window = cq_payload_window r, gr_window_index = cq_window_index r,
              gr_window_count = cq_window_count r, gr_direction = dir,
              gr_tool_name = (if cq_tool_name r = [] then None else Some (cq_tool_name r)),
              gr_anomaly_flags = cq_anomaly_flags r,
              gr_session_id = (case ua_parse ua (cq_session_id r) of Some u \<Rightarrow> u | None \<Rightarrow> 0)\<rparr>)"
  by (auto simp: request_of_def direction_of_number_simps split: if_splits)

text \<open>C10: The guard's verdict on the wire is PASS exactly when the direction on the wire is the number 1 (inbound) or
  2 (outbound), the window has at most the configured number of bytes, the backend answered the prompt built
  from the fields of this very request (the tool named when its name is not empty, the session the nil one
  when its text is no identifier), and the strict parser accepted that answer with the verdict PASS. In every
  other case, an unspecified or unknown direction included, it is BLOCK.\<close>
theorem server_pass_iff:
  "cs_verdict (server_classify js ua srv nonce t r) =
    (if \<exists>dir v raw. (cq_direction r = 1 \<and> dir = Inbound \<or> cq_direction r = 2 \<and> dir = Outbound)
        \<and> length (cq_payload_window r) \<le> gs_max_window_bytes srv
        \<and> be_infer (gs_backend srv) (build_prompt (gs_system_prompt srv)
             \<lparr>gr_window = cq_payload_window r, gr_window_index = cq_window_index r,
              gr_window_count = cq_window_count r, gr_direction = dir,
              gr_tool_name = (if cq_tool_name r = [] then None else Some (cq_tool_name r)),
              gr_anomaly_flags = cq_anomaly_flags r,
              gr_session_id = (case ua_parse ua (cq_session_id r) of Some u \<Rightarrow> u | None \<Rightarrow> 0)\<rparr> nonce) = Inr raw
        \<and> parse_strict js raw = Inr v \<and> sv_verdict v = Pass
     then 1 else 2)"
proof -
  have "(\<exists>rq v raw. (\<exists>dir. D dir \<and> rq = F dir) \<and> P rq v raw) \<longleftrightarrow> (\<exists>dir v raw. D dir \<and> P (F dir) v raw)"
    for D :: "direction \<Rightarrow> bool" and F and P :: "guard_request \<Rightarrow> strict_verdict \<Rightarrow> string \<Rightarrow> bool"
    by blast
  then show ?thesis by (simp only: server_verdict request_of_numbers guard_request.select_convs)
qed

text \<open>C29: No text of the model rides along: the flags of a reply are either the tags of an accepted answer, at most
  8 of them and each at most 48 bytes of a-z, 0-9 and underscore, or one of four fixed phrases, and then the
  verdict is BLOCK.\<close>
theorem server_reply_carries_no_raw_text:
  "flags_ok (cs_flags (server_classify js ua srv nonce t r))
    \<and> (cs_verdict (server_classify js ua srv nonce t r) = 1
       \<or> cs_verdict (server_classify js ua srv nonce t r) = 2)
    \<and> ((\<exists>rq v. request_of ua r = Some rq \<and> strict_answer js srv nonce rq = Some v
          \<and> cs_flags (server_classify js ua srv nonce t r) = sv_flags v)
       \<or> cs_verdict (server_classify js ua srv nonce t r) = 2
         \<and> cs_flags (server_classify js ua srv nonce t r)
           \<in> {[''invalid_direction''], [''oversize_window''], [''backend_error''], [''guard_contract_violation'']})"
proof (cases "request_of ua r")
  case None
  have "flags_ok [''invalid_direction'']" by code_simp
  with None show ?thesis by (simp add: server_classify_def response_of_def)
next
  case (Some rq)
  show ?thesis
  proof (cases rule: classify_inner_cases [of js srv nonce rq t])
    case (1 v)
    then have "flags_ok (sv_flags v)" by (auto simp: strict_answer_iff parse_strict_Inr_iff)
    with 1 Some show ?thesis by (cases "sv_verdict v") (auto simp: server_classify_def response_of_def)
  next
    case (2 f)
    have "flags_ok [''oversize_window'']" "flags_ok [''backend_error'']" "flags_ok [''guard_contract_violation'']"
      by code_simp+
    with 2 Some show ?thesis by (auto simp: server_classify_def response_of_def)
  qed
qed

end
