(* ===== verification/Guard_Language.thy ===== *)
theory Guard_Language
  imports Guard_Gbnf Guard_Parse
begin

text \<open>
  What the deployed grammar says: the language of \<open>verdict.gbnf\<close> in closed form, the fuel with which
  the acceptor decides it, and how its sentences fare with the strict parser.
\<close>

section \<open>The sentences\<close>

definition verdict_json :: "string \<Rightarrow> string \<Rightarrow> string list \<Rightarrow> string" where
  "verdict_json v conf flags =
     ''{'' @ quoted ''verdict'' @ '':'' @ quoted v @ '','' @ quoted ''confidence'' @ '':'' @ conf
       @ '','' @ quoted ''flags'' @ '':['' @ join_with '','' (map quoted flags) @ '']}''"

definition digit_byte :: "char \<Rightarrow> bool" where
  "digit_byte b \<longleftrightarrow> 48 \<le> byte_val b \<and> byte_val b \<le> 57"

definition confidence_text :: "string \<Rightarrow> bool" where
  "confidence_text c \<longleftrightarrow>
     (\<exists>i ds. i \<in> {CHR ''0'', CHR ''1''} \<and> (length ds = 1 \<or> length ds = 2) \<and> list_all digit_byte ds \<and> c = [i, CHR ''.''] @ ds)"

definition tag_text :: "string \<Rightarrow> bool" where
  "tag_text f \<longleftrightarrow> f \<noteq> [] \<and> list_all flag_byte f"

definition verdict_sentence :: "string \<Rightarrow> bool" where
  "verdict_sentence s \<longleftrightarrow>
     (\<exists>v c fs. v \<in> {''PASS'', ''BLOCK''} \<and> confidence_text c \<and> list_all tag_text fs \<and> s = verdict_json v c fs)"

section \<open>Texts and their characters\<close>

abbreviation codes :: "string \<Rightarrow> uchar list" where
  "codes s \<equiv> map byte_val s"

lemma str_chars_line: "ascii_line s \<Longrightarrow> str_chars s = codes s"
  by (rule ascii_line_ok(2))

lemma byte_val_char_of_code: "n < 256 \<Longrightarrow> \<exists>b. byte_val b = n"
  using byte_val_char_of by blast

lemma decode_step_low:
  assumes "decode_step b bs = (Some u, rest)" "u < 0x80"
  shows "byte_val b = u \<and> rest = bs"
  using assms
  by (auto simp: decode_step_def Let_def second_ok_def split: if_splits)

lemma chars_of_ascii:
  "decode_chunks s = map (Some \<circ> byte_val) a \<Longrightarrow> ascii a \<Longrightarrow> s = a"
proof (induction a arbitrary: s)
  case (Cons x a)
  then obtain b bs where s: "s = b # bs" by (cases s) auto
  obtain r rest where d: "decode_step b bs = (r, rest)" by fastforce
  have "r = Some (byte_val x)" "decode_chunks rest = map (Some \<circ> byte_val) a"
    using Cons.prems(1) by (simp_all add: s decode_chunks.simps(2) d)
  moreover have "byte_val x < 0x80" "ascii a" using Cons.prems(2) by (simp_all add: ascii_def)
  ultimately have "byte_val b = byte_val x" "rest = bs" "bs = a"
    using decode_step_low d Cons.IH by blast+
  then show ?case by (simp add: s byte_val_inject)
qed (auto elim: decode_chunks.elims)

lemma str_chars_codes: "str_chars s = codes a \<Longrightarrow> ascii a \<Longrightarrow> s = a"
proof (rule chars_of_ascii)
  assume e: "str_chars s = codes a" and a: "ascii a"
  show "decode_chunks s = map (Some \<circ> byte_val) a"
  proof (rule nth_equalityI)
    show l: "length (decode_chunks s) = length (map (Some \<circ> byte_val) a)"
      using arg_cong [OF e, of length] by (simp add: str_chars_def lossy_chars_def)
    fix i assume i: "i < length (decode_chunks s)"
    have "byte_val (a ! i) < 0x80" using a i l by (simp add: ascii_def)
    moreover have "(case decode_chunks s ! i of None \<Rightarrow> replacement_char | Some u \<Rightarrow> u) = byte_val (a ! i)"
      using arg_cong [OF e, of "\<lambda>l. l ! i"] i l by (simp add: str_chars_def lossy_chars_def)
    ultimately show "decode_chunks s ! i = map (Some \<circ> byte_val) a ! i"
      using i l by (cases "decode_chunks s ! i") (simp_all add: replacement_char_def)
  qed
qed

section \<open>The rules\<close>

lemma rule_root: "verdict_rules (str_chars ''root'') =
    Some (Seq [tm (''{'' @ quoted ''verdict'' @ '':''), nt ''verdict'', tm ('','' @ quoted ''confidence'' @ '':''),
      nt ''confidence'', tm ('','' @ quoted ''flags'' @ '':''), nt ''flags'', tm ''}''])"
  by code_simp

lemma rule_verdict: "verdict_rules (str_chars ''verdict'') = Some (Alt [tm (quoted ''PASS''), tm (quoted ''BLOCK'')])"
  by code_simp

lemma rule_confidence: "verdict_rules (str_chars ''confidence'') = Some (Seq [nt ''onenine'', tm ''.'', nt ''digits''])"
  by code_simp

lemma rule_onenine: "verdict_rules (str_chars ''onenine'') = Some (Alt [tm ''0'', tm ''1''])"
  by code_simp

lemma rule_digits: "verdict_rules (str_chars ''digits'') = Some (Alt [nt ''digit'', Seq [nt ''digit'', nt ''digit'']])"
  by code_simp

lemma rule_digit: "verdict_rules (str_chars ''digit'') = Some (Class [(48, 57)] False)"
  by code_simp

lemma rule_flags: "verdict_rules (str_chars ''flags'') = Some (Alt [tm ''[]'', Seq [tm ''['', nt ''flaglist'', tm '']'']])"
  by code_simp

lemma rule_flaglist: "verdict_rules (str_chars ''flaglist'') =
    Some (Alt [nt ''flag'', Seq [nt ''flag'', tm '','', nt ''flaglist'']])"
  by code_simp

lemma rule_flag: "verdict_rules (str_chars ''flag'') = Some (Seq [tm [CHR 0x22], nt ''flagchars'', tm [CHR 0x22]])"
  by code_simp

lemma rule_flagchars: "verdict_rules (str_chars ''flagchars'') =
    Some (Alt [nt ''flagchar'', Seq [nt ''flagchar'', nt ''flagchars'']])"
  by code_simp

lemma rule_flagchar: "verdict_rules (str_chars ''flagchar'') = Some (Class [(97, 122), (48, 57), (95, 95)] False)"
  by code_simp

abbreviation yields :: "string \<Rightarrow> uchar list \<Rightarrow> bool" where
  "yields s w \<equiv> derives verdict_rules (nt s) w"

declare derives_ref [simp del]

lemma yields_rule: "verdict_rules (str_chars s) = Some r \<Longrightarrow> yields s w \<longleftrightarrow> derives verdict_rules r w"
  by (simp add: derives_ref)

lemma derives_or: "derives R (Alt [a, b]) w \<longleftrightarrow> derives R a w \<or> derives R b w"
  by auto

lemma derives_then: "derives R (Seq [a, b]) w \<longleftrightarrow> (\<exists>u v. w = u @ v \<and> derives R a u \<and> derives R b v)"
  by simp

lemma derives_around: "derives R (Seq [a, Lit l, b]) w \<longleftrightarrow> (\<exists>u v. w = u @ l @ v \<and> derives R a u \<and> derives R b v)"
  by auto

lemma char_then:
  "(\<exists>u v. w = u @ v \<and> (\<exists>b. u = codes [b] \<and> P b) \<and> Q v) \<longleftrightarrow> (\<exists>b v. w = byte_val b # v \<and> P b \<and> Q v)"
proof
  assume "\<exists>b v. w = byte_val b # v \<and> P b \<and> Q v"
  then obtain b v where "w = codes [b] @ v" "P b" "Q v" by auto
  then show "\<exists>u v. w = u @ v \<and> (\<exists>b. u = codes [b] \<and> P b) \<and> Q v" by blast
qed auto

lemma length_2_iff: "length ds = 2 \<longleftrightarrow> (\<exists>a b. ds = [a, b])"
  by (auto simp: length_Suc_conv numeral_2_eq_2)

lemma code_char: "(\<exists>b. w = codes [b] \<and> P (byte_val b)) \<longleftrightarrow> (\<exists>c. w = [c] \<and> c < 256 \<and> P c)"
  using byte_val_bound byte_val_char_of_code by force

lemma yields_digit: "yields ''digit'' w \<longleftrightarrow> (\<exists>b. w = codes [b] \<and> digit_byte b)"
  unfolding digit_byte_def using code_char [of w "\<lambda>n. 48 \<le> n \<and> n \<le> 57"]
  by (auto simp: yields_rule [OF rule_digit] class_hit_def)

lemma yields_flagchar: "yields ''flagchar'' w \<longleftrightarrow> (\<exists>b. w = codes [b] \<and> flag_byte b)"
  unfolding flag_byte_def Let_def using code_char [of w "\<lambda>n. 97 \<le> n \<and> n \<le> 122 \<or> 48 \<le> n \<and> n \<le> 57 \<or> n = 95"]
  by (auto simp: yields_rule [OF rule_flagchar] class_hit_def)

lemma yields_digits: "yields ''digits'' w \<longleftrightarrow> (\<exists>ds. w = codes ds \<and> (length ds = 1 \<or> length ds = 2) \<and> list_all digit_byte ds)"
proof -
  have "yields ''digits'' w \<longleftrightarrow> yields ''digit'' w \<or> (\<exists>u v. w = u @ v \<and> yields ''digit'' u \<and> yields ''digit'' v)"
    unfolding yields_rule [OF rule_digits] derives_or derives_then ..
  also have "\<dots> \<longleftrightarrow> (\<exists>ds. w = codes ds \<and> (length ds = 1 \<or> length ds = 2) \<and> list_all digit_byte ds)"
    (is "_ \<longleftrightarrow> ?R")
  proof
    assume "yields ''digit'' w \<or> (\<exists>u v. w = u @ v \<and> yields ''digit'' u \<and> yields ''digit'' v)"
    then consider b where "w = codes [b]" "digit_byte b" | a b where "w = codes [a, b]" "digit_byte a" "digit_byte b"
      unfolding yields_digit char_then by auto
    then show ?R
    proof cases
      case 1
      then show ?thesis by (intro exI [of _ "[b]"]) simp
    next
      case 2
      then show ?thesis by (intro exI [of _ "[a, b]"]) simp
    qed
  next
    assume ?R
    then obtain ds where ds: "w = codes ds" "length ds = 1 \<or> length ds = 2" "list_all digit_byte ds" by blast
    from ds(2) show "yields ''digit'' w \<or> (\<exists>u v. w = u @ v \<and> yields ''digit'' u \<and> yields ''digit'' v)"
    proof
      assume "length ds = 1"
      then obtain b where "ds = [b]" by (auto simp: length_Suc_conv)
      with ds show ?thesis unfolding yields_digit by auto
    next
      assume "length ds = 2"
      then obtain a b where "ds = [a, b]" unfolding length_2_iff by blast
      with ds have "w = byte_val a # codes [b]" "digit_byte a" "digit_byte b" by simp_all
      then show ?thesis unfolding yields_digit char_then by blast
    qed
  qed
  finally show ?thesis .
qed

lemma quote_chars: "str_chars [CHR 0x22] = codes [CHR 0x22]" "str_chars '','' = codes '',''"
  by (rule str_chars_line, simp add: ascii_line_def)+

lemma step_flagchars: "yields ''flagchars'' w \<longleftrightarrow> (\<exists>b. w = codes [b] \<and> flag_byte b)
    \<or> (\<exists>b v. w = byte_val b # v \<and> flag_byte b \<and> yields ''flagchars'' v)"
  by (subst yields_rule [OF rule_flagchars]) (simp only: derives_or derives_then yields_flagchar char_then)

lemma step_flaglist: "yields ''flaglist'' w \<longleftrightarrow> yields ''flag'' w
    \<or> (\<exists>u v. w = u @ codes '','' @ v \<and> yields ''flag'' u \<and> yields ''flaglist'' v)"
  by (subst yields_rule [OF rule_flaglist]) (simp only: derives_or derives_around quote_chars)

lemma yields_flagchars: "yields ''flagchars'' w \<longleftrightarrow> (\<exists>f. w = codes f \<and> tag_text f)"
proof (induction w)
  case Nil
  have "\<not> yields ''flagchars'' []" by (subst step_flagchars) simp
  then show ?case by (simp add: tag_text_def)
next
  case (Cons c w)
  have "yields ''flagchars'' (c # w) \<longleftrightarrow> (\<exists>b. c = byte_val b \<and> flag_byte b \<and> (w = [] \<or> yields ''flagchars'' w))"
    by (subst step_flagchars) auto
  also have "\<dots> \<longleftrightarrow> (\<exists>f. c # w = codes f \<and> tag_text f)" (is "_ \<longleftrightarrow> ?R")
    unfolding Cons.IH
  proof
    assume "\<exists>b. c = byte_val b \<and> flag_byte b \<and> (w = [] \<or> (\<exists>f. w = codes f \<and> tag_text f))"
    then obtain b f where "c = byte_val b" "flag_byte b" "w = codes f" "list_all flag_byte f"
      by (auto simp: tag_text_def)
    then show ?R by (intro exI [of _ "b # f"]) (simp add: tag_text_def)
  next
    assume ?R
    then obtain b f where "c = byte_val b" "w = codes f" "flag_byte b" "list_all flag_byte f"
      by (auto simp: tag_text_def Cons_eq_map_conv)
    then show "\<exists>b. c = byte_val b \<and> flag_byte b \<and> (w = [] \<or> (\<exists>f. w = codes f \<and> tag_text f))"
      by (cases "f = []") (auto simp: tag_text_def)
  qed
  finally show ?case .
qed

lemma yields_flag: "yields ''flag'' w \<longleftrightarrow> (\<exists>f. w = codes (quoted f) \<and> tag_text f)"
  unfolding yields_rule [OF rule_flag] by (auto simp: yields_flagchars quote_chars quoted_def)

lemma join_with_Cons: "join_with sep (x # xs) = (if xs = [] then x else x @ sep @ join_with sep xs)"
  by (cases xs) simp_all

lemma yields_flaglist: "yields ''flaglist'' w \<longleftrightarrow>
    (\<exists>fs. fs \<noteq> [] \<and> list_all tag_text fs \<and> w = codes (join_with '','' (map quoted fs)))"
proof (induction "length w" arbitrary: w rule: less_induct)
  case less
  note step = step_flaglist [of w]
  show ?case
  proof
    assume "yields ''flaglist'' w"
    then consider "yields ''flag'' w" | u v where "w = u @ codes '','' @ v" "yields ''flag'' u" "yields ''flaglist'' v"
      using step by blast
    then show "\<exists>fs. fs \<noteq> [] \<and> list_all tag_text fs \<and> w = codes (join_with '','' (map quoted fs))"
    proof cases
      case 1
      then obtain f where "w = codes (quoted f)" "tag_text f" unfolding yields_flag by blast
      then show ?thesis by (intro exI [of _ "[f]"]) simp
    next
      case 2
      then obtain f fs where "u = codes (quoted f)" "tag_text f" "fs \<noteq> []" "list_all tag_text fs"
        "v = codes (join_with '','' (map quoted fs))"
        using less [of v] unfolding yields_flag by auto
      with 2(1) show ?thesis by (intro exI [of _ "f # fs"]) (simp add: join_with_Cons)
    qed
  next
    assume "\<exists>fs. fs \<noteq> [] \<and> list_all tag_text fs \<and> w = codes (join_with '','' (map quoted fs))"
    then obtain f fs where f: "tag_text f" "list_all tag_text fs" "w = codes (join_with '','' (map quoted (f # fs)))"
      by (auto simp: neq_Nil_conv)
    show "yields ''flaglist'' w"
    proof (cases "fs = []")
      case True
      with f show ?thesis using step unfolding yields_flag by auto
    next
      case False
      let ?v = "codes (join_with '','' (map quoted fs))"
      have w: "w = codes (quoted f) @ codes '','' @ ?v" using f(3) False by (simp add: join_with_Cons)
      then have "length ?v < length w" by simp
      then have "yields ''flaglist'' ?v" using less [of ?v] False f(2) by blast
      moreover have "yields ''flag'' (codes (quoted f))" using f(1) unfolding yields_flag by blast
      ultimately show ?thesis using step w by blast
    qed
  qed
qed

section \<open>The language\<close>

lemma literal_chars:
  "str_chars (quoted ''PASS'') = codes (quoted ''PASS'')" "str_chars (quoted ''BLOCK'') = codes (quoted ''BLOCK'')"
  "str_chars ''.'' = codes ''.''" "str_chars ''0'' = codes ''0''" "str_chars ''1'' = codes ''1''"
  "str_chars ''[]'' = codes ''[]''" "str_chars ''['' = codes ''[''" "str_chars '']'' = codes '']''" "str_chars ''}'' = codes ''}''"
  "str_chars (''{'' @ quoted ''verdict'' @ '':'') = codes (''{'' @ quoted ''verdict'' @ '':'')"
  "str_chars ('','' @ quoted ''confidence'' @ '':'') = codes ('','' @ quoted ''confidence'' @ '':'')"
  "str_chars ('','' @ quoted ''flags'' @ '':'') = codes ('','' @ quoted ''flags'' @ '':'')"
  by (rule str_chars_line, simp add: ascii_line_def quoted_def)+

lemma yields_verdict: "yields ''verdict'' w \<longleftrightarrow> (\<exists>v \<in> {''PASS'', ''BLOCK''}. w = codes (quoted v))"
  by (subst yields_rule [OF rule_verdict]) (simp only: derives_or derives_lit literal_chars bex_simps simp_thms)

lemma yields_onenine: "yields ''onenine'' w \<longleftrightarrow> (\<exists>i \<in> {CHR ''0'', CHR ''1''}. w = codes [i])"
  by (subst yields_rule [OF rule_onenine]) (simp only: derives_or derives_lit literal_chars bex_simps simp_thms)

lemma yields_confidence: "yields ''confidence'' w \<longleftrightarrow> (\<exists>c. w = codes c \<and> confidence_text c)"
proof -
  have "yields ''confidence'' w \<longleftrightarrow> (\<exists>u v. w = u @ codes ''.'' @ v \<and> yields ''onenine'' u \<and> yields ''digits'' v)"
    by (subst yields_rule [OF rule_confidence]) (simp only: derives_around literal_chars)
  also have "\<dots> \<longleftrightarrow> (\<exists>c. w = codes c \<and> confidence_text c)" (is "?L \<longleftrightarrow> ?R")
  proof
    assume ?L
    then obtain i ds where "i \<in> {CHR ''0'', CHR ''1''}" "length ds = 1 \<or> length ds = 2" "list_all digit_byte ds"
      "w = codes ([i, CHR ''.''] @ ds)"
      unfolding yields_onenine yields_digits by fastforce
    then show ?R unfolding confidence_text_def by blast
  next
    assume ?R
    then obtain i ds where c: "i \<in> {CHR ''0'', CHR ''1''}" "length ds = 1 \<or> length ds = 2" "list_all digit_byte ds"
      "w = codes ([i, CHR ''.''] @ ds)"
      unfolding confidence_text_def by blast
    then have "w = codes [i] @ codes ''.'' @ codes ds" by simp
    moreover have "yields ''onenine'' (codes [i])" "yields ''digits'' (codes ds)"
      using c unfolding yields_onenine yields_digits by blast+
    ultimately show ?L by blast
  qed
  finally show ?thesis .
qed

definition flags_text :: "string list \<Rightarrow> string" where
  "flags_text fs = ''['' @ join_with '','' (map quoted fs) @ '']''"

lemma yields_flags: "yields ''flags'' w \<longleftrightarrow> (\<exists>fs. list_all tag_text fs \<and> w = codes (flags_text fs))"
proof -
  have "yields ''flags'' w \<longleftrightarrow> w = codes ''[]'' \<or> (\<exists>u. w = codes ''['' @ u @ codes '']'' \<and> yields ''flaglist'' u)"
    by (subst yields_rule [OF rule_flags])
      (simp only: derives_or derives_lit literal_chars derives_seq_cons derives_seq_nil, auto)
  also have "\<dots> \<longleftrightarrow> (\<exists>fs. list_all tag_text fs \<and> w = codes (flags_text fs))" (is "?L \<longleftrightarrow> ?R")
  proof
    assume ?L
    then show ?R
    proof
      assume "w = codes ''[]''"
      then show ?R by (intro exI [of _ "[]"]) (simp add: flags_text_def)
    next
      assume "\<exists>u. w = codes ''['' @ u @ codes '']'' \<and> yields ''flaglist'' u"
      then obtain fs where "list_all tag_text fs" "w = codes ''['' @ codes (join_with '','' (map quoted fs)) @ codes '']''"
        unfolding yields_flaglist by blast
      then show ?R by (intro exI [of _ fs]) (simp add: flags_text_def)
    qed
  next
    assume ?R
    then obtain fs where fs: "list_all tag_text fs" "w = codes (flags_text fs)" by blast
    show ?L
    proof (cases "fs = []")
      case True
      with fs show ?thesis by (simp add: flags_text_def)
    next
      case False
      with fs(1) have "yields ''flaglist'' (codes (join_with '','' (map quoted fs)))" unfolding yields_flaglist by blast
      moreover have "w = codes ''['' @ codes (join_with '','' (map quoted fs)) @ codes '']''"
        using fs(2) by (simp add: flags_text_def)
      ultimately show ?thesis by blast
    qed
  qed
  finally show ?thesis .
qed

lemma verdict_json_parts:
  "verdict_json v c fs = (''{'' @ quoted ''verdict'' @ '':'') @ quoted v
     @ ('','' @ quoted ''confidence'' @ '':'') @ c @ ('','' @ quoted ''flags'' @ '':'') @ flags_text fs @ ''}''"
  by (simp add: verdict_json_def flags_text_def)

lemma derives_template:
  "derives R (Seq [Lit l1, a, Lit l2, b, Lit l3, c, Lit l4]) w \<longleftrightarrow>
    (\<exists>x y z. derives R a x \<and> derives R b y \<and> derives R c z \<and> w = l1 @ x @ l2 @ y @ l3 @ z @ l4)"
proof
  assume "derives R (Seq [Lit l1, a, Lit l2, b, Lit l3, c, Lit l4]) w"
  then obtain x y z where "derives R a x" "derives R b y" "derives R c z" "w = l1 @ x @ l2 @ y @ l3 @ z @ l4"
    by (auto simp only: derives_seq_cons derives_seq_nil derives_lit append_Nil2)
  then show "\<exists>x y z. derives R a x \<and> derives R b y \<and> derives R c z \<and> w = l1 @ x @ l2 @ y @ l3 @ z @ l4" by blast
next
  assume "\<exists>x y z. derives R a x \<and> derives R b y \<and> derives R c z \<and> w = l1 @ x @ l2 @ y @ l3 @ z @ l4"
  then obtain x y z where d: "derives R a x" "derives R b y" "derives R c z"
    and w: "w = l1 @ x @ l2 @ y @ l3 @ z @ l4 @ []" by auto
  show "derives R (Seq [Lit l1, a, Lit l2, b, Lit l3, c, Lit l4]) w"
    unfolding w by (intro derives.seq_cons derives.seq_nil derives.lit d)
qed

lemma yields_root: "yields ''root'' w \<longleftrightarrow> (\<exists>s. verdict_sentence s \<and> w = codes s)"
proof -
  let ?l1 = "''{'' @ quoted ''verdict'' @ '':''" and ?l2 = "'','' @ quoted ''confidence'' @ '':''"
    and ?l3 = "'','' @ quoted ''flags'' @ '':''"
  have "yields ''root'' w \<longleftrightarrow> (\<exists>x y z. yields ''verdict'' x \<and> yields ''confidence'' y \<and> yields ''flags'' z
      \<and> w = codes ?l1 @ x @ codes ?l2 @ y @ codes ?l3 @ z @ codes ''}'')"
    by (subst yields_rule [OF rule_root]) (simp only: derives_template literal_chars)
  also have "\<dots> \<longleftrightarrow> (\<exists>v c fs. v \<in> {''PASS'', ''BLOCK''} \<and> confidence_text c \<and> list_all tag_text fs
      \<and> w = codes ?l1 @ codes (quoted v) @ codes ?l2 @ codes c @ codes ?l3 @ codes (flags_text fs) @ codes ''}'')"
    unfolding yields_verdict yields_confidence yields_flags by blast
  also have "\<dots> \<longleftrightarrow> (\<exists>s. verdict_sentence s \<and> w = codes s)"
    unfolding verdict_sentence_def verdict_json_parts map_append [symmetric] by blast
  finally show ?thesis .
qed

section \<open>The acceptor decides it\<close>

lemma ascii_digit7: "ascii s \<longleftrightarrow> (\<forall>b \<in> set s. \<not> digit7 b)"
  by (simp add: ascii_def byte_val_digit7)

lemma ascii_append [simp]: "ascii (s @ t) \<longleftrightarrow> ascii s \<and> ascii t"
  by (auto simp: ascii_def)

lemma ascii_quoted [simp]: "ascii (quoted s) \<longleftrightarrow> ascii s"
  by (auto simp: ascii_digit7 quoted_def)

lemma ascii_join: "list_all ascii xs \<Longrightarrow> ascii sep \<Longrightarrow> ascii (join_with sep xs)"
  by (induction sep xs rule: join_with.induct) (simp_all, simp add: ascii_def)

lemma ascii_tag: "tag_text f \<Longrightarrow> ascii f"
  by (auto simp: tag_text_def ascii_def list_all_iff flag_byte_def Let_def)

lemma ascii_digits: "list_all digit_byte ds \<Longrightarrow> ascii ds"
  by (auto simp: ascii_def list_all_iff digit_byte_def)

lemma ascii_confidence: "confidence_text c \<Longrightarrow> ascii c"
  by (auto simp: confidence_text_def ascii_digit7 [of c] dest!: ascii_digits simp: ascii_digit7)

lemma ascii_sentence: "verdict_sentence s \<Longrightarrow> ascii s"
proof -
  assume "verdict_sentence s"
  then obtain v c fs where v: "v = ''PASS'' \<or> v = ''BLOCK''" and c: "confidence_text c" and fs: "list_all tag_text fs"
    and s: "s = verdict_json v c fs" by (auto simp: verdict_sentence_def)
  have "list_all ascii (map quoted fs)" using fs by (auto simp: list_all_iff ascii_tag)
  then have "ascii (join_with '','' (map quoted fs))" by (rule ascii_join) (simp add: ascii_digit7)
  then have "ascii (flags_text fs)" by (simp add: flags_text_def ascii_digit7)
  moreover have "ascii v" using v by (auto simp: ascii_digit7)
  moreover have "ascii (''{'' @ quoted ''verdict'' @ '':'')" "ascii ('','' @ quoted ''confidence'' @ '':'')"
    "ascii ('','' @ quoted ''flags'' @ '':'')" "ascii ''}''"
    by (simp_all add: ascii_digit7 quoted_def)
  ultimately show "ascii s"
    unfolding s verdict_json_parts using ascii_confidence [OF c] by (simp only: ascii_append ascii_quoted simp_thms)
qed

lemma yields_root_text: "yields ''root'' (str_chars input) \<longleftrightarrow> verdict_sentence input"
proof
  assume "yields ''root'' (str_chars input)"
  then obtain s where s: "verdict_sentence s" "str_chars input = codes s" unfolding yields_root by blast
  with str_chars_codes [OF s(2) ascii_sentence [OF s(1)]] show "verdict_sentence input" by simp
next
  assume v: "verdict_sentence input"
  then have "str_chars input = codes input" by (simp add: str_chars_def lossy_chars_ascii ascii_sentence)
  with v show "yields ''root'' (str_chars input)" unfolding yields_root by auto
qed

definition rank_list :: "(string \<times> nat) list" where
  "rank_list = [(''digit'', 1), (''flagchar'', 1), (''onenine'', 2), (''verdict'', 2), (''digits'', 4), (''flagchars'', 4),
    (''flag'', 2), (''flags'', 4), (''flaglist'', 5), (''confidence'', 4), (''root'', 2)]"

definition verdict_rank :: "uchar list \<Rightarrow> nat" where
  "verdict_rank name = (case map_of (map (\<lambda>(s, n). (str_chars s, n)) rank_list) name of None \<Rightarrow> 0 | Some n \<Rightarrow> n)"

lemma verdict_rules_ranked: "ranked verdict_rules verdict_rank 6"
proof -
  have all: "list_all (\<lambda>(s, r). plain_node r \<and> bounded_parts verdict_rank 6 r \<and> left_depth verdict_rank r \<le> verdict_rank (str_chars s))
      verdict_rule_list"
    by code_simp
  show ?thesis
    unfolding ranked_def verdict_rules_def
  proof (intro allI impI)
    fix name r
    assume "map_of (map (\<lambda>(name, nd). (str_chars name, nd)) verdict_rule_list) name = Some r"
    then have "(name, r) \<in> set (map (\<lambda>(name, nd). (str_chars name, nd)) verdict_rule_list)" by (rule map_of_SomeD)
    then obtain s where "(s, r) \<in> set verdict_rule_list" "name = str_chars s" by auto
    with all show "plain_node r \<and> bounded_parts verdict_rank 6 r \<and> left_depth verdict_rank r \<le> verdict_rank name"
      by (auto simp: list_all_iff)
  qed
qed

lemma accepts_sentences:
  "grammar_accepts (6 * (length (str_chars input) + 1) + j) verdict_rules input = Some (verdict_sentence input)"
proof -
  have r: "verdict_rules root_name = Some (snd (hd verdict_rule_list))" by code_simp
  have k: "verdict_rank root_name \<le> 6" by code_simp
  have "grammar_accepts (6 * (length (str_chars input) + 1) + j) verdict_rules input
      = Some (derives verdict_rules (Ref root_name) (str_chars input))"
    by (rule accepts_total [OF verdict_rules_ranked r k]) simp
  then show ?thesis using yields_root_text [of input] by (simp add: root_name_def)
qed

text \<open>C15: The acceptor decides the language of the embedded grammar file: on every input, with a recursion
  depth linear in its length, it answers whether the input is a verdict sentence, that is
  exactly the compact object with the keys verdict (PASS or BLOCK), confidence (0 or 1, a point, one
  or two digits) and flags (a list of non-empty tags of a-z, 0-9 and underscore). Prose is not in it.\<close>
theorem deployed_grammar_language:
  "grammar_accepts (6 * (length (str_chars input) + 1) + j) (verdict_grammar t) input = Some (verdict_sentence input)"
  using accepts_sentences [of input j] by simp

section \<open>The sentences and the strict parser\<close>

lemma tag_is_valid: "tag_text f \<Longrightarrow> flag_is_valid f \<longleftrightarrow> length f \<le> max_flag_len"
  by (auto simp: tag_text_def flag_is_valid_def)

lemma parse_sentence:
  assumes json: "ja_parse api (verdict_json (show_verdict v) c fs) =
      Some (JObj [(''verdict'', JStr (show_verdict v)), (''confidence'', JNum x), (''flags'', JArr (map JStr fs))])"
    and tags: "list_all tag_text fs"
  shows "map_sum (\<lambda>_. ()) (\<lambda>sv. (sv_verdict sv, sv_flags sv)) (parse_strict api (verdict_json (show_verdict v) c fs)) =
    (if length (verdict_json (show_verdict v) c fs) \<le> 512 \<and> length fs \<le> 8 \<and> list_all (\<lambda>f. length f \<le> 48) fs
     then Inr (v, fs) else Inl ())"
proof -
  let ?s = "verdict_json (show_verdict v) c fs"
  have names: "verdict_of_name (show_verdict v) = Some v" by (cases v) simp_all
  have strs: "those (map json_string (map JStr fs)) = Some fs" by (induction fs) simp_all
  have r: "json_from_str api ?s = Inr \<lparr>rv_verdict = v, rv_confidence = to_f32 x, rv_flags = fs\<rparr>"
    using names strs by (simp add: json_from_str_def json raw_of_def)
  have valid: "first_bad_flag fs = None \<longleftrightarrow> list_all (\<lambda>f. length f \<le> 48) fs"
    unfolding first_bad_flag_None_iff using tags tag_is_valid by (auto simp: list_all_iff max_flag_len_def)
  show ?thesis
  proof (cases "first_bad_flag fs")
    case None
    with valid show ?thesis by (simp add: parse_strict_def r max_raw_response_bytes_def max_flags_def)
  next
    case (Some f)
    with valid show ?thesis by (simp add: parse_strict_def r max_raw_response_bytes_def max_flags_def)
  qed
qed

text \<open>C33: The strict parser is the looser reading of the same contract, with limits: given a JSON parser that
  reads the sentences of the grammar as the objects they spell, it accepts a sentence exactly when it
  has at most 512 bytes, 8 flags and 48 bytes a flag, and then returns its verdict and flags.\<close>
theorem sentence_parses_within_limits:
  assumes json: "ja_parse api (verdict_json (show_verdict v) c fs) =
      Some (JObj [(''verdict'', JStr (show_verdict v)), (''confidence'', JNum x), (''flags'', JArr (map JStr fs))])"
    and tags: "list_all tag_text fs"
  shows "map_sum (\<lambda>_. ()) (\<lambda>sv. (sv_verdict sv, sv_flags sv)) (parse_strict api (verdict_json (show_verdict v) c fs)) =
    (if length (verdict_json (show_verdict v) c fs) \<le> 512 \<and> length fs \<le> 8 \<and> list_all (\<lambda>f. length f \<le> 48) fs
     then Inr (v, fs) else Inl ())"
  using assms by (rule parse_sentence)

definition sentence_json :: json_api where
  "sentence_json = \<lparr>ja_parse = (\<lambda>s. if s = verdict_json ''BLOCK'' ''0.90'' [''intent_shift''] then
     Some (JObj [(''verdict'', JStr ''BLOCK''), (''confidence'', JNum (9 / 10)), (''flags'', JArr [JStr ''intent_shift''])])
     else None), ja_error = (\<lambda>s. ''expected value'')\<rparr>"

lemma sentence_parses_within_limits_witness:
  "map_sum (\<lambda>_. ()) (\<lambda>sv. (sv_verdict sv, sv_flags sv))
     (parse_strict sentence_json (verdict_json ''BLOCK'' ''0.90'' [''intent_shift''])) = Inr (Block, [''intent_shift''])"
proof -
  have j: "ja_parse sentence_json (verdict_json (show_verdict Block) ''0.90'' [''intent_shift'']) =
      Some (JObj [(''verdict'', JStr (show_verdict Block)), (''confidence'', JNum (9 / 10)), (''flags'', JArr (map JStr [''intent_shift'']))])"
    by (simp add: sentence_json_def)
  have t: "list_all tag_text [''intent_shift'']" by (simp add: tag_text_def flag_byte_def Let_def byte_val_def)
  have l: "length (verdict_json ''BLOCK'' ''0.90'' [''intent_shift'']) \<le> 512" by code_simp
  show ?thesis using sentence_parses_within_limits [OF j t] l by simp
qed

end
