(* ===== verification/Guard_Llama.thy ===== *)
theory Guard_Llama
  imports Guard_Language Guard_Inference
begin

text \<open>
  The llama backend of \<open>ctp-guard/src/inference.rs\<close> (built with the feature \<open>llama\<close>), as a program over
  the bindings it calls. The bindings are an argument: a record of their functions over abstract
  contexts, batches, samplers and tokens. What is modelled is the source's own control flow: the
  order of the calls, the early returns, the bounded decoding loop.
\<close>

section \<open>The bindings\<close>

type_synonym i32 = "32 word"

record ('c, 'b, 's, 't) llama_api =
  la_new_context :: "u32 \<Rightarrow> string + 'c"
  la_str_to_token :: "string \<Rightarrow> string + 't list"
  la_batch_new :: "nat \<Rightarrow> 'b"
  la_batch_add :: "'b \<Rightarrow> 't \<Rightarrow> i32 \<Rightarrow> bool \<Rightarrow> string + 'b"
  la_batch_clear :: "'b \<Rightarrow> 'b"
  la_n_tokens :: "'b \<Rightarrow> i32"
  la_decode :: "'c \<Rightarrow> 'b \<Rightarrow> string + 'c \<times> 'b"
  la_sampler :: "string \<Rightarrow> string \<Rightarrow> string + 's"
  la_sample :: "'s \<Rightarrow> 'c \<Rightarrow> i32 \<Rightarrow> 't \<times> 's"
  la_is_eog :: "'t \<Rightarrow> bool"
  la_piece :: "'t \<Rightarrow> string + bytes"

definition max_new_tokens :: nat where
  "max_new_tokens = 64"

definition n_ctx :: u32 where
  "n_ctx = 4096"

text \<open>\<open>map_err\<close> to the backend's error, under a prefix.\<close>

definition or_failed :: "string \<Rightarrow> string + 'a \<Rightarrow> backend_error + 'a" where
  "or_failed prefix r = map_sum (\<lambda>e. Failed (prefix @ e)) id r"

lemma or_failed_Inr [simp]: "or_failed p r = Inr x \<longleftrightarrow> r = Inr x"
  by (cases r) (auto simp: or_failed_def)

section \<open>Inference\<close>

fun prompt_batch ::
  "('c, 'b, 's, 't) llama_api \<Rightarrow> nat \<Rightarrow> nat \<Rightarrow> 't list \<Rightarrow> 'b \<Rightarrow> backend_error + 'b" where
  "prompt_batch api i last_index [] b = Inr b"
| "prompt_batch api i last_index (t # ts) b =
     and_then (or_failed [] (la_batch_add api b t (of_nat i) (i = last_index)))
       (\<lambda>b'. prompt_batch api (i + 1) last_index ts b')"

text \<open>The decoding loop: the iterations left, context, batch, sampler, position, output so far.\<close>

primrec generate ::
  "nat \<Rightarrow> ('c, 'b, 's, 't) llama_api \<Rightarrow> 'c \<Rightarrow> 'b \<Rightarrow> 's \<Rightarrow> i32 \<Rightarrow> bytes \<Rightarrow> backend_error + bytes" where
  "generate 0 api = (\<lambda>ctx batch sampler n_cur out. Inr out)"
| "generate (Suc k) api = (\<lambda>ctx batch sampler n_cur out.
     let (token, sampler') = la_sample api sampler ctx (la_n_tokens api batch - 1) in
     if la_is_eog api token then Inr out
     else and_then (or_failed [] (la_piece api token)) (\<lambda>piece.
          and_then (or_failed [] (la_batch_add api (la_batch_clear api batch) token n_cur True)) (\<lambda>batch'.
          and_then (or_failed ''decode: '' (la_decode api ctx batch')) (\<lambda>(ctx', batch'').
            generate k api ctx' batch'' sampler' (n_cur + 1) (out @ piece)))))"

definition llama_infer :: "('c, 'b, 's, 't) llama_api \<Rightarrow> string \<Rightarrow> string \<Rightarrow> backend_error + string" where
  "llama_infer api grammar prompt =
     and_then (or_failed ''new context: '' (la_new_context api n_ctx)) (\<lambda>ctx.
     and_then (or_failed ''tokenize: '' (la_str_to_token api prompt)) (\<lambda>tokens.
     and_then (prompt_batch api 0 (length tokens - 1) tokens (la_batch_new api (max (length tokens) 512))) (\<lambda>batch.
     and_then (or_failed ''decode: '' (la_decode api ctx batch)) (\<lambda>(ctx', batch').
     and_then (or_failed ''grammar init: '' (la_sampler api grammar ''root'')) (\<lambda>sampler.
     and_then (generate max_new_tokens api ctx' batch' sampler (la_n_tokens api batch') []) (\<lambda>out.
       Inr (from_utf8_lossy out)))))))"

definition llama_backend :: "('c, 'b, 's, 't) llama_api \<Rightarrow> string \<Rightarrow> string \<Rightarrow> backend" where
  "llama_backend api grammar model_id = \<lparr>be_model_id = model_id, be_infer = llama_infer api grammar\<rparr>"

section \<open>The output under a grammar-constrained sampler\<close>

text \<open>
  What llama.cpp documents of a grammar sampler: there is a relation between its states and the output
  so far under which the output can always be completed to a sentence, the end of generation is
  sampled only when the output is one, and any other token keeps to the relation.
\<close>

definition constrained :: "('c, 'b, 's, 't) llama_api \<Rightarrow> (bytes \<Rightarrow> bool) \<Rightarrow> ('s \<Rightarrow> bytes \<Rightarrow> bool) \<Rightarrow> 's \<Rightarrow> bool" where
  "constrained api sentence rel s0 \<longleftrightarrow>
     rel s0 [] \<and>
     (\<forall>s out. rel s out \<longrightarrow> (\<exists>rest. sentence (out @ rest)) \<and>
        (\<forall>c i t s'. la_sample api s c i = (t, s') \<longrightarrow>
           (if la_is_eog api t then sentence out
            else \<forall>p. la_piece api t = Inr p \<longrightarrow> rel s' (out @ p))))"

lemma constrainedD:
  assumes "constrained api sentence rel s0" "rel s out"
  shows "\<exists>rest. sentence (out @ rest)"
    and "la_sample api s c i = (t, s') \<Longrightarrow> la_is_eog api t \<Longrightarrow> sentence out"
    and "la_sample api s c i = (t, s') \<Longrightarrow> \<not> la_is_eog api t \<Longrightarrow> la_piece api t = Inr p \<Longrightarrow> rel s' (out @ p)"
  using assms unfolding constrained_def by meson+

lemma generate_constrained:
  assumes "constrained api sentence rel s0"
  shows "generate k api ctx batch s n out = Inr res \<Longrightarrow> rel s out \<Longrightarrow>
    \<exists>ps. length ps \<le> k \<and> res = out @ concat ps \<and> (\<exists>rest. sentence (res @ rest)) \<and> (length ps < k \<longrightarrow> sentence res)"
proof (induction k arbitrary: ctx batch s n out)
  case 0
  then show ?case using constrainedD(1) [OF assms] by (intro exI [of _ "[]"]) auto
next
  case (Suc k)
  obtain t s' where t: "la_sample api s ctx (la_n_tokens api batch - 1) = (t, s')" by fastforce
  show ?case
  proof (cases "la_is_eog api t")
    case True
    with Suc.prems t have "res = out" by simp
    then show ?thesis
      using constrainedD(1) [OF assms Suc.prems(2)] constrainedD(2) [OF assms Suc.prems(2) t True]
      by (intro exI [of _ "[]"]) auto
  next
    case False
    with Suc.prems(1) t obtain p ctx' batch' where p: "la_piece api t = Inr p"
      "generate k api ctx' batch' s' (n + 1) (out @ p) = Inr res"
      by (auto simp: and_then_Inr_iff)
    obtain ps where "length ps \<le> k" "res = (out @ p) @ concat ps" "\<exists>rest. sentence (res @ rest)"
      "length ps < k \<longrightarrow> sentence res"
      using Suc.IH [OF p(2) constrainedD(3) [OF assms Suc.prems(2) t False p(1)]] by blast
    then show ?thesis by (intro exI [of _ "p # ps"]) auto
  qed
qed

lemma ascii_prefix_of_sentence: "verdict_sentence (s @ rest) \<Longrightarrow> ascii s"
  using ascii_sentence by (metis ascii_append)

lemma llama_output:
  assumes "\<And>s. la_sampler api verdict_gbnf ''root'' = Inr s \<Longrightarrow> constrained api verdict_sentence rel s"
    and "llama_infer api verdict_gbnf prompt = Inr out"
  shows "\<exists>ps. length ps \<le> 64 \<and> out = concat ps \<and> (\<exists>rest. verdict_sentence (out @ rest)) \<and> (length ps < 64 \<longrightarrow> verdict_sentence out)"
proof -
  obtain ctx batch s res n where s: "la_sampler api verdict_gbnf ''root'' = Inr s"
    and g: "generate max_new_tokens api ctx batch s n [] = Inr res" and out: "out = from_utf8_lossy res"
    using assms(2) by (auto simp: llama_infer_def and_then_Inr_iff)
  have c: "constrained api verdict_sentence rel s" using assms(1) s by blast
  then have "rel s []" by (simp add: constrained_def)
  then obtain ps where ps: "length ps \<le> 64" "res = concat ps" "\<exists>rest. verdict_sentence (res @ rest)"
    "length ps < 64 \<longrightarrow> verdict_sentence res"
    using generate_constrained [OF c g] by (auto simp: max_new_tokens_def)
  then have "out = res" using ascii_prefix_of_sentence from_utf8_lossy_ascii out by blast
  with ps show ?thesis by blast
qed

text \<open>Constrained decoding: with a sampler that keeps to the embedded grammar, whatever the prompt, an
  answer of the llama backend is made of at most 64 pieces, is a prefix of a verdict sentence, and is a
  sentence itself unless all 64 pieces were used. So prose cannot come out of it.\<close>
theorem llama_output_in_language:
  assumes "\<And>s. la_sampler api verdict_gbnf ''root'' = Inr s \<Longrightarrow> constrained api verdict_sentence rel s"
    and "llama_infer api verdict_gbnf prompt = Inr out"
  shows "\<exists>ps. length ps \<le> 64 \<and> out = concat ps \<and> (\<exists>rest. verdict_sentence (out @ rest)) \<and> (length ps < 64 \<longrightarrow> verdict_sentence out)"
  using assms by (rule llama_output)

text \<open>Bindings whose sampler spells a fixed answer.\<close>

definition scripted_api :: "string list \<Rightarrow> (unit, unit, string list, string option) llama_api" where
  "scripted_api chunks = \<lparr>la_new_context = (\<lambda>n. Inr ()), la_str_to_token = (\<lambda>s. Inr [Some s]), la_batch_new = (\<lambda>n. ()),
     la_batch_add = (\<lambda>b t i l. Inr ()), la_batch_clear = (\<lambda>b. b), la_n_tokens = (\<lambda>b. 1), la_decode = (\<lambda>c b. Inr (c, b)),
     la_sampler = (\<lambda>g r. Inr chunks), la_sample = (\<lambda>s c i. case s of [] \<Rightarrow> (None, []) | x # xs \<Rightarrow> (Some x, xs)),
     la_is_eog = (\<lambda>t. t = None), la_piece = (\<lambda>t. Inr (case t of None \<Rightarrow> [] | Some p \<Rightarrow> p))\<rparr>"

lemma scripted_constrained:
  assumes "sentence (concat chunks)"
  shows "constrained (scripted_api chunks) sentence (\<lambda>s out. out @ concat s = concat chunks) chunks"
  unfolding constrained_def
proof (intro conjI allI impI)
  fix s out assume o: "out @ concat s = concat chunks"
  show "\<exists>rest. sentence (out @ rest)" using o assms by (intro exI [of _ "concat s"]) simp
  show "if la_is_eog (scripted_api chunks) t then sentence out
      else \<forall>p. la_piece (scripted_api chunks) t = Inr p \<longrightarrow> (out @ p) @ concat s' = concat chunks"
    if "la_sample (scripted_api chunks) s c i = (t, s')" for c i t s'
    using that o assms by (cases s) (auto simp: scripted_api_def)
qed simp

definition pass_answer :: string where
  "pass_answer = verdict_json ''PASS'' ''0.10'' []"

lemma confidence_010: "confidence_text ''0.10''"
  unfolding confidence_text_def
  by (intro exI [of _ "CHR ''0''"] exI [of _ "''10''"]) (simp add: digit_byte_def byte_val_def)

lemma pass_answer_sentence: "verdict_sentence pass_answer"
proof -
  show ?thesis using confidence_010 unfolding verdict_sentence_def pass_answer_def
    by (intro exI [of _ "''PASS''"] exI [of _ "''0.10''"] exI [of _ "[]"]) simp
qed

lemma scripted_sampler:
  assumes "la_sampler (scripted_api [pass_answer]) g r = Inr s"
  shows "constrained (scripted_api [pass_answer]) verdict_sentence (\<lambda>s out. out @ concat s = concat [pass_answer]) s"
proof -
  have "s = [pass_answer]" using assms by (simp add: scripted_api_def)
  then show ?thesis using scripted_constrained [of verdict_sentence "[pass_answer]"] pass_answer_sentence by simp
qed

lemma scripted_infer: "llama_infer (scripted_api [pass_answer]) verdict_gbnf prompt = Inr pass_answer"
proof -
  have "generate 64 (scripted_api [pass_answer]) () () [pass_answer] 1 [] = Inr pass_answer"
    by (simp add: numeral_eq_Suc scripted_api_def or_failed_def)
  moreover have "from_utf8_lossy pass_answer = pass_answer"
    by (rule from_utf8_lossy_ascii [OF ascii_sentence [OF pass_answer_sentence]])
  ultimately show ?thesis
    by (simp add: llama_infer_def scripted_api_def or_failed_def max_new_tokens_def)
qed

lemma llama_output_in_language_witness:
  "\<exists>ps. length ps \<le> 64 \<and> pass_answer = concat ps \<and> (\<exists>rest. verdict_sentence (pass_answer @ rest))
     \<and> (length ps < 64 \<longrightarrow> verdict_sentence pass_answer)"
  by (rule llama_output_in_language [OF scripted_sampler scripted_infer])

end
