(* ===== verification/Guard_Startup.thy ===== *)
theory Guard_Startup
  imports Guard_Server Guard_Llama Core_Config
begin

text \<open>
  The start of the guard process, \<open>ctp-guard/src/lib.rs\<close>: the choice of the prompt and of the
  backend, up to the server that is then put on the socket. Whether the binary was built with the
  feature \<open>llama\<close>, and the loading of a model file, are arguments.
\<close>

section \<open>The name of the model\<close>

text \<open>\<open>Path::file_stem\<close> on Unix: the last component without its extension.\<close>

fun split_path :: "string \<Rightarrow> string list" where
  "split_path [] = [[]]"
| "split_path (c # cs) =
     (if c = CHR ''/'' then [] # split_path cs
      else case split_path cs of [] \<Rightarrow> [[c]] | w # ws \<Rightarrow> (c # w) # ws)"

text \<open>Empty components and dots inside or after a path are skipped; two dots have no file name.\<close>

definition file_name :: "string \<Rightarrow> string option" where
  "file_name p =
     (case rev (filter (\<lambda>w. w \<noteq> [] \<and> w \<noteq> ''.'') (split_path p)) of
        [] \<Rightarrow> None
      | w # _ \<Rightarrow> if w = ''..'' then None else Some w)"

definition stem_of :: "string \<Rightarrow> string" where
  "stem_of w =
     (case dropWhile (\<lambda>c. c \<noteq> CHR ''.'') (rev w) of
        [] \<Rightarrow> w
      | _ # before \<Rightarrow> if before = [] then w else rev before)"

definition file_stem :: "string \<Rightarrow> string option" where
  "file_stem p = map_option stem_of (file_name p)"

definition llama_model_id :: "guard_config \<Rightarrow> string \<Rightarrow> string" where
  "llama_model_id g path =
     (case file_stem path of Some s \<Rightarrow> s | None \<Rightarrow> ''model'') @ ''/'' @ g_prompt_version g"

section \<open>The backend\<close>

text \<open>Loading: the path, the grammar and the identifier.\<close>

type_synonym llama_loader = "string \<Rightarrow> string \<Rightarrow> string \<Rightarrow> backend_error + backend"

text \<open>\<open>LlamaBackend::load\<close>, over the initialisation of the library and its loading of a model file, which gives the
  bindings over that model.\<close>

definition llama_load ::
  "string + 'i \<Rightarrow> ('i \<Rightarrow> string \<Rightarrow> string + ('c, 'b, 's, 't) llama_api) \<Rightarrow> llama_loader" where
  "llama_load init load_from_file model_path grammar model_id =
     and_then (or_failed [] init) (\<lambda>lib.
     and_then (or_failed ''load model: '' (load_from_file lib model_path)) (\<lambda>api.
       Inr (llama_backend api grammar model_id)))"

definition build_llama_backend :: "llama_loader option \<Rightarrow> guard_config \<Rightarrow> ctp_error + backend" where
  "build_llama_backend feature g =
     (case feature of
        None \<Rightarrow> Inl (ConfigError (''guard.backend = '' @ [CHR 0x22] @ ''llama'' @ [CHR 0x22]
                  @ '' requires building ctp-guard with --features llama''))
      | Some load \<Rightarrow>
          (case g_model_path g of
             None \<Rightarrow> Inl (ConfigError ''guard.model_path required for llama backend'')
           | Some path \<Rightarrow>
               map_sum (\<lambda>e. ConfigError (''llama backend: '' @ show_backend_error e)) id
                 (load path verdict_gbnf (llama_model_id g path))))"

definition build_backend :: "(string \<Rightarrow> string) \<Rightarrow> llama_loader option \<Rightarrow> guard_config \<Rightarrow> ctp_error + backend" where
  "build_backend uni feature g =
     (case g_backend g of
        Mock \<Rightarrow> Inr (mock_backend uni)
      | Llama \<Rightarrow> build_llama_backend feature g)"

text \<open>\<open>serve\<close> up to the binding of the socket.\<close>

definition guard_startup :: "(string \<Rightarrow> string) \<Rightarrow> llama_loader option \<Rightarrow> ctp_config \<Rightarrow> ctp_error + guard_server" where
  "guard_startup uni feature c =
     (case system_prompt (g_prompt_version (c_guard c)) of
        None \<Rightarrow> Inl (ConfigError (''unknown guard.prompt_version '' @ [CHR 0x27] @ g_prompt_version (c_guard c) @ [CHR 0x27]))
      | Some p \<Rightarrow>
          and_then (build_backend uni feature (c_guard c)) (\<lambda>b.
            Inr (guard_server_new b p (g_max_window_bytes (c_guard c)))))"

section \<open>No silent fallback\<close>

definition started_with :: "(string \<Rightarrow> string) \<Rightarrow> llama_loader option \<Rightarrow> guard_config \<Rightarrow> backend \<Rightarrow> bool" where
  "started_with uni feature g b \<longleftrightarrow>
     (case g_backend g of
        Mock \<Rightarrow> b = mock_backend uni
      | Llama \<Rightarrow> (\<exists>load path. feature = Some load \<and> g_model_path g = Some path
                    \<and> load path verdict_gbnf (llama_model_id g path) = Inr b))"

text \<open>The guard starts only as configured, with no silent fallback: it refuses to start, with a configuration
  error, unless the prompt version is the known one and, for the llama backend, the binary has it, a
  model path is given and the model loads under the embedded grammar; then it serves exactly that backend.\<close>
theorem guard_starts_only_as_configured:
  "guard_startup uni feature c = Inr srv \<longleftrightarrow>
    g_prompt_version (c_guard c) = ''guard_system_v1''
    \<and> started_with uni feature (c_guard c) (gs_backend srv)
    \<and> srv = guard_server_new (gs_backend srv) system_prompt_v1 (g_max_window_bytes (c_guard c))"
proof -
  have b: "build_backend uni feature (c_guard c) = Inr b \<longleftrightarrow> started_with uni feature (c_guard c) b" for b
  proof (cases "g_backend (c_guard c)")
    case Mock
    then show ?thesis by (auto simp: build_backend_def started_with_def)
  next
    case Llama
    have r: "map_sum f id r = Inr b \<longleftrightarrow> r = Inr b" for f :: "backend_error \<Rightarrow> ctp_error" and r by (cases r) auto
    show ?thesis
      by (cases feature; cases "g_model_path (c_guard c)")
        (auto simp: build_backend_def started_with_def build_llama_backend_def Llama r)
  qed
  show ?thesis
  proof (cases "g_prompt_version (c_guard c) = ''guard_system_v1''")
    case True
    then have "guard_startup uni feature c = Inr srv \<longleftrightarrow>
        (\<exists>b. started_with uni feature (c_guard c) b \<and> srv = guard_server_new b system_prompt_v1 (g_max_window_bytes (c_guard c)))"
      by (auto simp: guard_startup_def system_prompt_def and_then_Inr_iff b)
    also have "\<dots> \<longleftrightarrow> started_with uni feature (c_guard c) (gs_backend srv)
        \<and> srv = guard_server_new (gs_backend srv) system_prompt_v1 (g_max_window_bytes (c_guard c))"
      by (auto simp: guard_server_new_def)
    finally show ?thesis using True by simp
  qed (simp add: guard_startup_def system_prompt_def)
qed

text \<open>A guard that starts with the llama backend runs the loaded model under the embedded grammar.\<close>

lemma guard_starts_on_loaded_model:
  assumes "guard_startup uni (Some (llama_load init load_from_file)) c = Inr srv" "g_backend (c_guard c) = Llama"
  obtains lib path api where "init = Inr lib" "g_model_path (c_guard c) = Some path" "load_from_file lib path = Inr api"
    "srv = guard_server_new (llama_backend api verdict_gbnf (llama_model_id (c_guard c) path)) system_prompt_v1
       (g_max_window_bytes (c_guard c))"
proof -
  have "started_with uni (Some (llama_load init load_from_file)) (c_guard c) (gs_backend srv)"
    "srv = guard_server_new (gs_backend srv) system_prompt_v1 (g_max_window_bytes (c_guard c))"
    using assms(1) unfolding guard_starts_only_as_configured by blast+
  then show thesis
    using assms(2) that by (auto simp: started_with_def llama_load_def and_then_Inr_iff)
qed

lemma guard_startup_refusal: "guard_startup uni feature c = Inl e \<Longrightarrow> \<exists>m. e = ConfigError m"
proof -
  have r: "map_sum (\<lambda>e. ConfigError (m e)) id r = Inl e \<Longrightarrow> \<exists>m. e = ConfigError m"
    for r :: "backend_error + backend" and m by (cases r) auto
  show "guard_startup uni feature c = Inl e \<Longrightarrow> \<exists>m. e = ConfigError m"
    by (auto simp: guard_startup_def build_backend_def build_llama_backend_def and_then_Inl_iff dest: r
        split: option.splits guard_backend_kind.splits)
qed

end
