(* ===== verification/Guard_Process.thy ===== *)
theory Guard_Process
  imports Guard_Startup
begin

text \<open>
  The guard as a process: \<open>ctp-guard/src/main.rs\<close> and \<open>serve\<close> of \<open>ctp-guard/src/lib.rs\<close>, from the
  command line to the exit code, as the sequence of effects on the operating system. What each
  call to the system returns is a field of an argument; the effects listed are those of the calls that succeed (a failed
  creation of directories may leave some of them behind, which nothing here depends on).
\<close>

section \<open>Effects\<close>

datatype exit_code = ExitSuccess | ExitFailure

datatype os_effect =
    CreatedDirs string
  | RemovedFile string
  | BoundSocket string
  | ModeSet string nat
  | NotifiedReady
  | WatchdogEvery nanos
  | ServedGuard string guard_server

record guard_os =
  os_args :: "string list"
  os_read :: "string \<Rightarrow> string + string"
  os_create_dir_all :: "string \<Rightarrow> string + unit"
  os_exists :: "string \<Rightarrow> bool"
  os_remove_file :: "string \<Rightarrow> string + unit"
  os_bind :: "string \<Rightarrow> string + unit"
  os_set_mode :: "string \<Rightarrow> nat \<Rightarrow> string + unit"
  os_watchdog :: "nanos option"
  os_server_end :: "string + unit"

text \<open>A run: the effects it had, and its result. The operator \<open>?\<close> on the result keeps the effects.\<close>

type_synonym ('e, 'a) run = "'e list \<times> (ctp_error + 'a)"

definition run_then :: "('e, 'a) run \<Rightarrow> ('a \<Rightarrow> ('e, 'b) run) \<Rightarrow> ('e, 'b) run" where
  "run_then m k =
     (case m of
        (es, Inl e) \<Rightarrow> (es, Inl e)
      | (es, Inr a) \<Rightarrow> apfst ((@) es) (k a))"

definition pure_run :: "ctp_error + 'a \<Rightarrow> ('e, 'a) run" where
  "pure_run r = ([], r)"

definition os_call :: "'e \<Rightarrow> string + unit \<Rightarrow> ('e, unit) run" where
  "os_call ev r = (case r of Inl e \<Rightarrow> ([], Inl (IoError e)) | Inr _ \<Rightarrow> ([ev], Inr ()))"

section \<open>The path of the socket\<close>

text \<open>
  \<open>Path::parent\<close> on Unix, on the reversed text: empty components and dots at the end are dropped,
  then the last component, then again what is empty before it. A leading slash or dot component
  stays.
\<close>

function trim_components :: "string \<Rightarrow> string" where
  "trim_components r =
     (if takeWhile (\<lambda>c. c \<noteq> CHR ''/'') r \<in> {[], ''.''} then
        (case dropWhile (\<lambda>c. c \<noteq> CHR ''/'') r of
           [] \<Rightarrow> []
         | _ # rest \<Rightarrow> trim_components rest)
      else r)"
  by pat_completeness auto
termination
proof (relation "measure length")
  fix r rest :: string and x
  assume d: "dropWhile (\<lambda>c. c \<noteq> CHR ''/'') r = x # rest"
  have "length rest < length (dropWhile (\<lambda>c. c \<noteq> CHR ''/'') r)" by (simp add: d)
  also have "\<dots> \<le> length r" by (rule length_dropWhile_le)
  finally show "(rest, r) \<in> measure length" by simp
qed simp

declare trim_components.simps [simp del]

definition path_prefix :: "string \<Rightarrow> string" where
  "path_prefix p =
     (if p \<noteq> [] \<and> hd p = CHR ''/'' then ''/''
      else if p = ''.'' \<or> take 2 p = ''./'' then ''.'' else [])"

definition path_parent :: "string \<Rightarrow> string option" where
  "path_parent p =
     (let r = trim_components (rev (drop (length (path_prefix p)) p)) in
      if r = [] then (if path_prefix p = ''.'' then Some [] else None)
      else Some (path_prefix p @ rev (trim_components (drop 1 (dropWhile (\<lambda>c. c \<noteq> CHR ''/'') r)))))"

section \<open>Serving\<close>

definition prepare_socket_path :: "guard_os \<Rightarrow> string \<Rightarrow> (os_effect, unit) run" where
  "prepare_socket_path os path =
     run_then
       (case path_parent path of
          Some parent \<Rightarrow> if parent \<noteq> [] then os_call (CreatedDirs parent) (os_create_dir_all os parent) else pure_run (Inr ())
        | None \<Rightarrow> pure_run (Inr ()))
       (\<lambda>_. if os_exists os path then os_call (RemovedFile path) (os_remove_file os path) else pure_run (Inr ()))"

definition spawn_watchdog :: "guard_os \<Rightarrow> os_effect list" where
  "spawn_watchdog os = (case os_watchdog os of Some timeout \<Rightarrow> [WatchdogEvery (timeout div 2)] | None \<Rightarrow> [])"

text \<open>Owner only: the mode \<open>0o600\<close>.\<close>

definition owner_mode :: nat where
  "owner_mode = 6 * 8 * 8"

lemma owner_mode_0600 [simp]: "owner_mode = 6 * 8 ^ 2"
  by (simp add: owner_mode_def)

text \<open>The server runs until it ends; the file of the socket is then removed, if it can be.\<close>

definition run_server :: "guard_os \<Rightarrow> string \<Rightarrow> guard_server \<Rightarrow> (os_effect, unit) run" where
  "run_server os path srv =
     ([NotifiedReady] @ spawn_watchdog os @ [ServedGuard path srv]
        @ (case os_remove_file os path of Inr _ \<Rightarrow> [RemovedFile path] | Inl _ \<Rightarrow> []),
      map_sum (\<lambda>e. ConfigError (''guard server: '' @ e)) id (os_server_end os))"

definition guard_serve ::
  "guard_os \<Rightarrow> (string \<Rightarrow> string) \<Rightarrow> llama_loader option \<Rightarrow> ctp_config \<Rightarrow> (os_effect, unit) run" where
  "guard_serve os uni feature c =
     (let path = g_socket_path (c_guard c) in
      run_then (pure_run (guard_startup uni feature c)) (\<lambda>srv.
      run_then (prepare_socket_path os path) (\<lambda>_.
      run_then (os_call (BoundSocket path) (os_bind os path)) (\<lambda>_.
      run_then (os_call (ModeSet path owner_mode) (os_set_mode os path owner_mode)) (\<lambda>_.
        run_server os path srv)))))"

text \<open>
  \<open>shutdown_signal\<close>: when it returns, if ever, given whether the handler of SIGTERM could be registered, and when the
  futures of the two signals are ready.
\<close>

fun first_ready :: "nanos option \<Rightarrow> nanos option \<Rightarrow> nanos option" where
  "first_ready None b = b"
| "first_ready a None = a"
| "first_ready (Some a) (Some b) = Some (min a b)"

definition shutdown_signal :: "string + unit \<Rightarrow> nanos option \<Rightarrow> nanos option \<Rightarrow> nanos option" where
  "shutdown_signal terminate_handler ctrl_c term =
     (case terminate_handler of
        Inl _ \<Rightarrow> Some 0
      | Inr _ \<Rightarrow> first_ready ctrl_c term)"

text \<open>Without the handler the server is told to shut down at once, although no signal was sent; with it, only by one.\<close>

lemma unregistered_handler_shuts_down: "shutdown_signal (Inl e) None None = Some 0"
  by (simp add: shutdown_signal_def)

lemma registered_handler_waits: "shutdown_signal (Inr u) c t = None \<longleftrightarrow> c = None \<and> t = None"
  by (cases c; cases t) (simp_all add: shutdown_signal_def)

definition config_path :: "string list \<Rightarrow> string" where
  "config_path args = (case drop 1 args of p # _ \<Rightarrow> p | [] \<Rightarrow> ''ctp.toml'')"

definition exit_of :: "ctp_error + unit \<Rightarrow> exit_code" where
  "exit_of r = (case r of Inl _ \<Rightarrow> ExitFailure | Inr _ \<Rightarrow> ExitSuccess)"

definition guard_main ::
  "guard_os \<Rightarrow> toml_api \<Rightarrow> (string \<Rightarrow> string) \<Rightarrow> llama_loader option \<Rightarrow> os_effect list \<times> exit_code" where
  "guard_main os api uni feature =
     apsnd exit_of
       (run_then (pure_run (config_load api (os_read os) (config_path (os_args os)))) (guard_serve os uni feature))"


section \<open>What a run does\<close>

text \<open>Every service of a socket finds it bound and its mode last set to that of the owner alone.\<close>

primrec owner_only :: "(string \<Rightarrow> nat option) \<Rightarrow> os_effect list \<Rightarrow> bool" where
  "owner_only m [] = True"
| "owner_only m (ev # es) =
     (case ev of
        BoundSocket p \<Rightarrow> owner_only (m(p \<mapsto> 511)) es
      | ModeSet p k \<Rightarrow> owner_only (m(p \<mapsto> k)) es
      | RemovedFile p \<Rightarrow> owner_only (m(p := None)) es
      | ServedGuard p srv \<Rightarrow> m p = Some owner_mode \<and> owner_only m es
      | _ \<Rightarrow> owner_only m es)"

definition socket_ready :: "guard_os \<Rightarrow> string \<Rightarrow> bool" where
  "socket_ready os path \<longleftrightarrow>
     (case path_parent path of Some parent \<Rightarrow> parent = [] \<or> os_create_dir_all os parent = Inr () | None \<Rightarrow> True)
     \<and> (os_remove_file os path = Inr () \<or> \<not> os_exists os path)
     \<and> os_bind os path = Inr () \<and> os_set_mode os path (6 * 8 ^ 2) = Inr ()"

text \<open>The effects before the socket is bound.\<close>

definition quiet :: "os_effect \<Rightarrow> bool" where
  "quiet ev \<longleftrightarrow> (case ev of CreatedDirs _ \<Rightarrow> True | RemovedFile _ \<Rightarrow> True | BoundSocket _ \<Rightarrow> True | _ \<Rightarrow> False)"

lemma owner_only_quiet: "list_all quiet es \<Longrightarrow> owner_only m es"
  by (induction es arbitrary: m) (auto simp: quiet_def split: os_effect.splits)

lemma owner_only_append:
  "list_all quiet es \<Longrightarrow> (\<And>m. owner_only m es') \<Longrightarrow> owner_only m (es @ es')"
  by (induction es arbitrary: m) (auto simp: quiet_def split: os_effect.splits)

lemma quiet_serves_nothing: "list_all quiet es \<Longrightarrow> ServedGuard p srv \<notin> set es"
  by (induction es) (auto simp: quiet_def)

lemma os_call_cases:
  obtains "r = Inr ()" "os_call ev r = ([ev], Inr ())" | e where "r = Inl e" "os_call ev r = ([], Inl (IoError e))"
  by (cases r) (auto simp: os_call_def)

lemma run_then_simps [simp]:
  "run_then (es, Inl e) k = (es, Inl e)"
  "run_then (es, Inr a) k = (es @ fst (k a), snd (k a))"
  by (simp_all add: run_then_def apfst_def map_prod_def split_beta)

lemma prepare_socket_path_run:
  "\<exists>es r. prepare_socket_path os path = (es, r) \<and> list_all quiet es
    \<and> (r = Inr () \<longleftrightarrow>
        (case path_parent path of Some parent \<Rightarrow> parent = [] \<or> os_create_dir_all os parent = Inr () | None \<Rightarrow> True)
        \<and> (os_remove_file os path = Inr () \<or> \<not> os_exists os path))"
  unfolding prepare_socket_path_def
  by (cases "os_remove_file os path"; cases "os_create_dir_all os (the (path_parent path))"; cases "path_parent path")
    (simp_all add: os_call_def pure_run_def quiet_def)

lemma guard_serve_cases:
  obtains (served) srv es where "guard_startup uni feature c = Inr srv" "socket_ready os (g_socket_path (c_guard c))"
      "list_all quiet es" "guard_serve os uni feature c = (es @ [ModeSet (g_socket_path (c_guard c)) owner_mode]
         @ fst (run_server os (g_socket_path (c_guard c)) srv), snd (run_server os (g_socket_path (c_guard c)) srv))"
      "\<exists>es'. es = es' @ [BoundSocket (g_socket_path (c_guard c))]"
  | (refused) e es where "guard_serve os uni feature c = (es, Inl e)" "list_all quiet es"
      "(\<exists>e. guard_startup uni feature c = Inl e) \<or> \<not> socket_ready os (g_socket_path (c_guard c))"
proof (cases "guard_startup uni feature c")
  case (Inl e)
  then have "guard_serve os uni feature c = ([], Inl e)" by (simp add: guard_serve_def pure_run_def)
  then show ?thesis using Inl by (intro refused [of "[]" e]) auto
next
  case (Inr srv)
  let ?p = "g_socket_path (c_guard c)"
  obtain es r where prep: "prepare_socket_path os ?p = (es, r)" "list_all quiet es"
    "r = Inr () \<longleftrightarrow> (case path_parent ?p of Some parent \<Rightarrow> parent = [] \<or> os_create_dir_all os parent = Inr () | None \<Rightarrow> True)
        \<and> (os_remove_file os ?p = Inr () \<or> \<not> os_exists os ?p)"
    using prepare_socket_path_run [of os ?p] by blast
  show ?thesis
  proof (cases r)
    case (Inl e)
    then show ?thesis
      using prep Inr by (intro refused [of es e]) (auto simp: guard_serve_def pure_run_def socket_ready_def)
  next
    case ok: (Inr u)
    show ?thesis
    proof (cases "os_bind os ?p")
      case (Inl e)
      then show ?thesis
        using prep Inr ok by (intro refused [of es "IoError e"]) (auto simp: guard_serve_def pure_run_def socket_ready_def os_call_def)
    next
      case bound: (Inr _)
      show ?thesis
      proof (cases "os_set_mode os ?p owner_mode")
        case (Inl e)
        then show ?thesis
          using prep Inr ok bound by (intro refused [of "es @ [BoundSocket ?p]" "IoError e"])
            (auto simp: guard_serve_def pure_run_def socket_ready_def os_call_def quiet_def Let_def)
      next
        case (Inr _)
        then show ?thesis
          using prep \<open>guard_startup uni feature c = Inr srv\<close> ok bound
          by (intro served [of srv "es @ [BoundSocket ?p]"])
            (auto simp: guard_serve_def pure_run_def socket_ready_def os_call_def quiet_def Let_def)
      qed
    qed
  qed
qed

lemma run_server_owner_only: "m path = Some owner_mode \<Longrightarrow> owner_only m (fst (run_server os path srv))"
  by (cases "os_remove_file os path"; cases "os_watchdog os") (simp_all add: run_server_def spawn_watchdog_def)

lemma run_server_serves:
  "ServedGuard p srv' \<in> set (fst (run_server os path srv)) \<longleftrightarrow> p = path \<and> srv' = srv"
  by (cases "os_remove_file os path"; cases "os_watchdog os") (auto simp: run_server_def spawn_watchdog_def)

lemma run_server_ends: "exit_of (snd (run_server os path srv)) = ExitSuccess \<longleftrightarrow> os_server_end os = Inr ()"
  by (cases "os_server_end os") (simp_all add: run_server_def exit_of_def)

lemma guard_serve_run:
  fixes c path
  defines "path \<equiv> g_socket_path (c_guard c)"
  shows "owner_only Map.empty (fst (guard_serve os uni feature c))
    \<and> (ServedGuard p srv \<in> set (fst (guard_serve os uni feature c)) \<longleftrightarrow>
        guard_startup uni feature c = Inr srv \<and> p = path \<and> socket_ready os path)
    \<and> (exit_of (snd (guard_serve os uni feature c)) = ExitSuccess \<longleftrightarrow>
        (\<exists>srv. guard_startup uni feature c = Inr srv) \<and> socket_ready os path \<and> os_server_end os = Inr ())"
proof (cases rule: guard_serve_cases [of uni feature c os])
  case (served srv' es)
  have o: "owner_only Map.empty (fst (guard_serve os uni feature c))"
    using served(3,4) by (auto intro!: owner_only_append run_server_owner_only)
  have s: "ServedGuard p srv \<in> set (fst (guard_serve os uni feature c)) \<longleftrightarrow> p = path \<and> srv = srv'"
    using served(3,4) by (auto simp: run_server_serves quiet_serves_nothing path_def)
  have e: "exit_of (snd (guard_serve os uni feature c)) = ExitSuccess \<longleftrightarrow> os_server_end os = Inr ()"
    using served(4) by (simp add: run_server_ends)
  show ?thesis using o s e served(1,2) by (auto simp: path_def)
next
  case (refused e es)
  then show ?thesis
    by (auto simp: owner_only_quiet quiet_serves_nothing exit_of_def path_def)
qed

text \<open>C36: The guard process serves only what is configured, on a socket whose mode is read and write for the owner and
  nothing for anyone else (six eights squared, 0600) at the moment it is served: in every run, a served socket has been bound
  and its mode then set so (between the two calls it has the mode the bind gave it); the process serves exactly when the
  configuration loads, the configured prompt and backend are there and every call on the socket
  succeeds; and it exits with success exactly when it served and the server ended without an error.\<close>
theorem guard_process_serves_locked_down:
  "owner_only Map.empty (fst (guard_main os api uni feature))
    \<and> (ServedGuard p srv \<in> set (fst (guard_main os api uni feature)) \<longleftrightarrow>
        (\<exists>c. config_load api (os_read os) (config_path (os_args os)) = Inr c
          \<and> guard_startup uni feature c = Inr srv \<and> p = g_socket_path (c_guard c) \<and> socket_ready os p))
    \<and> (snd (guard_main os api uni feature) = ExitSuccess \<longleftrightarrow>
        (\<exists>p srv. ServedGuard p srv \<in> set (fst (guard_main os api uni feature))) \<and> os_server_end os = Inr ())"
proof (cases "config_load api (os_read os) (config_path (os_args os))")
  case (Inl e)
  then show ?thesis by (simp add: guard_main_def pure_run_def exit_of_def)
next
  case (Inr c)
  then have m: "guard_main os api uni feature = apsnd exit_of (guard_serve os uni feature c)"
    by (simp add: guard_main_def pure_run_def)
  show ?thesis using Inr guard_serve_run [of os uni feature c] by (auto simp: m)
qed

section \<open>A run\<close>

lemma path_parent_examples:
  "path_parent ''/run/ctp/guard.sock'' = Some ''/run/ctp''"
  "path_parent ''guard.sock'' = Some []"
  "path_parent ''/'' = None"
  "path_parent ''a//b/.'' = Some ''a''"
  by code_simp+

end
