(* ===== verification/Kernel_Ledger.thy ===== *)
theory Kernel_Ledger
  imports Core_Config "HOL-Library.AList"
begin

text \<open>
  The per-session anomaly ledger of \<open>ctp-kernel/src/ledger.rs\<close>: the score of a session decays each
  turn, is held up by a floor once the session is tainted, grows by the flags of the turn, and
  blocks at a threshold; the table of sessions is bounded by evicting the least recently updated.

  The hash map is an association list with distinct keys, whose order stands for the unspecified
  iteration order of the map; that no result depends on it is a theorem. The lock is held for the
  whole of \<open>record\<close>, so a call is one step on the state. The specification is the history of
  each session on its own.
\<close>

section \<open>State\<close>

record ledger_params =
  lp_decay :: f64
  lp_floor :: f64
  lp_flag_weight :: f64
  lp_threshold :: f64
  lp_max_sessions :: nat

definition ledger_params_from_config :: "kernel_config \<Rightarrow> ledger_params" where
  "ledger_params_from_config c =
     \<lparr>lp_decay = k_anomaly_decay c, lp_floor = k_anomaly_floor c, lp_flag_weight = k_flag_weight c,
      lp_threshold = k_anomaly_threshold c, lp_max_sessions = k_max_sessions c\<rparr>"

record session_state =
  ss_score :: f64
  ss_tainted :: bool
  ss_last_tick :: u64

record ledger_outcome =
  lo_score :: f64
  lo_blocked :: bool

record ledger =
  l_sessions :: "(uuid \<times> session_state) list"
  l_tick :: u64

definition ledger_new :: ledger where
  "ledger_new = \<lparr>l_sessions = [], l_tick = 0\<rparr>"

text \<open>\<open>from_config\<close>: the parameters, which never change, and the state behind the lock.\<close>

definition ledger_from_config :: "kernel_config \<Rightarrow> ledger_params \<times> ledger" where
  "ledger_from_config c = (ledger_params_from_config c, ledger_new)"

section \<open>Recording a turn\<close>

text \<open>\<open>min_by_key(|(_, s)| s.last_tick)\<close>: the first of the least elements in iteration order.\<close>

fun oldest :: "(uuid \<times> session_state) list \<Rightarrow> (uuid \<times> session_state) option" where
  "oldest [] = None"
| "oldest (x # xs) =
     (case oldest xs of
        None \<Rightarrow> Some x
      | Some y \<Rightarrow> if ss_last_tick (snd x) \<le> ss_last_tick (snd y) then Some x else Some y)"

text \<open>Eviction, when the table is full and the session is new.\<close>

definition evict :: "ledger_params \<Rightarrow> uuid \<Rightarrow> (uuid \<times> session_state) list \<Rightarrow> (uuid \<times> session_state) list" where
  "evict p sid xs =
     (if map_of xs sid = None \<and> lp_max_sessions p \<le> length xs then
        (case oldest xs of Some y \<Rightarrow> AList.delete (fst y) xs | None \<Rightarrow> xs)
      else xs)"

text \<open>\<open>entry(session_id).or_insert(..)\<close>.\<close>

definition entry :: "u64 \<Rightarrow> uuid \<Rightarrow> (uuid \<times> session_state) list \<Rightarrow> session_state" where
  "entry tick sid xs =
     (case map_of xs sid of
        Some s \<Rightarrow> s
      | None \<Rightarrow> \<lparr>ss_score = f64_zero, ss_tainted = False, ss_last_tick = tick\<rparr>)"

definition decayed :: "ledger_params \<Rightarrow> session_state \<Rightarrow> f64" where
  "decayed p s =
     (if ss_tainted s then f64_max (f64_mul (ss_score s) (lp_decay p)) (lp_floor p)
      else f64_mul (ss_score s) (lp_decay p))"

definition take_turn :: "ledger_params \<Rightarrow> u64 \<Rightarrow> nat \<Rightarrow> session_state \<Rightarrow> session_state" where
  "take_turn p tick n s =
     (let d = decayed p s in
      \<lparr>ss_score = (if 0 < n then f64_add d (f64_mul (f64_of_nat n) (lp_flag_weight p)) else d),
       ss_tainted = (0 < n \<or> ss_tainted s),
       ss_last_tick = tick\<rparr>)"

definition outcome_of :: "ledger_params \<Rightarrow> f64 \<Rightarrow> ledger_outcome" where
  "outcome_of p x = \<lparr>lo_score = x, lo_blocked = f64_le (lp_threshold p) x\<rparr>"

definition record_turn :: "ledger_params \<Rightarrow> uuid \<Rightarrow> nat \<Rightarrow> ledger \<Rightarrow> ledger_outcome \<times> ledger" where
  "record_turn p sid n l =
     (let tick = l_tick l + 1;
          xs = evict p sid (l_sessions l);
          s = take_turn p tick n (entry tick sid xs)
      in (outcome_of p (ss_score s), \<lparr>l_sessions = AList.update sid s xs, l_tick = tick\<rparr>))"

text \<open>A sequence of calls, and the state it leaves.\<close>

type_synonym call = "uuid \<times> nat"

fun record_all :: "ledger_params \<Rightarrow> call list \<Rightarrow> ledger \<Rightarrow> ledger" where
  "record_all p [] l = l"
| "record_all p ((sid, n) # cs) l = record_all p cs (snd (record_turn p sid n l))"

section \<open>The specification: one session and its history\<close>

text \<open>
  What a session's score is, as a function of the flags of its own turns: the pair of the score and
  the taint, from the flags of each turn, oldest first.
\<close>

type_synonym session_abs = "f64 \<times> bool"

definition abs_session :: "session_state \<Rightarrow> session_abs" where
  "abs_session s = (ss_score s, ss_tainted s)"

definition spec_turn :: "ledger_params \<Rightarrow> nat \<Rightarrow> session_abs \<Rightarrow> session_abs" where
  "spec_turn p n a =
     (let d = (if snd a then f64_max (f64_mul (fst a) (lp_decay p)) (lp_floor p)
               else f64_mul (fst a) (lp_decay p))
      in (if 0 < n then f64_add d (f64_mul (f64_of_nat n) (lp_flag_weight p)) else d, 0 < n \<or> snd a))"

definition spec_history :: "ledger_params \<Rightarrow> nat list \<Rightarrow> session_abs" where
  "spec_history p fs = fold (spec_turn p) fs (f64_zero, False)"

definition spec_outcome :: "ledger_params \<Rightarrow> nat list \<Rightarrow> ledger_outcome" where
  "spec_outcome p fs = outcome_of p (fst (spec_history p fs))"

lemma spec_history_Nil [simp]: "spec_history p [] = (f64_zero, False)"
  by (simp add: spec_history_def)

lemma spec_history_snoc [simp]: "spec_history p (fs @ [n]) = spec_turn p n (spec_history p fs)"
  by (simp add: spec_history_def)

lemma abs_take_turn: "abs_session (take_turn p tick n s) = spec_turn p n (abs_session s)"
  by (simp add: abs_session_def take_turn_def spec_turn_def decayed_def Let_def)

lemma take_turn_tick [simp]: "ss_last_tick (take_turn p tick n s) = tick"
  by (simp add: take_turn_def Let_def)

section \<open>The table of sessions\<close>

lemma oldest_None_iff [simp]: "oldest xs = None \<longleftrightarrow> xs = []"
  by (cases xs) (auto split: option.splits)

lemma oldest_mem: "oldest xs = Some y \<Longrightarrow> y \<in> set xs"
  by (induction xs arbitrary: y) (auto split: option.splits if_splits)

lemma oldest_le: "oldest xs = Some y \<Longrightarrow> x \<in> set xs \<Longrightarrow> ss_last_tick (snd y) \<le> ss_last_tick (snd x)"
  by (induction xs arbitrary: y) (fastforce split: option.splits if_splits)+

lemma oldest_unique:
  assumes "y \<in> set xs" "\<forall>x \<in> set xs. x \<noteq> y \<longrightarrow> ss_last_tick (snd y) < ss_last_tick (snd x)"
  shows "oldest xs = Some y"
proof -
  have "xs \<noteq> []" using assms(1) by auto
  then obtain z where z: "oldest xs = Some z" by (cases "oldest xs") auto
  have "z = y"
  proof (rule ccontr)
    assume "z \<noteq> y"
    then have "ss_last_tick (snd y) < ss_last_tick (snd z)"
      using assms(2) oldest_mem [OF z] by blast
    then show False using oldest_le [OF z assms(1)] by simp
  qed
  with z show ?thesis by simp
qed

text \<open>Well-formed: keys are distinct, no two sessions share a tick, no tick is ahead of the clock.\<close>

definition ledger_wf :: "ledger \<Rightarrow> bool" where
  "ledger_wf l \<longleftrightarrow> distinct (map fst (l_sessions l))
     \<and> distinct (map (ss_last_tick \<circ> snd) (l_sessions l))
     \<and> (\<forall>x \<in> set (l_sessions l). ss_last_tick (snd x) \<le> l_tick l)"

text \<open>The calls left before the 64-bit clock wraps.\<close>

definition calls_left :: "ledger \<Rightarrow> nat" where
  "calls_left l = 2 ^ 64 - 1 - unat (l_tick l)"

lemma calls_left_new: "calls_left ledger_new = 2 ^ 64 - 1"
  by (simp add: calls_left_def ledger_new_def)

lemma tick_step:
  fixes t :: u64
  assumes "0 < 2 ^ 64 - 1 - unat t"
  shows "unat (t + 1) = Suc (unat t)" "t < t + 1"
proof -
  have "unat t + 1 < 2 ^ LENGTH(64)" using assms by simp
  then have u: "unat (t + 1) = unat t + unat (1 :: u64)"
    by (subst (asm) unat_1 [symmetric, where 'a = 64]) (simp add: unat_word_ariths)
  then show "unat (t + 1) = Suc (unat t)" by simp
  then show "t < t + 1" by (simp add: word_less_nat_alt)
qed

lemma record_turn_tick [simp]: "l_tick (snd (record_turn p sid n l)) = l_tick l + 1"
  by (simp add: record_turn_def Let_def)

lemma calls_left_step: "0 < calls_left l \<Longrightarrow> calls_left (snd (record_turn p sid n l)) = calls_left l - 1"
  using tick_step(1) [of "l_tick l"] by (simp add: calls_left_def)

lemma map_of_delete_eq: "map_of (AList.delete k xs) = (map_of xs)(k := None)"
  by (rule ext) (simp add: delete_conv)

lemma map_of_update_eq: "map_of (AList.update k v xs) = (map_of xs)(k \<mapsto> v)"
  by (rule ext) (simp add: update_conv)

lemma evict_subset: "set (evict p sid xs) \<subseteq> set xs"
  by (auto simp: evict_def AList.delete_eq split: option.splits)

lemma evict_own [simp]: "map_of (evict p sid xs) sid = map_of xs sid"
proof (cases "map_of xs sid")
  case None
  then have "map_of (AList.delete k xs) sid = None" for k
    by (simp add: map_of_delete_eq)
  with None show ?thesis by (simp add: evict_def split: option.splits)
next
  case (Some s)
  then show ?thesis by (simp add: evict_def)
qed

lemma evict_room: "map_of xs sid \<noteq> None \<or> length xs < lp_max_sessions p \<Longrightarrow> evict p sid xs = xs"
  by (auto simp: evict_def)

lemma distinct_delete_vals:
  "distinct (map (g \<circ> snd) xs) \<Longrightarrow> distinct (map (g \<circ> snd) (AList.delete k xs))"
  by (simp add: AList.delete_eq distinct_map_filter)

lemma distinct_evict:
  assumes "distinct (map fst xs)"
  shows "distinct (map fst (evict p sid xs))"
  using assms by (auto simp: evict_def distinct_delete split: option.splits)

lemma distinct_ticks_evict:
  assumes "distinct (map (ss_last_tick \<circ> snd) xs)"
  shows "distinct (map (ss_last_tick \<circ> snd) (evict p sid xs))"
  using distinct_delete_vals [OF assms] assms by (auto simp: evict_def split: option.splits)

lemma set_update_subset: "set (AList.update k v xs) \<subseteq> insert (k, v) (set xs)"
  by (induction xs) auto

lemma distinct_ticks_update:
  assumes "distinct (map (ss_last_tick \<circ> snd) xs)" "ss_last_tick v \<notin> ss_last_tick ` snd ` set xs"
  shows "distinct (map (ss_last_tick \<circ> snd) (AList.update k v xs))"
  using assms
proof (induction xs)
  case (Cons x xs)
  then show ?case
    using set_update_subset [of k v xs] by (cases x) (force simp: image_iff)
qed simp

lemma record_turn_wf [wf_intros]:
  assumes "ledger_wf l" "0 < calls_left l"
  shows "ledger_wf (snd (record_turn p sid n l))"
proof -
  let ?t = "l_tick l + 1" and ?xs = "evict p sid (l_sessions l)"
  have lt: "l_tick l < ?t" using tick_step(2) assms(2) by (simp add: calls_left_def)
  have old: "ss_last_tick (snd x) < ?t" if "x \<in> set ?xs" for x
    using that evict_subset assms(1) lt by (fastforce simp: ledger_wf_def)
  then have fresh: "?t \<notin> ss_last_tick ` snd ` set ?xs" by (force dest: old)
  have "ss_last_tick (snd x) \<le> ?t"
    if "x \<in> set (AList.update sid (take_turn p ?t n (entry ?t sid ?xs)) ?xs)" for x
    using that set_update_subset old by (fastforce dest: old less_imp_le)
  then show ?thesis
    using assms(1) fresh
    by (simp add: ledger_wf_def record_turn_def Let_def distinct_update distinct_evict
        distinct_ticks_update distinct_ticks_evict)
qed

lemma ledger_new_wf [wf_intros]: "ledger_wf ledger_new"
  by (simp add: ledger_wf_def ledger_new_def)

text \<open>The abstraction: what the table holds of each session.\<close>

definition session_of :: "ledger \<Rightarrow> uuid \<Rightarrow> session_abs option" where
  "session_of l sid = map_option abs_session (map_of (l_sessions l) sid)"

definition abs_of :: "session_abs option \<Rightarrow> session_abs" where
  "abs_of a = (case a of Some x \<Rightarrow> x | None \<Rightarrow> (f64_zero, False))"

lemma abs_entry: "abs_session (entry t sid xs) = abs_of (map_option abs_session (map_of xs sid))"
  by (auto simp: entry_def abs_of_def abs_session_def split: option.splits)

lemma record_turn_own:
  "session_of (snd (record_turn p sid n l)) sid = Some (spec_turn p n (abs_of (session_of l sid)))"
  by (simp add: record_turn_def session_of_def Let_def map_of_update_eq abs_take_turn abs_entry)

lemma record_turn_outcome:
  "fst (record_turn p sid n l) = outcome_of p (fst (spec_turn p n (abs_of (session_of l sid))))"
proof -
  have "ss_score s = fst (abs_session s)" for s by (simp add: abs_session_def)
  then show ?thesis
    by (simp add: record_turn_def session_of_def Let_def abs_take_turn abs_entry)
qed

lemma card_dom_sessions: "ledger_wf l \<Longrightarrow> card (dom (session_of l)) = length (l_sessions l)"
proof -
  assume "ledger_wf l"
  moreover have "dom (session_of l) = fst ` set (l_sessions l)"
    by (auto simp: session_of_def dom_map_of_conv_image_fst [symmetric] dom_def)
  ultimately show ?thesis
    by (simp add: ledger_wf_def distinct_card flip: set_map)
qed

lemma finite_dom_session_of: "finite (dom (session_of l))"
  by (rule finite_subset [of _ "fst ` set (l_sessions l)"])
    (auto simp: session_of_def dom_def dest: map_of_SomeD intro: rev_image_eqI)

lemma record_turn_other:
  assumes "ledger_wf l" "sid' \<noteq> sid"
    and "session_of l sid \<noteq> None \<or> card (dom (session_of l)) < lp_max_sessions p"
  shows "session_of (snd (record_turn p sid n l)) sid' = session_of l sid'"
proof -
  have "evict p sid (l_sessions l) = l_sessions l"
    using assms(1,3) by (intro evict_room) (auto simp: card_dom_sessions session_of_def)
  then show ?thesis
    using assms(2) by (simp add: record_turn_def session_of_def Let_def map_of_update_eq)
qed

section \<open>The contract of a bounded store of sessions\<close>

text \<open>The flags of one session's own turns in a sequence of calls.\<close>

definition own_flags :: "uuid \<Rightarrow> call list \<Rightarrow> nat list" where
  "own_flags sid cs = map snd (filter (\<lambda>c. fst c = sid) cs)"

lemma own_flags_snoc [simp]:
  "own_flags sid (cs @ [(i, n)]) = (if i = sid then own_flags sid cs @ [n] else own_flags sid cs)"
  by (simp add: own_flags_def)

lemma own_flags_Nil_iff: "own_flags sid cs = [] \<longleftrightarrow> sid \<notin> fst ` set cs"
  by (auto simp: own_flags_def filter_empty_conv)

locale session_store =
  fixes rec_state :: "uuid \<Rightarrow> nat \<Rightarrow> 's \<Rightarrow> 's"
    and view :: "'s \<Rightarrow> uuid \<Rightarrow> 'a option"
    and turn :: "nat \<Rightarrow> 'a \<Rightarrow> 'a"
    and fresh :: 'a
    and cap :: nat
    and ok :: "'s \<Rightarrow> bool"
    and budget :: "'s \<Rightarrow> nat"
  assumes own: "view (rec_state sid n s) sid = Some (turn n (case view s sid of Some a \<Rightarrow> a | None \<Rightarrow> fresh))"
    and other: "ok s \<Longrightarrow> sid' \<noteq> sid \<Longrightarrow> view s sid \<noteq> None \<or> card (dom (view s)) < cap
      \<Longrightarrow> view (rec_state sid n s) sid' = view s sid'"
    and keeps_ok: "ok s \<Longrightarrow> 0 < budget s \<Longrightarrow> ok (rec_state sid n s)"
    and budget_step: "0 < budget s \<Longrightarrow> budget (rec_state sid n s) = budget s - 1"
begin

abbreviation run :: "call list \<Rightarrow> 's \<Rightarrow> 's" where
  "run cs s \<equiv> fold (\<lambda>c s. rec_state (fst c) (snd c) s) cs s"

lemma run_ok: "ok s \<Longrightarrow> length cs \<le> budget s \<Longrightarrow> ok (run cs s) \<and> budget (run cs s) = budget s - length cs"
proof (induction cs arbitrary: s)
  case (Cons c cs)
  then have "0 < budget s" by simp
  with Cons show ?case by (simp add: keeps_ok budget_step)
qed simp

text \<open>As long as all sessions fit, the store holds of each session the fold of its own history.\<close>

lemma run_history:
  assumes "ok s" "view s = Map.empty" "length cs \<le> budget s" "card (fst ` set cs) \<le> cap"
  shows "view (run cs s) sid =
    (if own_flags sid cs = [] then None else Some (fold turn (own_flags sid cs) fresh))"
  using assms(3,4)
proof (induction cs arbitrary: sid rule: rev_induct)
  case Nil
  then show ?case using assms(2) by (simp add: own_flags_def)
next
  case (snoc c cs)
  obtain i n where c: "c = (i, n)" by (cases c)
  have le: "card (fst ` set cs) \<le> cap"
    using snoc.prems(2) card_mono [of "insert i (fst ` set cs)" "fst ` set cs"] by (simp add: c subset_insertI)
  have IH: "view (run cs s) sid =
    (if own_flags sid cs = [] then None else Some (fold turn (own_flags sid cs) fresh))" for sid
    using snoc.prems le by (intro snoc.IH) simp_all
  have okr: "ok (run cs s)" using run_ok [OF assms(1)] snoc.prems by simp
  have dom: "dom (view (run cs s)) = fst ` set cs"
    by (auto simp: dom_def IH own_flags_Nil_iff split: if_splits)
  show ?case
  proof (cases "i = sid")
    case True
    then show ?thesis by (simp add: c own IH)
  next
    case False
    have "view (run cs s) i \<noteq> None \<or> card (dom (view (run cs s))) < cap"
    proof (cases "i \<in> fst ` set cs")
      case True
      then have "i \<in> dom (view (run cs s))" unfolding dom .
      then show ?thesis by (simp only: domIff) simp
    next
      case False
      then have "Suc (card (fst ` set cs)) = card (fst ` set (cs @ [c]))" by (simp add: c)
      with snoc.prems(2) have "card (fst ` set cs) < cap" by linarith
      then show ?thesis unfolding dom by blast
    qed
    with False okr show ?thesis by (simp add: c other IH)
  qed
qed

text \<open>The next turn of a session sees only that session's own history.\<close>

lemma next_turn:
  assumes "ok s" "view s = Map.empty" "length cs \<le> budget s" "card (fst ` set cs) \<le> cap"
  shows "turn n (case view (run cs s) sid of Some a \<Rightarrow> a | None \<Rightarrow> fresh)
    = fold turn (own_flags sid cs @ [n]) fresh"
  using run_history [OF assms] by simp

end

interpretation store: session_store "\<lambda>sid n l. snd (record_turn p sid n l)" session_of "spec_turn p"
  "(f64_zero, False)" "lp_max_sessions p" ledger_wf calls_left for p
proof unfold_locales
qed (use record_turn_own in \<open>auto simp: abs_of_def record_turn_other record_turn_wf calls_left_step
  split: option.splits\<close>)

lemma record_all_fold: "record_all p cs l = fold (\<lambda>c l. snd (record_turn p (fst c) (snd c) l)) cs l"
  by (induction cs arbitrary: l) auto

lemma session_of_new: "session_of ledger_new = Map.empty"
  by (rule ext) (simp add: session_of_def ledger_new_def)

section \<open>Scores\<close>

text \<open>
  The parameters a validated configuration yields: all are doubles, the weight is a number. A NaN
  weight passes validation and is treated apart.
\<close>

definition params_ok :: "ledger_params \<Rightarrow> bool" where
  "params_ok p \<longleftrightarrow> f64_lt f64_zero (lp_threshold p)
     \<and> f64_lt f64_zero (lp_decay p) \<and> f64_le (lp_decay p) (Fin 1)
     \<and> f64_ge0 (lp_flag_weight p) \<and> f64_ge0 (lp_floor p) \<and> f64_lt (lp_floor p) (lp_threshold p)
     \<and> f64_ok (lp_decay p) \<and> f64_ok (lp_flag_weight p) \<and> f64_ok (lp_floor p)"

lemma params_ok_from_config:
  assumes "kernel_valid k" "k_flag_weight k \<noteq> NaN"
    and "f64_ok (k_anomaly_decay k)" "f64_ok (k_flag_weight k)" "f64_ok (k_anomaly_floor k)"
  shows "params_ok (ledger_params_from_config k)"
  using assms by (simp add: params_ok_def ledger_params_from_config_def kernel_valid_def)

lemma params_decay:
  assumes "params_ok p"
  obtains d where "lp_decay p = Fin d" "0 < d" "d \<le> 1"
  using assms by (cases "lp_decay p") (auto simp: params_ok_def f64_zero_def)

definition score_ok :: "f64 \<Rightarrow> bool" where
  "score_ok x \<longleftrightarrow> f64_ok x \<and> f64_ge0 x"

definition decay_part :: "ledger_params \<Rightarrow> session_abs \<Rightarrow> f64" where
  "decay_part p a = (if snd a then f64_max (f64_mul (fst a) (lp_decay p)) (lp_floor p)
                     else f64_mul (fst a) (lp_decay p))"

definition flags_part :: "ledger_params \<Rightarrow> nat \<Rightarrow> f64" where
  "flags_part p n = f64_mul (f64_of_nat n) (lp_flag_weight p)"

lemma fst_spec_turn:
  "fst (spec_turn p n a) = (if 0 < n then f64_add (decay_part p a) (flags_part p n) else decay_part p a)"
  by (simp add: spec_turn_def decay_part_def flags_part_def Let_def)

lemma snd_spec_turn [simp]: "snd (spec_turn p n a) \<longleftrightarrow> 0 < n \<or> snd a"
  by (simp add: spec_turn_def Let_def)

lemma f64_of_nat_pos: "0 < n \<Longrightarrow> f64_le (Fin 1) (f64_of_nat n)"
proof -
  assume "0 < n"
  moreover have "to_f64 1 = Fin 1" by code_simp
  then have "f64_of_nat 1 = Fin 1" by (simp add: f64_of_nat_def)
  ultimately show ?thesis using f64_of_nat_mono [of 1 n] by simp
qed

text \<open>A flag count is a \<open>usize\<close>, so it converts to a finite double.\<close>

abbreviation is_usize :: "nat \<Rightarrow> bool" where
  "is_usize n \<equiv> n < 2 ^ 64"

definition usizes :: "nat list \<Rightarrow> bool" where
  "usizes fs \<longleftrightarrow> (\<forall>n \<in> set fs. is_usize n)"

lemma usizes_simps [simp]:
  "usizes []"
  "usizes (n # fs) \<longleftrightarrow> is_usize n \<and> usizes fs"
  "usizes (fs @ gs) \<longleftrightarrow> usizes fs \<and> usizes gs"
  by (auto simp: usizes_def)

lemma f64_of_nat_usize:
  assumes "is_usize n"
  obtains x where "f64_of_nat n = Fin x"
proof -
  have "to_f64 18446744073709551616 = Fin 18446744073709551616" by code_simp
  then have "f64_of_nat (2 ^ 64) = Fin (2 ^ 64)" by (simp add: f64_of_nat_def)
  then have "f64_le (f64_of_nat n) (Fin (2 ^ 64))"
    using f64_of_nat_mono [of n "2 ^ 64"] assms by simp
  then show thesis
    using that f64_of_nat_ge0 [of n] by (cases "f64_of_nat n") (auto simp: f64_zero_def)
qed

lemma flags_part_ge0:
  assumes "params_ok p" "0 < n" "is_usize n"
  shows "f64_ge0 (flags_part p n)"
proof -
  have w: "f64_ge0 (lp_flag_weight p)" using assms by (simp add: params_ok_def)
  obtain x where x: "f64_of_nat n = Fin x" by (rule f64_of_nat_usize [OF assms(3)])
  have "f64_mul (f64_of_nat n) (lp_flag_weight p) \<noteq> NaN"
    using f64_of_nat_pos [OF assms(2)] w x
    by (cases "lp_flag_weight p") (auto simp: f64_zero_def inf_of_sgn_def)
  then show ?thesis using w by (simp add: flags_part_def f64_mul_ge0 f64_of_nat_ge0)
qed

lemma f64_ge0_not_NaN: "f64_ge0 x \<Longrightarrow> x \<noteq> NaN"
  by (auto dest: f64_le_not_NaN)

lemma f64_ge0_NaN [simp]: "\<not> f64_ge0 NaN"
  by (auto dest: f64_ge0_not_NaN)

lemma flags_part_ok: "params_ok p \<Longrightarrow> f64_ok (flags_part p n)"
  by (simp add: flags_part_def f64_mul_ok f64_of_nat_ok params_ok_def)

lemma decay_part_ok:
  assumes "params_ok p" "score_ok (fst a)"
  shows "score_ok (decay_part p a)"
proof -
  obtain d where d: "lp_decay p = Fin d" "0 < d" by (rule params_decay [OF assms(1)])
  have m: "score_ok (f64_mul (fst a) (lp_decay p))"
    using assms d by (simp add: score_ok_def params_ok_def f64_mul_ok f64_scale_ge0)
  moreover have "f64_ge0 (f64_max (f64_mul (fst a) (lp_decay p)) (lp_floor p))"
    by (rule f64_le_trans [OF _ f64_max_ge2]) (use assms in \<open>auto simp: params_ok_def dest: f64_le_not_NaN\<close>)
  ultimately show ?thesis
    using assms by (simp add: score_ok_def decay_part_def params_ok_def f64_max_ok)
qed

lemma spec_turn_ok [wf_intros]:
  assumes "params_ok p" "score_ok (fst a)" "is_usize n"
  shows "score_ok (fst (spec_turn p n a))"
  using decay_part_ok [OF assms(1,2)] flags_part_ge0 [OF assms(1) _ assms(3)] flags_part_ok [OF assms(1)]
  by (auto simp: fst_spec_turn score_ok_def f64_add_ok f64_add_ge0)

lemma score_ok_zero [simp]: "score_ok f64_zero"
  by (simp add: score_ok_def f64_zero_def f64_max_finite_bound_def r53.zero)

lemma spec_history_ok: "params_ok p \<Longrightarrow> usizes fs \<Longrightarrow> score_ok (fst (spec_history p fs))"
  by (induction fs rule: rev_induct) (auto simp: spec_turn_ok)

lemma spec_history_tainted [simp]: "snd (spec_history p fs) \<longleftrightarrow> (\<exists>n \<in> set fs. 0 < n)"
  by (induction fs rule: rev_induct) auto

text \<open>The flags of a turn never lower the score, nor does the past lower what they add.\<close>

lemma f64_add_comm: "f64_add a b = f64_add b a"
  by (cases a; cases b) (auto simp: add.commute)

lemma f64_add_grows: "score_ok a \<Longrightarrow> f64_ge0 b \<Longrightarrow> f64_le a (f64_add a b)"
  unfolding score_ok_def by (intro f64_add_ge) (simp_all add: f64_ge0_not_NaN f64_add_ge0)

lemma spec_turn_ge_decay:
  assumes "params_ok p" "score_ok (fst a)" "is_usize n"
  shows "f64_le (decay_part p a) (fst (spec_turn p n a))"
proof (cases "0 < n")
  case True
  have "score_ok (decay_part p a)" by (rule decay_part_ok [OF assms(1,2)])
  from f64_add_grows [OF this flags_part_ge0 [OF assms(1) True assms(3)]] True show ?thesis
    by (simp add: fst_spec_turn)
next
  case False
  then show ?thesis using decay_part_ok [OF assms(1,2)]
    by (simp add: fst_spec_turn score_ok_def f64_ge0_not_NaN f64_le_refl)
qed

lemma spec_turn_ge_flags:
  assumes "params_ok p" "score_ok (fst a)" "0 < n" "is_usize n"
  shows "f64_le (flags_part p n) (fst (spec_turn p n a))"
proof -
  have "score_ok (decay_part p a)" by (rule decay_part_ok [OF assms(1,2)])
  then have "f64_ge0 (decay_part p a)" by (simp add: score_ok_def)
  moreover have "score_ok (flags_part p n)"
    using flags_part_ge0 [OF assms(1,3,4)] flags_part_ok [OF assms(1)] by (simp add: score_ok_def)
  ultimately show ?thesis
    using assms(3) unfolding fst_spec_turn f64_add_comm [of "decay_part p a"] by (simp add: f64_add_grows)
qed

lemma decay_part_mono:
  assumes "params_ok p" "f64_le (fst a) (fst b)" "snd a \<longrightarrow> snd b"
  shows "f64_le (decay_part p a) (decay_part p b)"
proof -
  obtain d where d: "lp_decay p = Fin d" "0 < d" by (rule params_decay [OF assms(1)])
  have m: "f64_le (f64_mul (fst a) (lp_decay p)) (f64_mul (fst b) (lp_decay p))"
    using assms(2) d by (simp add: f64_scale_mono)
  moreover have "f64_le (lp_floor p) (lp_floor p)"
    using assms(1) by (auto simp: params_ok_def intro!: f64_le_refl f64_ge0_not_NaN)
  ultimately show ?thesis
    using assms(3) unfolding decay_part_def
    by (auto intro: f64_max_mono f64_le_trans [OF m] f64_max_ge1 dest: f64_le_not_NaN)
qed

lemma spec_turn_mono:
  assumes "params_ok p" "f64_le (fst a) (fst b)" "snd a \<longrightarrow> snd b" "m \<le> n"
    and "score_ok (fst a)" "score_ok (fst b)" "is_usize n"
  shows "f64_le (fst (spec_turn p m a)) (fst (spec_turn p n b))"
proof (cases "0 < m")
  case True
  then have n: "0 < n" and m: "is_usize m" using assms(4,7) by simp_all
  note ge = flags_part_ge0 [OF assms(1) True m] flags_part_ge0 [OF assms(1) n assms(7)]
  have "f64_le (flags_part p m) (flags_part p n)"
    unfolding flags_part_def
    by (rule f64_mul_nat_mono [OF assms(4)])
      (use assms(1) ge in \<open>auto simp: params_ok_def flags_part_def dest: f64_ge0_not_NaN\<close>)
  then show ?thesis
    using True n decay_part_mono [OF assms(1-3)] decay_part_ok [OF assms(1,5)] ge
    by (simp add: fst_spec_turn f64_add_mono score_ok_def)
next
  case False
  then have "f64_le (fst (spec_turn p m a)) (decay_part p b)"
    using decay_part_mono [OF assms(1-3)] by (simp add: fst_spec_turn)
  then show ?thesis by (rule f64_le_trans [OF _ spec_turn_ge_decay [OF assms(1,6,7)]])
qed

lemma spec_history_mono:
  assumes "params_ok p" "list_all2 (\<le>) fs gs" "usizes gs"
  shows "f64_le (fst (spec_history p fs)) (fst (spec_history p gs))"
  using assms(2,3)
proof (induction fs arbitrary: gs rule: rev_induct)
  case (snoc m fs)
  then obtain hs n where gs: "gs = hs @ [n]" "list_all2 (\<le>) fs hs" "m \<le> n"
    by (auto simp: list_all2_append1 list_all2_Cons1)
  have t: "(\<exists>x \<in> set fs. 0 < x) \<longrightarrow> (\<exists>x \<in> set hs. 0 < x)" and u: "usizes hs \<longrightarrow> usizes fs"
    using gs(2) by (induction rule: list_all2_induct) auto
  with gs snoc.IH [OF gs(2)] snoc.prems(2) show ?case
    by (simp add: spec_turn_mono [OF assms(1)] spec_history_ok [OF assms(1)])
qed (simp add: f64_zero_def)

section \<open>Properties\<close>

lemma calls_left_usize: "length cs < 2 ^ 64 \<Longrightarrow> length cs \<le> calls_left ledger_new"
  by (simp add: calls_left_new)

lemma record_outcome_history:
  assumes "length cs < 2 ^ 64" "card (fst ` set cs) \<le> lp_max_sessions p"
  shows "fst (record_turn p sid n (record_all p cs ledger_new)) = spec_outcome p (own_flags sid cs @ [n])"
  using store.next_turn [OF ledger_new_wf session_of_new calls_left_usize [OF assms(1)] assms(2), of n sid]
  by (simp add: record_turn_outcome spec_outcome_def spec_history_def record_all_fold abs_of_def)

text \<open>C14: As long as all sessions fit in the table, the outcome of a call is a function of that
  session's own turns alone: whatever other sessions did in between, in whatever order, the score
  and the blocking of \<open>record\<close> are those of the specification on the session's own flags.\<close>
theorem ledger_refines_history:
  assumes "length cs < 2 ^ 64" "card (fst ` set cs) \<le> lp_max_sessions p"
  shows "fst (record_turn p sid n (record_all p cs ledger_new)) = spec_outcome p (own_flags sid cs @ [n])"
  by (rule record_outcome_history [OF assms])

definition example_params :: ledger_params where
  "example_params = \<lparr>lp_decay = Fin (1 / 2), lp_floor = Fin (1 / 2), lp_flag_weight = Fin 1,
     lp_threshold = Fin (6 / 5), lp_max_sessions = 4\<rparr>"

theorem ledger_refines_history_witness:
  "fst (record_turn example_params 1 2 (record_all example_params [(1, 1), (2, 0), (1, 0)] ledger_new))
     = spec_outcome example_params [1, 0, 2]"
proof -
  have "card (set [1 :: uuid, 2, 1]) \<le> 4" using card_length [of "[1 :: uuid, 2, 1]"] by simp
  then show ?thesis
    using ledger_refines_history [of "[(1, 1), (2, 0), (1, 0)]" example_params 1 2]
    by (simp add: example_params_def own_flags_def)
qed

lemma example_params_ok: "params_ok example_params"
  by (simp add: params_ok_def example_params_def f64_zero_def) code_simp

lemma benign_history:
  assumes "params_ok p" "set fs \<subseteq> {0}"
  shows "fst (spec_history p fs) = f64_zero"
  using assms(2)
proof (induction fs rule: rev_induct)
  case (snoc n fs)
  obtain d where d: "lp_decay p = Fin d" by (rule params_decay [OF assms(1)])
  have "\<not> (\<exists>m \<in> set fs. 0 < m)" "n = 0" using snoc.prems by auto
  then show ?case
    using snoc d unfolding spec_history_snoc fst_spec_turn decay_part_def spec_history_tainted
    by (auto simp: f64_zero_def)
qed simp

text \<open>A session that never raises a flag keeps the score zero and is never blocked, in every
  validated configuration and for any number of turns.\<close>
theorem benign_session_never_blocked:
  assumes "params_ok p" "set fs \<subseteq> {0}"
  shows "spec_outcome p fs = \<lparr>lo_score = f64_zero, lo_blocked = False\<rparr>"
proof -
  have "\<not> f64_le (lp_threshold p) f64_zero"
    using assms(1) by (cases "lp_threshold p") (auto simp: params_ok_def f64_zero_def)
  then show ?thesis by (simp add: spec_outcome_def outcome_of_def benign_history [OF assms])
qed

theorem benign_session_never_blocked_witness:
  "spec_outcome example_params [0, 0, 0] = \<lparr>lo_score = f64_zero, lo_blocked = False\<rparr>"
  using benign_session_never_blocked [OF example_params_ok, of "[0, 0, 0]"] by simp

text \<open>Raising more flags never lowers the score and never lifts a block: turn by turn larger
  flag counts give a score at least as high, so a session blocked on some history is blocked
  on every history with at least its flags.\<close>
theorem ledger_monotone_in_flags:
  assumes "params_ok p" "list_all2 (\<le>) fs gs" "usizes gs"
  shows "f64_le (lo_score (spec_outcome p fs)) (lo_score (spec_outcome p gs))
    \<and> (lo_blocked (spec_outcome p fs) \<longrightarrow> lo_blocked (spec_outcome p gs))"
  using spec_history_mono [OF assms] by (auto simp: spec_outcome_def outcome_of_def intro: f64_le_trans)

theorem ledger_monotone_in_flags_witness:
  "f64_le (lo_score (spec_outcome example_params [1, 0, 1])) (lo_score (spec_outcome example_params [1, 0, 2]))"
  using ledger_monotone_in_flags [OF example_params_ok, of "[1, 0, 1]" "[1, 0, 2]"] by simp

text \<open>Enough flags in one turn block at once: if the weight of the turn's flags reaches the
  threshold the call blocks, whatever the history of the session.\<close>
theorem heavy_turn_blocks:
  assumes "params_ok p" "usizes (fs @ [n])" "0 < n"
    and "f64_le (lp_threshold p) (f64_mul (f64_of_nat n) (lp_flag_weight p))"
  shows "lo_blocked (spec_outcome p (fs @ [n]))"
  using spec_turn_ge_flags [OF assms(1) spec_history_ok [OF assms(1)] assms(3)] assms(2,4)
  by (auto simp: spec_outcome_def outcome_of_def flags_part_def intro: f64_le_trans)

theorem heavy_turn_blocks_witness: "lo_blocked (spec_outcome example_params ([0, 0] @ [2]))"
proof -
  have "to_f64 2 = Fin 2" by code_simp
  then show ?thesis
    using heavy_turn_blocks [OF example_params_ok, of "[0, 0]" 2]
    by (simp add: example_params_def f64_of_nat_def)
qed

subsection \<open>What the shipped defaults detect\<close>

definition default_params :: ledger_params where
  "default_params = \<lparr>lp_decay = default_anomaly_decay, lp_floor = default_anomaly_floor,
     lp_flag_weight = default_flag_weight, lp_threshold = default_anomaly_threshold,
     lp_max_sessions = default_max_sessions\<rparr>"

lemmas default_simps = default_anomaly_decay_def default_anomaly_floor_def default_flag_weight_def
  default_anomaly_threshold_def default_max_sessions_def

lemma default_kernel_params:
  "de_kernel api (TomlTable []) = Inr k \<Longrightarrow> ledger_params_from_config k = default_params"
  by (auto simp: de_kernel_def field_def default_params_def ledger_params_from_config_def)

lemma default_params_ok: "params_ok default_params"
  by (simp add: params_ok_def default_params_def default_simps f64_zero_def) code_simp

lemma to_f64_small: "to_f64 1 = Fin 1" "to_f64 2 = Fin 2" "to_f64 (1 / 2) = Fin (1 / 2)"
  by code_simp+

lemma default_flags_part: "n \<le> 2 \<Longrightarrow> f64_le (flags_part default_params n) (Fin 1)"
proof -
  assume "n \<le> 2"
  then consider "n = 0" | "n = 1" | "n = 2" by linarith
  then show ?thesis
    by cases (simp_all add: flags_part_def default_params_def default_simps f64_of_nat_def to_f64_small)
qed

lemma default_drip:
  assumes "\<forall>n \<in> set fs. n \<le> 2"
  shows "f64_le (fst (spec_history default_params fs)) (Fin 2)"
  using assms
proof (induction fs rule: rev_induct)
  case (snoc n fs)
  let ?a = "spec_history default_params fs"
  have us: "usizes fs" "is_usize n" using snoc.prems by (auto simp: usizes_def)
  have "f64_le (f64_mul (fst ?a) (Fin (1 / 2))) (f64_mul (Fin 2) (Fin (1 / 2)))"
    using snoc by (intro f64_scale_mono) simp_all
  then have "f64_le (f64_mul (fst ?a) (Fin (1 / 2))) (Fin 1)" by (simp add: to_f64_small)
  then have d: "f64_le (decay_part default_params ?a) (Fin 1)"
    by (simp add: decay_part_def default_params_def default_simps f64_max_least)
  show ?case
  proof (cases "0 < n")
    case True
    have "f64_le (f64_add (decay_part default_params ?a) (flags_part default_params n)) (f64_add (Fin 1) (Fin 1))"
      using d default_flags_part [of n] snoc.prems True us
        decay_part_ok [OF default_params_ok spec_history_ok [OF default_params_ok us(1)]]
        flags_part_ge0 [OF default_params_ok True us(2)]
      by (intro f64_add_mono) (auto simp: score_ok_def)
    then show ?thesis using True by (simp add: fst_spec_turn to_f64_small)
  next
    case False
    then show ?thesis using d f64_le_trans [OF d, of "Fin 2"] by (simp add: fst_spec_turn)
  qed
qed (simp add: f64_zero_def)

text \<open>Under the shipped defaults of the kernel section (decay 0.5, weight 0.5, threshold 3) a
  session that raises one or two advisory flags on every turn is never blocked, however long it
  goes on: the score stays at or below 2.\<close>
theorem default_slow_drip_never_blocks:
  assumes "de_kernel api (TomlTable []) = Inr k" "\<forall>n \<in> set fs. n \<le> 2"
  shows "\<not> lo_blocked (spec_outcome (ledger_params_from_config k) fs)"
  using default_drip [OF assms(2)]
  by (cases "fst (spec_history default_params fs)")
    (auto simp: default_kernel_params [OF assms(1)] spec_outcome_def outcome_of_def
      default_params_def default_simps)

theorem default_slow_drip_never_blocks_witness:
  "\<exists>k. de_kernel api (TomlTable []) = Inr k
     \<and> \<not> lo_blocked (spec_outcome (ledger_params_from_config k) [1, 1, 2, 1, 2])"
proof -
  have "\<exists>k. de_kernel api (TomlTable []) = Inr k" by (simp add: de_kernel_def field_def)
  then obtain k where "de_kernel api (TomlTable []) = Inr k" ..
  with default_slow_drip_never_blocks [of api k "[1, 1, 2, 1, 2]"] show ?thesis by auto
qed

subsection \<open>A weight that is not a number\<close>

lemma nan_weight_history:
  assumes "kernel_valid k" "k_flag_weight k = NaN" "f64_ok (k_anomaly_floor k)"
    and "p = ledger_params_from_config k"
  shows "fst (spec_history p fs) \<in> {NaN, f64_zero, lp_floor p}
    \<and> (snd (spec_history p fs) \<or> fst (spec_history p fs) = f64_zero)"
proof (induction fs rule: rev_induct)
  case (snoc n fs)
  let ?a = "spec_history p fs"
  obtain d where d: "lp_decay p = Fin d" "0 < d" "d \<le> 1"
    using assms by (cases "k_anomaly_decay k")
      (auto simp: kernel_valid_def ledger_params_from_config_def f64_zero_def)
  obtain f where f: "lp_floor p = Fin f" "0 \<le> f" "f64_ok (Fin f)"
    using assms by (cases "k_anomaly_floor k"; cases "k_anomaly_threshold k")
      (auto simp: kernel_valid_def ledger_params_from_config_def f64_zero_def)
  have nan: "flags_part p n = NaN"
    using assms by (cases "f64_of_nat n") (simp_all add: flags_part_def ledger_params_from_config_def)
  have "f64_le (f64_mul (Fin f) (Fin d)) (Fin f)"
    using f d by (intro f64_scale_le) (simp_all add: f64_zero_def)
  then have "f64_max (f64_mul (Fin f) (Fin d)) (Fin f) = Fin f"
    by (cases "f64_mul (Fin f) (Fin d)") auto
  then have "f64_max (f64_mul (fst ?a) (lp_decay p)) (lp_floor p) = lp_floor p"
    using snoc.IH f d by (auto simp: f64_zero_def)
  moreover have "f64_add x NaN = NaN" for x by (cases x) auto
  ultimately show ?case
    using snoc.IH d nan
    unfolding spec_history_snoc fst_spec_turn snd_spec_turn decay_part_def by (auto simp: f64_zero_def)
qed simp

text \<open>A flag weight of NaN passes the validation of the kernel section, and under it the ledger
  never blocks: no history of flags, however many, blocks the session.\<close>
theorem nan_weight_disables_ledger:
  assumes "kernel_valid k" "k_flag_weight k = NaN" "f64_ok (k_anomaly_floor k)"
  shows "validate_kernel k = Inr () \<and> \<not> lo_blocked (spec_outcome (ledger_params_from_config k) fs)"
  using nan_weight_history [OF assms refl, of fs] assms(1)
  by (cases "k_anomaly_threshold k"; cases "k_anomaly_floor k")
    (auto simp: validate_kernel_Inr_iff spec_outcome_def outcome_of_def kernel_valid_def
      ledger_params_from_config_def f64_zero_def)

theorem nan_weight_disables_ledger_witness:
  "\<not> lo_blocked (spec_outcome (ledger_params_from_config
     \<lparr>k_anomaly_threshold = Fin 3, k_anomaly_decay = Fin (1 / 2), k_anomaly_floor = Fin (1 / 2),
      k_flag_weight = NaN, k_max_sessions = 10, k_tools = Map.empty\<rparr>) [1000, 1000])"
proof -
  have "f64_ok (Fin (1 / 2))" by code_simp
  then show ?thesis
    using nan_weight_disables_ledger [of "\<lparr>k_anomaly_threshold = Fin 3, k_anomaly_decay = Fin (1 / 2),
      k_anomaly_floor = Fin (1 / 2), k_flag_weight = NaN, k_max_sessions = 10, k_tools = Map.empty\<rparr>"
      "[1000, 1000]"]
    by (simp add: kernel_valid_def f64_zero_def)
qed

section \<open>The bound on the table\<close>

lemma length_update_le: "length (AList.update k v xs) \<le> Suc (length xs)"
  by (induction xs) auto

lemma length_update_known: "map_of xs k \<noteq> None \<Longrightarrow> length (AList.update k v xs) = length xs"
  by (induction xs) auto

lemma length_delete_known: "map_of xs k \<noteq> None \<Longrightarrow> length (AList.delete k xs) < length xs"
proof -
  assume "map_of xs k \<noteq> None"
  then obtain v where "(k, v) \<in> set xs" by (auto dest: map_of_SomeD)
  then show ?thesis by (auto simp: AList.delete_eq intro!: length_filter_less)
qed

lemma record_turn_size:
  assumes "length (l_sessions l) \<le> max 1 (lp_max_sessions p)"
  shows "length (l_sessions (snd (record_turn p sid n l))) \<le> max 1 (lp_max_sessions p)"
proof (cases "map_of (l_sessions l) sid")
  case (Some s)
  then show ?thesis using assms
    by (simp add: record_turn_def Let_def evict_def length_update_known)
next
  case None
  let ?xs = "evict p sid (l_sessions l)"
  have "length ?xs < max 1 (lp_max_sessions p)"
  proof (cases "lp_max_sessions p \<le> length (l_sessions l) \<and> l_sessions l \<noteq> []")
    case True
    then obtain y where y: "oldest (l_sessions l) = Some y" by (cases "oldest (l_sessions l)") auto
    then have "y \<in> set (l_sessions l)" by (rule oldest_mem)
    then have "map_of (l_sessions l) (fst y) \<noteq> None"
      by (metis map_of_eq_None_iff image_eqI)
    then have "length (AList.delete (fst y) (l_sessions l)) < length (l_sessions l)"
      by (rule length_delete_known)
    with True None y assms show ?thesis by (simp add: evict_def)
  next
    case False
    then show ?thesis using None assms by (auto simp: evict_def)
  qed
  then show ?thesis
    using length_update_le [of sid "take_turn p (l_tick l + 1) n (entry (l_tick l + 1) sid ?xs)" ?xs]
    by (simp add: record_turn_def Let_def)
qed

text \<open>The table never holds more than \<open>max_sessions\<close> sessions (one, if that is zero), after any
  sequence of calls.\<close>
theorem ledger_table_bounded:
  "length (l_sessions (record_all p cs ledger_new)) \<le> max 1 (lp_max_sessions p)"
proof -
  have "length (l_sessions l) \<le> max 1 (lp_max_sessions p)
    \<Longrightarrow> length (l_sessions (record_all p cs l)) \<le> max 1 (lp_max_sessions p)" for l
    by (induction cs arbitrary: l) (auto simp only: record_all.simps record_turn_size split_paired_all)
  then show ?thesis by (simp add: ledger_new_def)
qed

text \<open>Eviction is by least recent use, and only of one session: a session that a call drops
  from the table is another one than the caller's, the table was full and the caller new to it,
  and every session that remains was updated after the dropped one.\<close>
theorem eviction_is_lru:
  assumes "ledger_wf l" "(i, s) \<in> set (l_sessions l)"
    and "session_of (snd (record_turn p sid n l)) i = None"
  shows "i \<noteq> sid \<and> session_of l sid = None \<and> lp_max_sessions p \<le> length (l_sessions l)
    \<and> (\<forall>(j, t) \<in> set (l_sessions l). j \<noteq> i \<longrightarrow> ss_last_tick s < ss_last_tick t
          \<and> session_of (snd (record_turn p sid n l)) j = session_of l j)"
proof -
  let ?l' = "snd (record_turn p sid n l)" and ?xs = "l_sessions l"
  have i: "map_of ?xs i = Some s" using assms(1,2) by (simp add: ledger_wf_def)
  have ne: "i \<noteq> sid" using assms(3) record_turn_own by force
  then have gone: "map_of (evict p sid ?xs) i = None"
    using assms(3) by (simp add: record_turn_def session_of_def Let_def map_of_update_eq)
  then have full: "map_of ?xs sid = None" "lp_max_sessions p \<le> length ?xs"
    using i by (auto simp: evict_def split: if_splits)
  obtain y where y: "oldest ?xs = Some y" using assms(2) by (cases "oldest ?xs") auto
  then have yi: "fst y = i"
    using gone i full by (auto simp: evict_def map_of_delete_eq split: if_splits)
  then have ys: "y = (i, s)"
    using oldest_mem [OF y] i assms(1) by (cases y) (auto simp: ledger_wf_def)
  have "ss_last_tick s < ss_last_tick t \<and> session_of ?l' j = session_of l j"
    if j: "(j, t) \<in> set ?xs" "j \<noteq> i" for j t
  proof -
    have "ss_last_tick s \<le> ss_last_tick t" using oldest_le [OF y j(1)] ys by simp
    moreover have "ss_last_tick s \<noteq> ss_last_tick t"
      using assms(1,2) j by (force simp: ledger_wf_def distinct_map inj_on_def)
    moreover have "j \<noteq> sid" using full(1) j(1) by (auto simp: map_of_eq_None_iff image_iff)
    ultimately show ?thesis
      using full y yi j(2)
      by (simp add: record_turn_def session_of_def Let_def map_of_update_eq evict_def map_of_delete_eq)
  qed
  then show ?thesis using ne full by (auto simp: session_of_def)
qed

definition tiny_params :: ledger_params where
  "tiny_params = example_params\<lparr>lp_max_sessions := 1\<rparr>"

definition tiny_session :: session_state where
  "tiny_session = \<lparr>ss_score = Fin 1, ss_tainted = True, ss_last_tick = 1\<rparr>"

definition tiny_ledger :: ledger where
  "tiny_ledger = \<lparr>l_sessions = [(1, tiny_session)], l_tick = 1\<rparr>"

theorem eviction_is_lru_witness:
  "session_of (snd (record_turn tiny_params 2 0 tiny_ledger)) 1 = None \<and> session_of tiny_ledger 2 = None"
proof -
  have wf: "ledger_wf tiny_ledger" by (simp add: ledger_wf_def tiny_ledger_def tiny_session_def)
  have mem: "(1, tiny_session) \<in> set (l_sessions tiny_ledger)" by (simp add: tiny_ledger_def)
  have gone: "session_of (snd (record_turn tiny_params 2 0 tiny_ledger)) 1 = None"
    by (simp add: record_turn_def session_of_def Let_def evict_def map_of_delete_eq map_of_update_eq
        tiny_ledger_def tiny_params_def)
  show ?thesis using eviction_is_lru [OF wf mem gone] gone by blast
qed

section \<open>The floor\<close>

text \<open>What a call does to the other sessions: nothing, or the table loses one.\<close>

lemma record_turn_rest:
  "sid' \<noteq> sid \<Longrightarrow> session_of (snd (record_turn p sid n l)) sid' \<in> {None, session_of l sid'}"
  by (auto simp: record_turn_def session_of_def Let_def map_of_update_eq evict_def map_of_delete_eq split: option.splits)

definition scores_ok :: "ledger \<Rightarrow> bool" where
  "scores_ok l \<longleftrightarrow> (\<forall>sid x b. session_of l sid = Some (x, b) \<longrightarrow> score_ok x)"

lemma scores_okD: "scores_ok l \<Longrightarrow> session_of l sid = Some (x, b) \<Longrightarrow> score_ok x"
  unfolding scores_ok_def by (elim allE impE)

lemma abs_of_ok: "scores_ok l \<Longrightarrow> score_ok (fst (abs_of (session_of l sid)))"
  by (cases "session_of l sid") (auto simp: abs_of_def dest: scores_okD)

lemma record_turn_scores [wf_intros]:
  assumes "params_ok p" "is_usize n" "scores_ok l"
  shows "scores_ok (snd (record_turn p sid n l))"
proof -
  have "score_ok x" if "session_of (snd (record_turn p sid n l)) i = Some (x, b)" for i x b
  proof (cases "i = sid")
    case True
    with that have "x = fst (spec_turn p n (abs_of (session_of l sid)))" by (simp add: record_turn_own)
    then show ?thesis using assms by (simp add: spec_turn_ok abs_of_ok)
  next
    case False
    with that record_turn_rest [OF False, of p n l] have "session_of l i = Some (x, b)" by auto
    then show ?thesis by (rule scores_okD [OF assms(3)])
  qed
  then show ?thesis unfolding scores_ok_def by blast
qed

lemma record_all_scores: "params_ok p \<Longrightarrow> usizes (map snd cs) \<Longrightarrow> scores_ok l \<Longrightarrow> scores_ok (record_all p cs l)"
  by (induction p cs l rule: record_all.induct) (simp_all add: record_turn_scores)

lemma record_all_append: "record_all p (cs @ cs') l = record_all p cs' (record_all p cs l)"
  by (simp add: record_all_fold)

text \<open>A tainted session stays so for as long as it is in the table.\<close>

definition tainted :: "ledger \<Rightarrow> uuid \<Rightarrow> bool" where
  "tainted l sid \<longleftrightarrow> (\<exists>x. session_of l sid = Some (x, True))"

lemma tainted_step:
  assumes "tainted l sid" "session_of (snd (record_turn p i n l)) sid \<noteq> None"
  shows "tainted (snd (record_turn p i n l)) sid"
proof (cases "i = sid")
  case True
  then show ?thesis using assms(1) by (auto simp: tainted_def record_turn_own abs_of_def spec_turn_def Let_def)
next
  case False
  then show ?thesis using assms record_turn_rest [of sid i p n l] by (auto simp: tainted_def)
qed

lemma tainted_run:
  assumes "tainted l sid" "\<And>k. k \<le> length cs \<Longrightarrow> session_of (record_all p (take k cs) l) sid \<noteq> None"
  shows "tainted (record_all p cs l) sid"
  using assms
proof (induction cs rule: rev_induct)
  case (snoc c cs)
  obtain i n where c: "c = (i, n)" by (cases c)
  have "session_of (record_all p (take k cs) l) sid \<noteq> None" if "k \<le> length cs" for k
    using snoc.prems(2) [of k] that by simp
  then have "tainted (record_all p cs l) sid" using snoc by blast
  moreover have "session_of (record_all p (cs @ [c]) l) sid \<noteq> None"
    using snoc.prems(2) [of "length (cs @ [c])"] by simp
  ultimately show ?case using tainted_step [of "record_all p cs l" sid p i n] by (simp add: c record_all_append)
qed simp

lemma tainted_floor:
  assumes "params_ok p" "scores_ok l" "tainted l sid" "is_usize m"
  shows "f64_le (lp_floor p) (lo_score (fst (record_turn p sid m l)))"
proof -
  let ?a = "abs_of (session_of l sid)"
  have "snd ?a" using assms(3) by (auto simp: tainted_def abs_of_def)
  then have "f64_le (lp_floor p) (decay_part p ?a)"
    using assms(1) by (auto simp: decay_part_def params_ok_def intro!: f64_max_ge2 f64_ge0_not_NaN)
  then show ?thesis
    using spec_turn_ge_decay [OF assms(1) abs_of_ok [OF assms(2)] assms(4)]
    by (auto simp: record_turn_outcome outcome_of_def intro: f64_le_trans)
qed

text \<open>A session is only forgotten when as many others as the table holds have recorded a turn since its own last one.\<close>

definition newer_from :: "uuid \<Rightarrow> uuid set \<Rightarrow> ledger \<Rightarrow> bool" where
  "newer_from sid J l \<longleftrightarrow> (\<exists>s. (sid, s) \<in> set (l_sessions l)
     \<and> (\<forall>(j, t) \<in> set (l_sessions l). j \<noteq> sid \<and> ss_last_tick s < ss_last_tick t \<longrightarrow> j \<in> J))"

lemma newer_from_own:
  assumes "ledger_wf l" "0 < calls_left l"
  shows "newer_from sid {} (snd (record_turn p sid n l))"
proof -
  let ?l' = "snd (record_turn p sid n l)"
  let ?s = "take_turn p (l_tick l + 1) n (entry (l_tick l + 1) sid (evict p sid (l_sessions l)))"
  have wf: "ledger_wf ?l'" by (rule record_turn_wf [OF assms])
  have "map_of (l_sessions ?l') sid = Some ?s" by (simp add: record_turn_def Let_def map_of_update_eq)
  then have "(sid, ?s) \<in> set (l_sessions ?l')" by (rule map_of_SomeD)
  moreover have "\<not> ss_last_tick ?s < ss_last_tick t" if "(j, t) \<in> set (l_sessions ?l')" for j t
    using wf that by (fastforce simp: ledger_wf_def not_less)
  ultimately show ?thesis by (auto simp: newer_from_def)
qed

lemma newer_from_other:
  assumes wf: "ledger_wf l" "0 < calls_left l" and new: "newer_from sid J l" and i: "i \<noteq> sid"
    and J: "finite J" "card (insert i J - {sid}) < lp_max_sessions p"
  shows "newer_from sid (insert i J) (snd (record_turn p i n l))"
proof -
  let ?l' = "snd (record_turn p i n l)"
  obtain s where s: "(sid, s) \<in> set (l_sessions l)"
    "\<And>j t. (j, t) \<in> set (l_sessions l) \<Longrightarrow> j \<noteq> sid \<Longrightarrow> ss_last_tick s < ss_last_tick t \<Longrightarrow> j \<in> J"
    using new by (auto simp: newer_from_def)
  have kept: "session_of ?l' sid \<noteq> None"
  proof
    assume "session_of ?l' sid = None"
    note lru = eviction_is_lru [OF wf(1) s(1) this]
    have keys: "fst ` set (l_sessions l) - {sid} \<subseteq> J" using lru s(2) by fastforce
    have d: "card (fst ` set (l_sessions l)) = length (l_sessions l)"
      using wf(1) by (simp add: ledger_wf_def distinct_card flip: set_map)
    have "i \<notin> fst ` set (l_sessions l)" using lru by (simp add: session_of_def map_of_eq_None_iff)
    then have "card (insert i (fst ` set (l_sessions l) - {sid})) = length (l_sessions l)"
    proof -
      have "sid \<in> fst ` set (l_sessions l)" using s(1) by (rule rev_image_eqI) simp
      then have "Suc (card (fst ` set (l_sessions l) - {sid})) = length (l_sessions l)"
        using card_Suc_Diff1 [of "fst ` set (l_sessions l)" sid] d by simp
      then show ?thesis using \<open>i \<notin> fst ` set (l_sessions l)\<close> by simp
    qed
    moreover have "card (insert i (fst ` set (l_sessions l) - {sid})) \<le> card (insert i J - {sid})"
      using keys i J(1) by (intro card_mono) auto
    ultimately show False using lru J(2) by linarith
  qed
  have m: "map_of (l_sessions l) sid = Some s" using wf(1) s(1) by (simp add: ledger_wf_def)
  have "map_of (l_sessions ?l') sid = Some s"
  proof -
    have "map_of (evict p i (l_sessions l)) sid \<noteq> None"
      using kept i by (simp add: record_turn_def session_of_def Let_def map_of_update_eq)
    then have "map_of (evict p i (l_sessions l)) sid = Some s"
      using m by (auto simp: evict_def map_of_delete_eq split: option.splits if_splits)
    then show ?thesis using i by (simp add: record_turn_def Let_def map_of_update_eq)
  qed
  then have "(sid, s) \<in> set (l_sessions ?l')" by (rule map_of_SomeD)
  moreover have "j \<in> insert i J" if "(j, t) \<in> set (l_sessions ?l')" "j \<noteq> sid" "ss_last_tick s < ss_last_tick t" for j t
  proof -
    have "(j, t) \<in> insert (i, take_turn p (l_tick l + 1) n (entry (l_tick l + 1) i (evict p i (l_sessions l))))
        (set (evict p i (l_sessions l)))"
      using that(1) set_update_subset by (fastforce simp: record_turn_def Let_def)
    then show ?thesis using evict_subset s(2) that by fastforce
  qed
  ultimately show ?thesis by (auto simp: newer_from_def)
qed

lemma newer_from_mono: "newer_from sid J l \<Longrightarrow> J \<subseteq> J' \<Longrightarrow> newer_from sid J' l"
  by (fastforce simp: newer_from_def)

lemma newer_from_run:
  assumes "ledger_wf l" "newer_from sid {} l" "length cs \<le> calls_left l"
    and "card (fst ` set cs - {sid}) < lp_max_sessions p"
  shows "newer_from sid (fst ` set cs) (record_all p cs l) \<and> ledger_wf (record_all p cs l)
    \<and> calls_left (record_all p cs l) = calls_left l - length cs"
  using assms(3,4)
proof (induction cs rule: rev_induct)
  case (snoc c cs)
  obtain i n where c: "c = (i, n)" by (cases c)
  have "card (fst ` set cs - {sid}) \<le> card (fst ` set (cs @ [c]) - {sid})" by (intro card_mono) auto
  then have IH: "newer_from sid (fst ` set cs) (record_all p cs l)" "ledger_wf (record_all p cs l)"
    "calls_left (record_all p cs l) = calls_left l - length cs"
    using snoc by simp_all
  then have left: "0 < calls_left (record_all p cs l)" using snoc.prems(1) by simp
  have "newer_from sid (insert i (fst ` set cs)) (snd (record_turn p i n (record_all p cs l)))"
  proof (cases "i = sid")
    case True
    show ?thesis unfolding True by (rule newer_from_mono [OF newer_from_own [OF IH(2) left]]) simp
  next
    case False
    show ?thesis by (rule newer_from_other [OF IH(2) left IH(1) False]) (use snoc.prems(2) in \<open>simp_all add: c\<close>)
  qed
  then show ?case
    using record_turn_wf [OF IH(2) left] calls_left_step [OF left] IH(3) by (simp add: c record_all_append)
qed (use assms(1,2) in simp)

lemma recent_session_tracked:
  assumes "length cs1 + length cs2 < 2 ^ 64 - 1" "card (fst ` set cs2 - {sid}) < lp_max_sessions p" "k \<le> length cs2"
  shows "session_of (record_all p (cs1 @ (sid, n) # take k cs2) ledger_new) sid \<noteq> None"
proof -
  let ?l1 = "record_all p cs1 ledger_new"
  have l1: "ledger_wf ?l1" "calls_left ?l1 = 2 ^ 64 - 1 - length cs1"
    using store.run_ok [OF ledger_new_wf, of cs1 p] assms(1) by (simp_all add: record_all_fold calls_left_new)
  then have left: "0 < calls_left ?l1" using assms(1) by simp
  let ?l = "snd (record_turn p sid n ?l1)"
  have "length (take k cs2) \<le> calls_left ?l" using assms(1,3) l1 left by (simp add: calls_left_step)
  moreover have "card (fst ` set (take k cs2) - {sid}) < lp_max_sessions p"
    using assms(2) card_mono [of "fst ` set cs2 - {sid}" "fst ` set (take k cs2) - {sid}"]
    by (force dest: in_set_takeD)
  ultimately have "newer_from sid (fst ` set (take k cs2)) (record_all p (take k cs2) ?l)"
    using newer_from_run [OF record_turn_wf [OF l1(1) left] newer_from_own [OF l1(1) left]] by blast
  then have "sid \<in> fst ` set (l_sessions (record_all p (take k cs2) ?l))" by (force simp: newer_from_def)
  then show ?thesis by (simp add: record_all_append session_of_def map_of_eq_None_iff)
qed

text \<open>C20: The floor is armed by the first flag and not disarmed while the ledger remembers the session. After
  any calls, then a turn of the session that raised a flag, then any further calls, the next turn of the session scores at least the
  floor, however many benign turns the decay has worked on, provided the table has kept the session
  throughout; and it has kept it whenever fewer other sessions than the table holds have recorded a turn since. (A session that
  was evicted starts again from zero.)\<close>
theorem tainted_score_keeps_floor:
  assumes "params_ok p" "usizes (map snd (cs1 @ (sid, n) # cs2) @ [m])" "0 < n"
  shows "((\<forall>k \<le> length cs2. session_of (record_all p (cs1 @ (sid, n) # take k cs2) ledger_new) sid \<noteq> None)
      \<longrightarrow> f64_le (lp_floor p) (lo_score (fst (record_turn p sid m (record_all p (cs1 @ (sid, n) # cs2) ledger_new)))))
    \<and> (length cs1 + length cs2 < 2 ^ 64 - 1 \<and> card (fst ` set cs2 - {sid}) < lp_max_sessions p
      \<longrightarrow> (\<forall>k \<le> length cs2. session_of (record_all p (cs1 @ (sid, n) # take k cs2) ledger_new) sid \<noteq> None))"
proof (intro conjI impI allI)
  let ?l = "snd (record_turn p sid n (record_all p cs1 ledger_new))"
  assume tracked: "\<forall>k \<le> length cs2. session_of (record_all p (cs1 @ (sid, n) # take k cs2) ledger_new) sid \<noteq> None"
  have "tainted ?l sid" using assms(3) by (simp add: tainted_def record_turn_own spec_turn_def Let_def)
  then have "tainted (record_all p cs2 ?l) sid"
    using tracked by (intro tainted_run) (simp_all add: record_all_append)
  moreover have "scores_ok (record_all p (cs1 @ (sid, n) # cs2) ledger_new)"
    using assms(1,2) by (intro record_all_scores) (simp_all add: scores_ok_def session_of_new)
  ultimately show "f64_le (lp_floor p) (lo_score (fst (record_turn p sid m (record_all p (cs1 @ (sid, n) # cs2) ledger_new))))"
    using assms(1,2) by (intro tainted_floor) (simp_all add: record_all_append)
qed (rule recent_session_tracked, simp_all)

lemma tainted_score_keeps_floor_witness:
  "f64_le (Fin (1 / 2)) (lo_score (fst (record_turn example_params 1 0
     (record_all example_params ([(2, 0)] @ (1, 1) # [(1, 0), (3, 5), (1, 0), (1, 0)]) ledger_new))))"
proof -
  let ?cs = "[(1, 0), (3, 5), (1, 0), (1, 0)] :: call list"
  have u: "usizes (map snd ([(2, 0)] @ (1 :: uuid, 1) # ?cs) @ [0])" by simp
  have "fst ` set ?cs - {1} = {3}" by auto
  then have c: "length [(2 :: uuid, 0 :: nat)] + length ?cs < 2 ^ 64 - 1 \<and> card (fst ` set ?cs - {1}) < lp_max_sessions example_params"
    by (simp add: example_params_def)
  have "lp_floor example_params = Fin (1 / 2)" by (simp add: example_params_def)
  with tainted_score_keeps_floor [OF example_params_ok u] c show ?thesis by simp
qed

section \<open>The order of iteration\<close>

lemma mset_eq_distinct_keys:
  assumes "distinct (map fst xs)" "distinct (map fst ys)" "map_of xs = map_of ys"
  shows "mset xs = mset ys"
proof -
  have "set xs = set ys" using assms by (metis map_of_inject_set)
  then show ?thesis using assms by (simp add: set_eq_iff_mset_eq_distinct distinct_map)
qed

lemma oldest_perm:
  assumes "mset xs = mset ys" "distinct (map (ss_last_tick \<circ> snd) xs)"
  shows "oldest xs = oldest ys"
proof (cases "oldest xs")
  case None
  then show ?thesis using assms(1) by simp
next
  case (Some y)
  have s: "set xs = set ys" using assms(1) by (rule mset_eq_setD)
  have "ss_last_tick (snd y) < ss_last_tick (snd x)" if "x \<in> set xs" "x \<noteq> y" for x
  proof -
    have "ss_last_tick (snd y) \<noteq> ss_last_tick (snd x)"
      using assms(2) that oldest_mem [OF Some] by (auto simp: distinct_map inj_on_def)
    then show ?thesis using oldest_le [OF Some that(1)] by simp
  qed
  then have "oldest ys = Some y"
    using oldest_mem [OF Some] s by (intro oldest_unique) auto
  with Some show ?thesis by simp
qed

lemma iteration_order_wf:
  assumes "ledger_wf l" "mset xs = mset (l_sessions l)"
  shows "fst (record_turn p sid n (l\<lparr>l_sessions := xs\<rparr>)) = fst (record_turn p sid n l)
    \<and> mset (l_sessions (snd (record_turn p sid n (l\<lparr>l_sessions := xs\<rparr>))))
      = mset (l_sessions (snd (record_turn p sid n l)))"
proof -
  let ?ys = "l_sessions l"
  have d: "distinct (map fst ?ys)" "distinct (map (ss_last_tick \<circ> snd) ?ys)"
    using assms(1) by (simp_all add: ledger_wf_def)
  have dx: "distinct (map fst xs)"
    using d(1) assms(2) by (metis mset_map distinct_count_atmost_1 mset_eq_imp_distinct_iff)
  have tx: "distinct (map (ss_last_tick \<circ> snd) xs)"
    using d(2) assms(2) by (metis mset_map mset_eq_imp_distinct_iff)
  have m: "map_of xs = map_of ?ys"
    using assms(2) d(1) dx by (metis map_of_inject_set mset_eq_setD)
  have "map_of (evict p sid xs) = map_of (evict p sid ?ys)"
    using m oldest_perm [OF assms(2) tx] mset_eq_length [OF assms(2)]
    by (auto simp: evict_def map_of_delete_eq split: option.splits)
  then have e: "map_of (AList.update sid s (evict p sid xs)) = map_of (AList.update sid s (evict p sid ?ys))"
    for s by (simp add: map_of_update_eq)
  have "mset (AList.update sid s (evict p sid xs)) = mset (AList.update sid s (evict p sid ?ys))" for s
    by (rule mset_eq_distinct_keys [OF _ _ e]) (simp_all add: distinct_update distinct_evict d dx)
  then show ?thesis
    using m by (simp add: record_turn_def Let_def entry_def)
qed

text \<open>C40: The unspecified iteration order of the hash map cannot be observed: whatever order it gives the sessions
  that any calls have left in the table, the next call has the same outcome and leaves the same entries, the choice of the
  session to evict included.\<close>
theorem iteration_order_irrelevant:
  assumes "length cs < 2 ^ 64" "mset xs = mset (l_sessions (record_all p cs ledger_new))"
  shows "fst (record_turn p sid n ((record_all p cs ledger_new)\<lparr>l_sessions := xs\<rparr>))
      = fst (record_turn p sid n (record_all p cs ledger_new))
    \<and> mset (l_sessions (snd (record_turn p sid n ((record_all p cs ledger_new)\<lparr>l_sessions := xs\<rparr>))))
      = mset (l_sessions (snd (record_turn p sid n (record_all p cs ledger_new))))"
proof (rule iteration_order_wf [OF _ assms(2)])
  show "ledger_wf (record_all p cs ledger_new)"
    using store.run_ok [OF ledger_new_wf calls_left_usize [OF assms(1)], of p] by (simp add: record_all_fold)
qed

text \<open>A full table, iterated backwards, when a third session makes it lose one.\<close>

lemma iteration_order_irrelevant_witness:
  "mset (l_sessions (snd (record_turn (example_params\<lparr>lp_max_sessions := 2\<rparr>) 3 1
      ((record_all (example_params\<lparr>lp_max_sessions := 2\<rparr>) [(1, 1), (2, 0)] ledger_new)
        \<lparr>l_sessions := rev (l_sessions (record_all (example_params\<lparr>lp_max_sessions := 2\<rparr>) [(1, 1), (2, 0)] ledger_new))\<rparr>))))
    = mset (l_sessions (snd (record_turn (example_params\<lparr>lp_max_sessions := 2\<rparr>) 3 1
        (record_all (example_params\<lparr>lp_max_sessions := 2\<rparr>) [(1, 1), (2, 0)] ledger_new))))"
proof -
  have "length [(1 :: uuid, 1 :: nat), (2, 0)] < 2 ^ 64" by simp
  then show ?thesis by (rule iteration_order_irrelevant [THEN conjunct2]) simp
qed

end
