(* ===== verification/Kernel_Wrapper.thy ===== *)
theory Kernel_Wrapper
  imports Kernel_Ledger Kernel_Fanout
begin

text \<open>
  The kernel wrapper of \<open>ctp-kernel/src/lib.rs\<close> over the \<open>ToolExecutor\<close> trait of
  \<open>ctp-core/src/traits.rs\<close>: policy, vetting of the arguments, execution, size cap, vetting of the
  result, anomaly ledger. The inner tool is an arbitrary function on a world it may change, so that
  "the tool never ran" can be stated. What the environment decides in a vetting pass (the fresh
  identity, the guard's behaviour, the completion order, the measured times) is a record.
\<close>

section \<open>Tools\<close>

record tool_context =
  tc_session_id :: uuid
  tc_tool_name :: string
  tc_arguments :: bytes
  tc_turn :: u32

record tool_output =
  to_content :: bytes

type_synonym 'w tool_executor = "tool_context \<Rightarrow> 'w \<Rightarrow> (ctp_error + tool_output) \<times> 'w"

section \<open>The wrapper\<close>

record kernel_wrapper =
  kw_challenge :: challenge_scanner
  kw_guard :: guard_fanout
  kw_config :: kernel_config

text \<open>\<open>new\<close>: the wrapper, and the ledger made for it. Its parameters are those \<open>execute\<close> takes from the configuration.\<close>

definition kernel_new :: "challenge_scanner \<Rightarrow> guard_fanout \<Rightarrow> kernel_config \<Rightarrow> kernel_wrapper \<times> ledger_params \<times> ledger" where
  "kernel_new challenge guard config =
     (\<lparr>kw_challenge = challenge, kw_guard = guard, kw_config = config\<rparr>, ledger_from_config config)"

record vet_env =
  ve_id :: uuid
  ve_guard :: guard_check
  ve_schedule :: "nat list"
  ve_challenge_time :: nanos
  ve_guard_time :: nanos
  ve_show_uuid :: "uuid \<Rightarrow> string"

definition vet ::
  "kernel_wrapper \<Rightarrow> vet_env \<Rightarrow> bytes \<Rightarrow> direction \<Rightarrow> uuid \<Rightarrow> ctp_error + bytes \<times> nat" where
  "vet kw env bs dir sid =
     (let p = payload_new (ve_id env) bs dir in
      and_then (payload_challenge (ve_show_uuid env) (kw_challenge kw) sid (ve_challenge_time env) p)
        (\<lambda>(challenged, challenge_report).
      and_then (payload_guard (ve_show_uuid env)
          (guard_findings (kw_guard kw) (ve_guard env) (ve_schedule env)) sid (ve_guard_time env) challenged)
        (\<lambda>(vetted, guard_report).
      Inr (payload_release vetted,
           length (advisory_flags challenge_report) + length (advisory_flags guard_report)))))"

definition kernel_block :: "string \<Rightarrow> string \<Rightarrow> uuid \<Rightarrow> ctp_error" where
  "kernel_block src rsn sid =
     Blocked (decision_block Kernel [finding_blocking src rsn High] sid Inbound 0)"

definition oversize_reason :: "string \<Rightarrow> nat \<Rightarrow> nat \<Rightarrow> string" where
  "oversize_reason tool n cap =
     ''tool '' @ [CHR 0x27] @ tool @ [CHR 0x27] @ '' result of '' @ show_nat n
       @ '' bytes exceeds cap of '' @ show_nat cap"

definition anomaly_reason :: "f64 \<Rightarrow> string" where
  "anomaly_reason x = ''cumulative session anomaly score '' @ fmt2 x @ '' >= threshold''"

text \<open>
  \<open>execute\<close> is itself a tool executor, on the world of the inner one together with the ledger, so
  wrappers nest as they do in the source. Each early return is a branch.
\<close>

definition execute ::
  "kernel_wrapper \<Rightarrow> vet_env \<Rightarrow> vet_env \<Rightarrow> 'w tool_executor \<Rightarrow> ('w \<times> ledger) tool_executor" where
  "execute kw out_env in_env inner ctx st =
     (let (w, l) = st;
          sid = tc_session_id ctx;
          name = tc_tool_name ctx;
          policy = tool_policy_of (kw_config kw) name
      in
      if \<not> tp_enabled policy then
        (Inl (PolicyDenied name ''tool not enabled (deny-by-default)''), (w, l))
      else case vet kw out_env (tc_arguments ctx) Outbound sid of
        Inl e \<Rightarrow> (Inl e, (w, l))
      | Inr (vetted_args, outbound_advisory) \<Rightarrow>
          (case inner \<lparr>tc_session_id = sid, tc_tool_name = name, tc_arguments = vetted_args,
                       tc_turn = tc_turn ctx\<rparr> w of
             (Inl e, w') \<Rightarrow> (Inl e, (w', l))
           | (Inr result, w') \<Rightarrow>
               if tp_max_result_bytes policy < length (to_content result) then
                 (Inl (kernel_block ''oversize_result''
                    (oversize_reason name (length (to_content result)) (tp_max_result_bytes policy)) sid),
                  (w', l))
               else case vet kw in_env (to_content result) Inbound sid of
                 Inl e \<Rightarrow> (Inl e, (w', l))
               | Inr (vetted_result, inbound_advisory) \<Rightarrow>
                   (let (outcome, l') = record_turn (ledger_params_from_config (kw_config kw)) sid
                          (outbound_advisory + inbound_advisory) l
                    in if lo_blocked outcome then
                         (Inl (kernel_block ''anomaly_threshold'' (anomaly_reason (lo_score outcome)) sid), (w', l'))
                       else (Inr \<lparr>to_content = vetted_result\<rparr>, (w', l')))))"

section \<open>The contract of a vetting pass\<close>

text \<open>
  What both users of a vetting pass rely on: it returns the very bytes it was given, exactly when
  they are clear, with the number of advisory flags; a refusal is an error that stands for a block.
\<close>

locale vetting =
  fixes run :: "bytes \<Rightarrow> ctp_error + bytes \<times> nat"
    and clear :: "bytes \<Rightarrow> bool"
    and flags :: "bytes \<Rightarrow> nat"
  assumes pass: "clear b \<Longrightarrow> run b = Inr (b, flags b)"
    and block: "\<not> clear b \<Longrightarrow> \<exists>d. run b = Inl (Blocked d) \<and> is_block d \<and> findings_verdict (d_findings d) = Block"
begin

lemma run_Inr_iff: "run b = Inr (b', n) \<longleftrightarrow> clear b \<and> b' = b \<and> n = flags b"
  using pass [of b] block [of b] by (cases "clear b") auto

lemma run_Inl_iff: "(\<exists>e. run b = Inl e) \<longleftrightarrow> \<not> clear b"
  using pass [of b] block [of b] by (cases "clear b") auto

lemma run_Inl: "run b = Inl e \<Longrightarrow> \<not> clear b \<and> error_ok e \<and> is_security_block e"
  using pass [of b] block [of b] by (cases "clear b") (auto simp: is_block_def)

lemma run_cases:
  obtains "clear b" "run b = Inr (b, flags b)"
  | d where "\<not> clear b" "run b = Inl (Blocked d)" "is_block d"
  using pass [of b] block [of b] by (cases "clear b") auto

end

text \<open>The model's pass satisfies it.\<close>

definition vet_clear :: "kernel_wrapper \<Rightarrow> vet_env \<Rightarrow> direction \<Rightarrow> uuid \<Rightarrow> bytes \<Rightarrow> bool" where
  "vet_clear kw env dir sid b \<longleftrightarrow>
     findings_verdict (kw_challenge kw b) = Pass
     \<and> (\<forall>rq \<in> set (guard_requests (kw_guard kw) b dir sid).
          answered_pass (gf_timeout (kw_guard kw)) (ve_guard env rq))"

definition vet_flags :: "kernel_wrapper \<Rightarrow> vet_env \<Rightarrow> direction \<Rightarrow> uuid \<Rightarrow> bytes \<Rightarrow> nat" where
  "vet_flags kw env dir sid b =
     length (filter is_advisory (kw_challenge kw b))
     + length (filter is_advisory (concat (map (\<lambda>rq. window_findings (gf_timeout (kw_guard kw)) (ve_guard env rq))
         (guard_requests (kw_guard kw) b dir sid))))"

lemma vet_clear_run:
  assumes "vet_clear kw env dir sid b"
  shows "vet kw env b dir sid = Inr (b, vet_flags kw env dir sid b)"
proof -
  let ?p = "payload_new (ve_id env) b dir" and ?gs = "guard_findings (kw_guard kw) (ve_guard env) (ve_schedule env)"
  have c: "findings_verdict (kw_challenge kw (p_bytes ?p)) = Pass" using assms by (simp add: vet_clear_def)
  obtain fs where fs: "?gs b dir sid = Inr fs"
    by (cases "?gs b dir sid") (auto simp: guard_findings_total)
  then have g: "findings_verdict fs = Pass"
    using assms by (simp add: guard_findings_verdict vet_clear_def)
  have "length (filter is_advisory fs) = length (filter is_advisory (concat (map (\<lambda>rq.
      window_findings (gf_timeout (kw_guard kw)) (ve_guard env rq)) (guard_requests (kw_guard kw) b dir sid))))"
    by (rule length_filter_mset_cong [OF guard_findings_mset [OF fs]])
  moreover obtain t where "payload_challenge (ve_show_uuid env) (kw_challenge kw) sid (ve_challenge_time env) ?p
      = Inr (rebind ?p, layer_report_new (p_id ?p) Challenge sid (kw_challenge kw (p_bytes ?p)) t)"
    using l1.clean [where scan = "kw_challenge kw" and p = ?p, OF refl c] by blast
  moreover obtain u where "payload_guard (ve_show_uuid env) ?gs sid (ve_guard_time env) (rebind ?p :: challenged payload)
      = Inr (rebind (rebind ?p :: challenged payload), layer_report_new (p_id ?p) Guard sid fs u)"
    using l2.clean [of ?gs "rebind ?p" sid fs] fs g by auto
  ultimately show ?thesis
    by (simp add: vet_def Let_def payload_release_def advisory_flags_def vet_flags_def)
qed

lemma vet_not_clear_run:
  assumes "\<not> vet_clear kw env dir sid b"
  shows "\<exists>d. vet kw env b dir sid = Inl (Blocked d) \<and> is_block d \<and> findings_verdict (d_findings d) = Block
    \<and> d_layer d \<in> {Challenge, Guard} \<and> d_session_id d = sid \<and> d_direction d = dir"
proof -
  let ?p = "payload_new (ve_id env) b dir" and ?gs = "guard_findings (kw_guard kw) (ve_guard env) (ve_schedule env)"
  show ?thesis
  proof (cases "findings_verdict (kw_challenge kw b)")
    case Block
    then have "findings_verdict (kw_challenge kw (p_bytes ?p)) = Block" by simp
    from l1.dirty [where scan = "kw_challenge kw" and p = ?p and show_uuid = "ve_show_uuid env"
        and sid = sid and elapsed = "ve_challenge_time env", OF refl this] obtain t where
      "payload_challenge (ve_show_uuid env) (kw_challenge kw) sid (ve_challenge_time env) ?p
        = Inl (Blocked (into_decision (layer_report_new (p_id ?p) Challenge sid (kw_challenge kw (p_bytes ?p)) t) dir))"
      by auto
    with Block show ?thesis by (simp add: vet_def Let_def is_block_def)
  next
    case Pass
    then have c: "findings_verdict (kw_challenge kw (p_bytes ?p)) = Pass" by simp
    obtain fs where fs: "?gs b dir sid = Inr fs"
      by (cases "?gs b dir sid") (auto simp: guard_findings_total)
    then have "findings_verdict fs = Block"
      using assms Pass guard_findings_verdict [OF fs] by (cases "findings_verdict fs") (auto simp: vet_clear_def)
    moreover obtain t where "payload_challenge (ve_show_uuid env) (kw_challenge kw) sid (ve_challenge_time env) ?p
        = Inr (rebind ?p, layer_report_new (p_id ?p) Challenge sid (kw_challenge kw (p_bytes ?p)) t)"
      using l1.clean [where scan = "kw_challenge kw" and p = ?p, OF refl c] by blast
    moreover obtain u where "payload_guard (ve_show_uuid env) ?gs sid (ve_guard_time env) (rebind ?p :: challenged payload)
        = Inl (Blocked (into_decision (layer_report_new (p_id ?p) Guard sid fs u) dir))"
      using l2.dirty [of ?gs "rebind ?p" sid fs] fs calculation by auto
    ultimately show ?thesis by (simp add: vet_def Let_def is_block_def)
  qed
qed

interpretation vet: vetting "\<lambda>b. vet kw env b dir sid" "vet_clear kw env dir sid" "vet_flags kw env dir sid"
  for kw env dir sid
proof unfold_locales
qed (auto simp: vet_clear_run dest: vet_not_clear_run)

section \<open>Every path of a tool call\<close>

text \<open>The outcome of a tool call, by the first check that fails.\<close>

lemma execute_denied [run_simps]:
  "\<not> tp_enabled (tool_policy_of (kw_config kw) (tc_tool_name ctx)) \<Longrightarrow>
   execute kw oe ie inner ctx (w, l) =
     (Inl (PolicyDenied (tc_tool_name ctx) ''tool not enabled (deny-by-default)''), (w, l))"
  by (simp add: execute_def Let_def)

lemma execute_outbound_blocked [run_simps]:
  assumes "tp_enabled (tool_policy_of (kw_config kw) (tc_tool_name ctx))"
    and "\<not> vet_clear kw oe Outbound (tc_session_id ctx) (tc_arguments ctx)"
  shows "\<exists>d. is_block d \<and> d_direction d = Outbound \<and> execute kw oe ie inner ctx (w, l) = (Inl (Blocked d), (w, l))"
  using vet_not_clear_run [OF assms(2)] assms(1) by (auto simp: execute_def Let_def)

lemma execute_cleared [run_simps]:
  assumes "tp_enabled (tool_policy_of (kw_config kw) (tc_tool_name ctx))"
    and "vet_clear kw oe Outbound (tc_session_id ctx) (tc_arguments ctx)"
  shows "execute kw oe ie inner ctx (w, l) =
    (case inner ctx w of
       (Inl e, w') \<Rightarrow> (Inl e, (w', l))
     | (Inr result, w') \<Rightarrow>
         if tp_max_result_bytes (tool_policy_of (kw_config kw) (tc_tool_name ctx)) < length (to_content result) then
           (Inl (kernel_block ''oversize_result'' (oversize_reason (tc_tool_name ctx) (length (to_content result))
              (tp_max_result_bytes (tool_policy_of (kw_config kw) (tc_tool_name ctx)))) (tc_session_id ctx)), (w', l))
         else case vet kw ie (to_content result) Inbound (tc_session_id ctx) of
           Inl e \<Rightarrow> (Inl e, (w', l))
         | Inr (b, n) \<Rightarrow>
             (let (outcome, l') = record_turn (ledger_params_from_config (kw_config kw)) (tc_session_id ctx)
                    (vet_flags kw oe Outbound (tc_session_id ctx) (tc_arguments ctx) + n) l
              in if lo_blocked outcome then
                   (Inl (kernel_block ''anomaly_threshold'' (anomaly_reason (lo_score outcome)) (tc_session_id ctx)), (w', l'))
                 else (Inr \<lparr>to_content = b\<rparr>, (w', l'))))"
proof -
  have "\<lparr>tc_session_id = tc_session_id ctx, tc_tool_name = tc_tool_name ctx, tc_arguments = tc_arguments ctx,
      tc_turn = tc_turn ctx\<rparr> = ctx" by simp
  then show ?thesis using assms by (simp only: execute_def Let_def vet_clear_run prod.case sum.case if_True not_True_eq_False if_False)
qed

text \<open>The tool runs only on cleared arguments, and on exactly those.\<close>

lemma execute_world:
  "fst (snd (execute kw oe ie inner ctx (w, l))) =
    (if tp_enabled (tool_policy_of (kw_config kw) (tc_tool_name ctx))
       \<and> vet_clear kw oe Outbound (tc_session_id ctx) (tc_arguments ctx)
     then snd (inner ctx w) else w)"
proof (cases "tp_enabled (tool_policy_of (kw_config kw) (tc_tool_name ctx))")
  case en: True
  show ?thesis
  proof (cases "vet_clear kw oe Outbound (tc_session_id ctx) (tc_arguments ctx)")
    case True
    with en show ?thesis
      by (simp add: execute_cleared split: prod.split sum.split)
  next
    case False
    with en execute_outbound_blocked [OF en False, of ie inner w l] show ?thesis by auto
  qed
qed (simp add: execute_denied)

lemma kernel_block_simps [simp]:
  "is_security_block (kernel_block src rsn sid)" "error_ok (kernel_block src rsn sid)"
  by (simp_all add: kernel_block_def findings_verdict_Block_iff)

lemma execute_cases:
  fixes kw oe ie ctx
  defines "pol \<equiv> tool_policy_of (kw_config kw) (tc_tool_name ctx)"
  defines "sid \<equiv> tc_session_id ctx"
  obtains (denied) "\<not> tp_enabled pol"
    "execute kw oe ie inner ctx (w, l) = (Inl (PolicyDenied (tc_tool_name ctx) ''tool not enabled (deny-by-default)''), (w, l))"
  | (outbound) d where "tp_enabled pol" "\<not> vet_clear kw oe Outbound sid (tc_arguments ctx)" "is_block d"
    "findings_verdict (d_findings d) = Block" "execute kw oe ie inner ctx (w, l) = (Inl (Blocked d), (w, l))"
  | (tool_error) e w' where "tp_enabled pol" "vet_clear kw oe Outbound sid (tc_arguments ctx)"
    "inner ctx w = (Inl e, w')" "execute kw oe ie inner ctx (w, l) = (Inl e, (w', l))"
  | (oversize) r w' m where "tp_enabled pol" "vet_clear kw oe Outbound sid (tc_arguments ctx)"
    "inner ctx w = (Inr r, w')" "tp_max_result_bytes pol < length (to_content r)"
    "execute kw oe ie inner ctx (w, l) = (Inl (kernel_block ''oversize_result'' m sid), (w', l))"
  | (inbound) r w' d where "tp_enabled pol" "vet_clear kw oe Outbound sid (tc_arguments ctx)"
    "inner ctx w = (Inr r, w')" "length (to_content r) \<le> tp_max_result_bytes pol"
    "\<not> vet_clear kw ie Inbound sid (to_content r)" "is_block d" "findings_verdict (d_findings d) = Block"
    "execute kw oe ie inner ctx (w, l) = (Inl (Blocked d), (w', l))"
  | (anomaly) r w' out l' m where "tp_enabled pol" "vet_clear kw oe Outbound sid (tc_arguments ctx)"
    "inner ctx w = (Inr r, w')" "length (to_content r) \<le> tp_max_result_bytes pol"
    "vet_clear kw ie Inbound sid (to_content r)"
    "record_turn (ledger_params_from_config (kw_config kw)) sid
       (vet_flags kw oe Outbound sid (tc_arguments ctx) + vet_flags kw ie Inbound sid (to_content r)) l = (out, l')"
    "lo_blocked out" "execute kw oe ie inner ctx (w, l) = (Inl (kernel_block ''anomaly_threshold'' m sid), (w', l'))"
  | (released) r w' out l' where "tp_enabled pol" "vet_clear kw oe Outbound sid (tc_arguments ctx)"
    "inner ctx w = (Inr r, w')" "length (to_content r) \<le> tp_max_result_bytes pol"
    "vet_clear kw ie Inbound sid (to_content r)"
    "record_turn (ledger_params_from_config (kw_config kw)) sid
       (vet_flags kw oe Outbound sid (tc_arguments ctx) + vet_flags kw ie Inbound sid (to_content r)) l = (out, l')"
    "\<not> lo_blocked out" "execute kw oe ie inner ctx (w, l) = (Inr r, (w', l'))"
proof (cases "tp_enabled pol \<and> vet_clear kw oe Outbound sid (tc_arguments ctx)")
  case False
  then consider "\<not> tp_enabled pol" | "tp_enabled pol" "\<not> vet_clear kw oe Outbound sid (tc_arguments ctx)" by blast
  then show thesis
  proof cases
    case 1
    then show thesis using denied execute_denied [of kw ctx oe ie inner w l] by (simp add: pol_def)
  next
    case 2
    from vet_not_clear_run [OF 2(2)] obtain d where
      d: "vet kw oe (tc_arguments ctx) Outbound sid = Inl (Blocked d)" "is_block d" "findings_verdict (d_findings d) = Block"
      by blast
    have "execute kw oe ie inner ctx (w, l) = (Inl (Blocked d), (w, l))"
      using d 2(1) by (simp add: execute_def Let_def pol_def sid_def)
    with d 2 show thesis using outbound by blast
  qed
next
  case True
  then have en: "tp_enabled pol" and ob: "vet_clear kw oe Outbound sid (tc_arguments ctx)" by simp_all
  note ex = execute_cleared [of kw ctx oe ie inner w l, folded pol_def sid_def, OF en ob]
  obtain res w' where res: "inner ctx w = (res, w')" by fastforce
  show thesis
  proof (cases res)
    case (Inl e)
    then show thesis using tool_error [OF en ob] ex res by simp
  next
    case (Inr r)
    show thesis
    proof (cases "length (to_content r) \<le> tp_max_result_bytes pol")
      case False
      then show thesis using oversize [OF en ob, of r w'] ex res Inr by simp
    next
      case sz: True
      show thesis
      proof (cases "vet_clear kw ie Inbound sid (to_content r)")
        case False
        from vet_not_clear_run [OF this] obtain d where
          d: "vet kw ie (to_content r) Inbound sid = Inl (Blocked d)" "is_block d" "findings_verdict (d_findings d) = Block"
          by blast
        then show thesis using inbound [OF en ob _ sz False] ex res Inr sz by simp
      next
        case ib: True
        obtain out l' where rt: "record_turn (ledger_params_from_config (kw_config kw)) sid
            (vet_flags kw oe Outbound sid (tc_arguments ctx) + vet_flags kw ie Inbound sid (to_content r)) l = (out, l')"
          by fastforce
        have "\<lparr>to_content = to_content r\<rparr> = r" by simp
        then show thesis
          using anomaly [OF en ob _ sz ib rt] released [OF en ob _ sz ib rt] ex res Inr sz rt
          by (cases "lo_blocked out") (simp_all add: vet_clear_run [OF ib])
      qed
    qed
  qed
qed

section \<open>Properties\<close>

text \<open>C3: A tool result reaches the caller exactly when the tool is enabled, its arguments were clear
  (no blocking finding of Layer 1, every guard window answered PASS in time), the tool itself
  succeeded, the result is within the cap and clear in the same sense, and the session's score
  with the flags of both passes is below the threshold; and then it is the tool's result, unchanged.\<close>
theorem tool_result_released_iff:
  "fst (execute kw oe ie inner ctx (w, l)) = Inr out \<longleftrightarrow>
    tp_enabled (tool_policy_of (kw_config kw) (tc_tool_name ctx))
    \<and> vet_clear kw oe Outbound (tc_session_id ctx) (tc_arguments ctx)
    \<and> fst (inner ctx w) = Inr out
    \<and> length (to_content out) \<le> tp_max_result_bytes (tool_policy_of (kw_config kw) (tc_tool_name ctx))
    \<and> vet_clear kw ie Inbound (tc_session_id ctx) (to_content out)
    \<and> \<not> lo_blocked (fst (record_turn (ledger_params_from_config (kw_config kw)) (tc_session_id ctx)
        (vet_flags kw oe Outbound (tc_session_id ctx) (tc_arguments ctx)
         + vet_flags kw ie Inbound (tc_session_id ctx) (to_content out)) l))"
  by (cases rule: execute_cases [where kw = kw and ctx = ctx and oe = oe and ie = ie and inner = inner and w = w and l = l]) auto

text \<open>C17: The inner tool is never touched unless the call is enabled and its arguments are clear: then
  the tool ran exactly once, on the caller's context as it is; otherwise neither the world nor the
  ledger has changed and the caller gets a security block.\<close>
theorem tool_runs_only_on_clear_arguments:
  "if tp_enabled (tool_policy_of (kw_config kw) (tc_tool_name ctx))
      \<and> vet_clear kw oe Outbound (tc_session_id ctx) (tc_arguments ctx)
   then fst (snd (execute kw oe ie inner ctx (w, l))) = snd (inner ctx w)
   else snd (execute kw oe ie inner ctx (w, l)) = (w, l)
     \<and> (\<exists>e. fst (execute kw oe ie inner ctx (w, l)) = Inl e \<and> is_security_block e)"
  by (cases rule: execute_cases [where kw = kw and ctx = ctx and oe = oe and ie = ie and inner = inner and w = w and l = l]) auto

text \<open>C22: The ledger is touched by a call only after every check has passed, once, with the flags of
  both directions. A call that is denied, blocked in either direction, failed by the tool or
  oversized leaves no trace in the session's score, whatever advisory flags its arguments raised.\<close>
theorem ledger_updated_only_after_all_checks:
  "snd (snd (execute kw oe ie inner ctx (w, l))) =
    (case fst (inner ctx w) of
       Inl e \<Rightarrow> l
     | Inr r \<Rightarrow>
        if tp_enabled (tool_policy_of (kw_config kw) (tc_tool_name ctx))
          \<and> vet_clear kw oe Outbound (tc_session_id ctx) (tc_arguments ctx)
          \<and> length (to_content r) \<le> tp_max_result_bytes (tool_policy_of (kw_config kw) (tc_tool_name ctx))
          \<and> vet_clear kw ie Inbound (tc_session_id ctx) (to_content r)
        then snd (record_turn (ledger_params_from_config (kw_config kw)) (tc_session_id ctx)
          (vet_flags kw oe Outbound (tc_session_id ctx) (tc_arguments ctx)
           + vet_flags kw ie Inbound (tc_session_id ctx) (to_content r)) l)
        else l)"
  by (cases rule: execute_cases [where kw = kw and ctx = ctx and oe = oe and ie = ie and inner = inner and w = w and l = l]) (auto split: sum.split)

text \<open>C23: The wrapper fails closed: an error of a call is the inner tool's own, on cleared arguments, or
  a security block whose decision blocks; it is never a synthetic success.\<close>
theorem wrapper_fails_closed:
  assumes "fst (execute kw oe ie inner ctx (w, l)) = Inl e"
  shows "is_security_block e \<and> is_block (to_block_decision e sid dir)
    \<or> fst (inner ctx w) = Inl e \<and> vet_clear kw oe Outbound (tc_session_id ctx) (tc_arguments ctx)"
proof -
  have "is_security_block e \<and> error_ok e
    \<or> fst (inner ctx w) = Inl e \<and> vet_clear kw oe Outbound (tc_session_id ctx) (tc_arguments ctx)"
    using assms by (cases rule: execute_cases [where kw = kw and ctx = ctx and oe = oe and ie = ie and inner = inner and w = w and l = l]) (auto simp: is_block_def)
  then show ?thesis by (auto simp: is_block_def to_block_decision_blocks)
qed

definition closed_wrapper :: kernel_wrapper where
  "closed_wrapper = \<lparr>kw_challenge = (\<lambda>_. []), kw_guard = fanout_new 4 1 1000,
     kw_config = \<lparr>k_anomaly_threshold = Fin 3, k_anomaly_decay = Fin (1 / 2), k_anomaly_floor = Fin (1 / 2),
       k_flag_weight = Fin (1 / 2), k_max_sessions = 10, k_tools = Map.empty\<rparr>\<rparr>"

definition hung_env :: vet_env where
  "hung_env = \<lparr>ve_id = 1, ve_guard = (\<lambda>_. Hangs), ve_schedule = [], ve_challenge_time = 0,
     ve_guard_time = 0, ve_show_uuid = (\<lambda>_. [])\<rparr>"

definition search_call :: tool_context where
  "search_call = \<lparr>tc_session_id = 7, tc_tool_name = ''search'', tc_arguments = ''q'', tc_turn = 1\<rparr>"

theorem wrapper_fails_closed_witness:
  "is_block (to_block_decision (PolicyDenied ''search'' ''tool not enabled (deny-by-default)'') 7 Inbound)"
proof -
  have d: "fst (execute closed_wrapper hung_env hung_env (\<lambda>_ w. (Inr \<lparr>to_content = ''r''\<rparr>, w)) search_call ((), ledger_new))
      = Inl (PolicyDenied ''search'' ''tool not enabled (deny-by-default)'')"
    by (simp add: execute_def Let_def closed_wrapper_def search_call_def tool_policy_of_def default_tool_policy_def)
  from wrapper_fails_closed [OF d, of 7 Inbound] show ?thesis by simp
qed

text \<open>Wrappers compose: what leaves a wrapper around a wrapper was cleared by both, in both
  directions, under both policies, and stayed under both ledgers' thresholds.\<close>
theorem nested_wrappers_check_twice:
  assumes "fst (execute kw1 oe1 ie1 (execute kw2 oe2 ie2 inner) ctx ((w, l2), l1)) = Inr out"
  shows "fst (inner ctx w) = Inr out
    \<and> tp_enabled (tool_policy_of (kw_config kw1) (tc_tool_name ctx))
    \<and> tp_enabled (tool_policy_of (kw_config kw2) (tc_tool_name ctx))
    \<and> vet_clear kw1 oe1 Outbound (tc_session_id ctx) (tc_arguments ctx)
    \<and> vet_clear kw2 oe2 Outbound (tc_session_id ctx) (tc_arguments ctx)
    \<and> vet_clear kw1 ie1 Inbound (tc_session_id ctx) (to_content out)
    \<and> vet_clear kw2 ie2 Inbound (tc_session_id ctx) (to_content out)"
proof -
  from assms have 1: "tp_enabled (tool_policy_of (kw_config kw1) (tc_tool_name ctx))"
    "vet_clear kw1 oe1 Outbound (tc_session_id ctx) (tc_arguments ctx)"
    "fst (execute kw2 oe2 ie2 inner ctx (w, l2)) = Inr out"
    "vet_clear kw1 ie1 Inbound (tc_session_id ctx) (to_content out)"
    by (cases rule: execute_cases [where kw = kw1 and ctx = ctx and oe = oe1 and ie = ie1
      and inner = "execute kw2 oe2 ie2 inner" and w = "(w, l2)" and l = l1]; auto)+
  from 1(3) have "fst (inner ctx w) = Inr out" "tp_enabled (tool_policy_of (kw_config kw2) (tc_tool_name ctx))"
    "vet_clear kw2 oe2 Outbound (tc_session_id ctx) (tc_arguments ctx)"
    "vet_clear kw2 ie2 Inbound (tc_session_id ctx) (to_content out)"
    by (cases rule: execute_cases [where kw = kw2 and ctx = ctx and oe = oe2 and ie = ie2
      and inner = inner and w = w and l = l2]; auto)+
  with 1 show ?thesis by blast
qed

definition open_wrapper :: kernel_wrapper where
  "open_wrapper = closed_wrapper\<lparr>kw_config := (kw_config closed_wrapper)
     \<lparr>k_tools := [''search'' \<mapsto> \<lparr>tp_enabled = True, tp_max_result_bytes = 100\<rparr>]\<rparr>\<rparr>"

definition passing_env :: vet_env where
  "passing_env = hung_env\<lparr>ve_guard := \<lambda>_. Answers 5 (Inr pass_verdict)\<rparr>"

definition echo_tool :: "unit tool_executor" where
  "echo_tool ctx w = (Inr \<lparr>to_content = ''r''\<rparr>, w)"

theorem nested_wrappers_check_twice_witness:
  "vet_clear open_wrapper passing_env Inbound 7 ''r''"
proof -
  have "fst (execute open_wrapper passing_env passing_env
      (execute open_wrapper passing_env passing_env echo_tool) search_call (((), ledger_new), ledger_new))
    = Inr \<lparr>to_content = ''r''\<rparr>" by code_simp
  from nested_wrappers_check_twice [OF this] show ?thesis by (simp add: search_call_def)
qed

end
