(* ===== verification/Orch_Pipeline.thy ===== *)
theory Orch_Pipeline
  imports Orch_Client Challenge_Registry Kernel_Wrapper
begin

text \<open>
  The orchestrator's pipeline, \<open>ctp-orchestrator/src/pipeline.rs\<close>, and its assembly from the
  configuration in \<open>ctp-orchestrator/src/lib.rs\<close>. An evaluation returns its decision, the metrics it
  recorded, and the ledger it leaves. What the environment decides (the vetting pass, and the
  latencies measured around the layers) is a record.
\<close>

section \<open>The pipeline\<close>

record orchestrator =
  or_challenge :: challenge_scanner
  or_guard :: guard_fanout
  or_ledger_params :: ledger_params
  or_active_rules :: nat

definition orchestrator_new :: "challenge_scanner \<Rightarrow> guard_fanout \<Rightarrow> ledger_params \<Rightarrow> nat \<Rightarrow> orchestrator" where
  "orchestrator_new challenge guard ledger active_rules =
     \<lparr>or_challenge = challenge, or_guard = guard, or_ledger_params = ledger, or_active_rules = active_rules\<rparr>"

declare orchestrator_new_def [simp]

record eval_env =
  ee_vet :: vet_env
  ee_challenge_latency :: nanos
  ee_guard_latency :: nanos
  ee_kernel_latency :: nanos
  ee_elapsed :: nanos
  ee_total :: nanos

text \<open>\<open>finish_block\<close>, and what every path ends with: the decision is counted, then the whole latency.\<close>

definition finish_metrics :: "eval_env \<Rightarrow> direction \<Rightarrow> decision \<Rightarrow> metric list" where
  "finish_metrics env dir d = [record_decision dir (d_verdict d), PipelineLatency (ee_total env)]"

definition finish_block :: "eval_env \<Rightarrow> ctp_error \<Rightarrow> uuid \<Rightarrow> direction \<Rightarrow> decision \<times> metric list" where
  "finish_block env err sid dir =
     (let d = to_block_decision err sid dir in (d, finish_metrics env dir d))"

definition crossed_reason :: "f64 \<Rightarrow> string" where
  "crossed_reason x = ''cumulative session anomaly score '' @ fmt2 x @ '' crossed the threshold''"

definition evaluate ::
  "orchestrator \<Rightarrow> eval_env \<Rightarrow> bytes \<Rightarrow> direction \<Rightarrow> string option \<Rightarrow> uuid \<Rightarrow> ledger
    \<Rightarrow> (decision \<times> metric list) \<times> ledger" where
  "evaluate orc env bs dir tool_name sid l =
     (let v = ee_vet env;
          p = payload_new (ve_id v) bs dir;
          m1 = [LayerLatency ''challenge'' (ee_challenge_latency env)]
      in case payload_challenge (ve_show_uuid v) (or_challenge orc) sid (ve_challenge_time v) p of
        Inl err \<Rightarrow> (apsnd ((@) m1) (finish_block env err sid dir), l)
      | Inr (challenged, challenge_report) \<Rightarrow>
          (let m2 = m1 @ [LayerLatency ''guard'' (ee_guard_latency env)] in
           case payload_guard (ve_show_uuid v) (guard_findings (or_guard orc) (ve_guard v) (ve_schedule v))
               sid (ve_guard_time v) challenged of
             Inl err \<Rightarrow> (apsnd ((@) m2) (finish_block env err sid dir), l)
           | Inr (_, guard_report) \<Rightarrow>
               (let advisory = length (advisory_flags challenge_report) + length (advisory_flags guard_report);
                    findings = r_findings challenge_report @ r_findings guard_report;
                    (outcome, l') = record_turn (or_ledger_params orc) sid advisory l;
                    m3 = m2 @ [LayerLatency ''kernel'' (ee_kernel_latency env)];
                    d = (if lo_blocked outcome then
                           decision_block Kernel [finding_blocking ''anomaly_threshold''
                             (crossed_reason (lo_score outcome)) High] sid dir (ee_elapsed env)
                         else decision_pass Orchestrator findings sid dir (ee_elapsed env))
                in ((d, m3 @ finish_metrics env dir d), l'))))"

definition active_rules :: "orchestrator \<Rightarrow> nat" where
  "active_rules orc = or_active_rules orc"

section \<open>Assembly\<close>

text \<open>\<open>saturating_mul(2).max(200)\<close> on \<open>u64\<close> milliseconds, and the conversion to nanoseconds.\<close>

definition backstop_ms :: "u64 \<Rightarrow> nat" where
  "backstop_ms t = max (min (2 * unat t) (2 ^ 64 - 1)) 200"

definition ms_nanos :: "nat \<Rightarrow> nanos" where
  "ms_nanos ms = ms * 1000000"

definition client_of :: "guard_config \<Rightarrow> guard_client" where
  "client_of g = \<lparr>cl_timeout = ms_nanos (unat (g_timeout_ms g))\<rparr>"

definition build_orchestrator ::
  "unicode_tables \<Rightarrow> ('r, 'q) scan_api \<Rightarrow> ctp_config \<Rightarrow> (ctp_error + orchestrator) option" where
  "build_orchestrator tab a c =
     map_option (\<lambda>built. and_then built (\<lambda>layer.
       Inr (orchestrator_new (challenge_findings layer)
              (fanout_new (g_max_window_bytes (c_guard c)) (g_window_overlap_bytes (c_guard c))
                (ms_nanos (backstop_ms (g_timeout_ms (c_guard c)))))
              (fst (ledger_from_config (c_kernel c)))
              (length (rule_names layer)))))
     (layer_from_config tab a (c_challenge c))"

section \<open>The vetting pass inside\<close>

text \<open>The scanners are those of a wrapper; its configuration plays no role here.\<close>

definition wrapper_of :: "orchestrator \<Rightarrow> kernel_wrapper" where
  "wrapper_of orc = \<lparr>kw_challenge = or_challenge orc, kw_guard = or_guard orc,
     kw_config = \<lparr>k_anomaly_threshold = NaN, k_anomaly_decay = NaN, k_anomaly_floor = NaN, k_flag_weight = NaN,
       k_max_sessions = 0, k_tools = Map.empty\<rparr>\<rparr>"

definition orch_clear :: "orchestrator \<Rightarrow> vet_env \<Rightarrow> direction \<Rightarrow> uuid \<Rightarrow> bytes \<Rightarrow> bool" where
  "orch_clear orc v dir sid b \<longleftrightarrow> vet_clear (wrapper_of orc) v dir sid b"

definition orch_flags :: "orchestrator \<Rightarrow> vet_env \<Rightarrow> direction \<Rightarrow> uuid \<Rightarrow> bytes \<Rightarrow> nat" where
  "orch_flags orc v dir sid b = vet_flags (wrapper_of orc) v dir sid b"

lemma orch_clear_iff:
  "orch_clear orc v dir sid b \<longleftrightarrow>
    findings_verdict (or_challenge orc b) = Pass
    \<and> (\<forall>rq \<in> set (guard_requests (or_guard orc) b dir sid). answered_pass (gf_timeout (or_guard orc)) (ve_guard v rq))"
  by (simp add: orch_clear_def vet_clear_def wrapper_of_def)

lemma evaluate_clear:
  assumes "orch_clear orc (ee_vet env) dir sid b"
    and "record_turn (or_ledger_params orc) sid (orch_flags orc (ee_vet env) dir sid b) l = (out, l')"
  obtains fs where "evaluate orc env b dir tool sid l =
    (let d = (if lo_blocked out then decision_block Kernel [finding_blocking ''anomaly_threshold''
                (crossed_reason (lo_score out)) High] sid dir (ee_elapsed env)
              else decision_pass Orchestrator fs sid dir (ee_elapsed env))
     in ((d, [LayerLatency ''challenge'' (ee_challenge_latency env), LayerLatency ''guard'' (ee_guard_latency env),
              LayerLatency ''kernel'' (ee_kernel_latency env)] @ finish_metrics env dir d), l'))"
proof -
  let ?v = "ee_vet env"
  have "vet (wrapper_of orc) ?v b dir sid = Inr (b, orch_flags orc ?v dir sid b)"
    using vet_clear_run assms(1) by (simp add: orch_clear_def orch_flags_def)
  then obtain c cr w gr where
    "payload_challenge (ve_show_uuid ?v) (or_challenge orc) sid (ve_challenge_time ?v) (payload_new (ve_id ?v) b dir) = Inr (c, cr)"
    "payload_guard (ve_show_uuid ?v) (guard_findings (or_guard orc) (ve_guard ?v) (ve_schedule ?v)) sid (ve_guard_time ?v) c = Inr (w, gr)"
    "length (advisory_flags cr) + length (advisory_flags gr) = orch_flags orc ?v dir sid b"
    by (auto simp: vet_def Let_def and_then_Inr_iff wrapper_of_def)
  then show thesis
    using assms(2) by (intro that [of "r_findings cr @ r_findings gr"]) (simp add: evaluate_def Let_def)
qed

lemma evaluate_not_clear:
  assumes "\<not> orch_clear orc (ee_vet env) dir sid b"
  obtains d ms where "evaluate orc env b dir tool sid l = ((d, ms @ finish_metrics env dir d), l)"
    "ms \<in> {[LayerLatency ''challenge'' (ee_challenge_latency env)],
       [LayerLatency ''challenge'' (ee_challenge_latency env), LayerLatency ''guard'' (ee_guard_latency env)]}"
    "is_block d" "findings_verdict (d_findings d) = Block" "d_layer d \<in> {Challenge, Guard}"
    "d_session_id d = sid" "d_direction d = dir"
proof -
  let ?v = "ee_vet env"
  obtain d where d: "vet (wrapper_of orc) ?v b dir sid = Inl (Blocked d)" "is_block d" "findings_verdict (d_findings d) = Block"
    "d_layer d \<in> {Challenge, Guard}" "d_session_id d = sid" "d_direction d = dir"
    using vet_not_clear_run assms by (fastforce simp: orch_clear_def)
  then consider
    "payload_challenge (ve_show_uuid ?v) (or_challenge orc) sid (ve_challenge_time ?v) (payload_new (ve_id ?v) b dir) = Inl (Blocked d)"
  | c cr where
    "payload_challenge (ve_show_uuid ?v) (or_challenge orc) sid (ve_challenge_time ?v) (payload_new (ve_id ?v) b dir) = Inr (c, cr)"
    "payload_guard (ve_show_uuid ?v) (guard_findings (or_guard orc) (ve_guard ?v) (ve_schedule ?v)) sid (ve_guard_time ?v) c = Inl (Blocked d)"
    by (auto simp: vet_def Let_def and_then_Inl_iff wrapper_of_def)
  then show thesis
  proof cases
    case 1
    then show ?thesis
      using d(2-) by (intro that [of d "[LayerLatency ''challenge'' (ee_challenge_latency env)]"])
        (simp_all add: evaluate_def finish_block_def Let_def)
  next
    case 2
    then show ?thesis
      using d(2-) by (intro that [of d "[LayerLatency ''challenge'' (ee_challenge_latency env), LayerLatency ''guard'' (ee_guard_latency env)]"])
        (simp_all add: evaluate_def finish_block_def Let_def)
  qed
qed

section \<open>What an evaluation returns\<close>

lemma record_turn_pair: "\<exists>out l'. record_turn p sid n l = (out, l')"
  by fastforce

lemma single_blocking: "findings_verdict [finding_blocking s r v] = Block"
  by (auto simp: findings_verdict_Block_iff)

lemma evaluate_verdict:
  "d_verdict (fst (fst (evaluate orc env b dir tool sid l))) = Pass \<longleftrightarrow>
    findings_verdict (or_challenge orc b) = Pass
    \<and> list_all (\<lambda>rq. answered_pass (gf_timeout (or_guard orc)) (ve_guard (ee_vet env) rq)) (guard_requests (or_guard orc) b dir sid)
    \<and> \<not> lo_blocked (fst (record_turn (or_ledger_params orc) sid (orch_flags orc (ee_vet env) dir sid b) l))"
proof (cases "orch_clear orc (ee_vet env) dir sid b")
  case True
  obtain out l' where r: "record_turn (or_ledger_params orc) sid (orch_flags orc (ee_vet env) dir sid b) l = (out, l')"
    using record_turn_pair by blast
  obtain fs where e: "evaluate orc env b dir tool sid l =
    (let d = (if lo_blocked out then decision_block Kernel [finding_blocking ''anomaly_threshold''
                (crossed_reason (lo_score out)) High] sid dir (ee_elapsed env)
              else decision_pass Orchestrator fs sid dir (ee_elapsed env))
     in ((d, [LayerLatency ''challenge'' (ee_challenge_latency env), LayerLatency ''guard'' (ee_guard_latency env),
              LayerLatency ''kernel'' (ee_kernel_latency env)] @ finish_metrics env dir d), l'))"
    by (rule evaluate_clear [OF True r, where tool = tool])
  show ?thesis using True r by (simp add: e orch_clear_iff list_all_iff Let_def)
next
  case False
  obtain d ms where "evaluate orc env b dir tool sid l = ((d, ms @ finish_metrics env dir d), l)" "is_block d"
    by (rule evaluate_not_clear [OF False, where tool = tool]) blast
  then show ?thesis using False by (auto simp: is_block_def orch_clear_iff list_all_iff)
qed

text \<open>C6: The gateway's decision is PASS exactly when the challenge layer raises no blocking finding, the guard answered
  PASS in time for every window, and the ledger, charged once with the advisory flags of both layers, does not
  block the session; whatever the tool name.\<close>
theorem evaluate_pass_iff:
  "d_verdict (fst (fst (evaluate orc env b dir tool sid l))) = Pass \<longleftrightarrow>
    findings_verdict (or_challenge orc b) = Pass
    \<and> list_all (\<lambda>rq. answered_pass (gf_timeout (or_guard orc)) (ve_guard (ee_vet env) rq)) (guard_requests (or_guard orc) b dir sid)
    \<and> \<not> lo_blocked (fst (record_turn (or_ledger_params orc) sid (orch_flags orc (ee_vet env) dir sid b) l))"
  by (rule evaluate_verdict)

text \<open>Which layer a decision comes from.\<close>

lemma evaluate_challenge_block:
  assumes "findings_verdict (or_challenge orc b) = Block"
  shows "d_verdict (fst (fst (evaluate orc env b dir tool sid l))) = Block"
    "d_layer (fst (fst (evaluate orc env b dir tool sid l))) = Challenge"
proof -
  have "findings_verdict (or_challenge orc (p_bytes (payload_new (ve_id (ee_vet env)) b dir :: tainted payload))) = Block"
    using assms by simp
  from l1.dirty [where scan = "or_challenge orc" and show_uuid = "ve_show_uuid (ee_vet env)" and sid = sid
      and elapsed = "ve_challenge_time (ee_vet env)", OF refl this] assms
  show "d_verdict (fst (fst (evaluate orc env b dir tool sid l))) = Block"
    "d_layer (fst (fst (evaluate orc env b dir tool sid l))) = Challenge"
    by (auto simp: evaluate_def finish_block_def Let_def)
qed

lemma evaluate_guard_block:
  assumes "findings_verdict (or_challenge orc b) = Pass" "\<not> orch_clear orc (ee_vet env) dir sid b"
  shows "d_verdict (fst (fst (evaluate orc env b dir tool sid l))) = Block"
    "d_layer (fst (fst (evaluate orc env b dir tool sid l))) = Guard"
proof -
  let ?v = "ee_vet env"
  let ?p = "payload_new (ve_id ?v) b dir" and ?gs = "guard_findings (or_guard orc) (ve_guard ?v) (ve_schedule ?v)"
  have c: "findings_verdict (or_challenge orc (p_bytes ?p)) = Pass" using assms(1) by simp
  obtain fs where fs: "?gs b dir sid = Inr fs"
    by (cases "?gs b dir sid") (auto simp: guard_findings_total)
  have "findings_verdict fs = Block"
    using assms guard_findings_verdict [OF fs] by (cases "findings_verdict fs") (auto simp: orch_clear_iff)
  moreover obtain t where "payload_challenge (ve_show_uuid ?v) (or_challenge orc) sid (ve_challenge_time ?v) ?p
      = Inr (rebind ?p, layer_report_new (p_id ?p) Challenge sid (or_challenge orc (p_bytes ?p)) t)"
    using l1.clean [where scan = "or_challenge orc" and p = ?p, OF refl c] by blast
  moreover obtain u where "payload_guard (ve_show_uuid ?v) ?gs sid (ve_guard_time ?v) (rebind ?p :: challenged payload)
      = Inl (Blocked (into_decision (layer_report_new (p_id ?p) Guard sid fs u) dir))"
    using l2.dirty [of ?gs "rebind ?p" sid fs] fs calculation by auto
  ultimately show "d_verdict (fst (fst (evaluate orc env b dir tool sid l))) = Block"
    "d_layer (fst (fst (evaluate orc env b dir tool sid l))) = Guard"
    by (simp_all add: evaluate_def finish_block_def Let_def)
qed

lemma evaluate_layer:
  "d_layer (fst (fst (evaluate orc env b dir tool sid l))) =
    (if findings_verdict (or_challenge orc b) = Block then Challenge
     else if \<not> orch_clear orc (ee_vet env) dir sid b then Guard
     else if lo_blocked (fst (record_turn (or_ledger_params orc) sid (orch_flags orc (ee_vet env) dir sid b) l)) then Kernel
     else Orchestrator)"
proof (cases "orch_clear orc (ee_vet env) dir sid b")
  case True
  obtain out l' where r: "record_turn (or_ledger_params orc) sid (orch_flags orc (ee_vet env) dir sid b) l = (out, l')"
    using record_turn_pair by blast
  obtain fs where e: "evaluate orc env b dir tool sid l =
    (let d = (if lo_blocked out then decision_block Kernel [finding_blocking ''anomaly_threshold''
                (crossed_reason (lo_score out)) High] sid dir (ee_elapsed env)
              else decision_pass Orchestrator fs sid dir (ee_elapsed env))
     in ((d, [LayerLatency ''challenge'' (ee_challenge_latency env), LayerLatency ''guard'' (ee_guard_latency env),
              LayerLatency ''kernel'' (ee_kernel_latency env)] @ finish_metrics env dir d), l'))"
    by (rule evaluate_clear [OF True r, where tool = tool])
  show ?thesis using True r by (simp add: e orch_clear_iff Let_def)
next
  case False
  then show ?thesis
    using evaluate_challenge_block(2) [of orc b env dir tool sid l] evaluate_guard_block(2) [OF _ False, of tool l]
    by (cases "findings_verdict (or_challenge orc b)") simp_all
qed

text \<open>C26: A decision names the layer that made it: a BLOCK is attributed to the challenge layer exactly when that layer
  raised a blocking finding, to the guard exactly when the challenge layer was clear and some window was not
  answered PASS in time, and to the kernel exactly when both were clear and the ledger blocked the session; a PASS
  is the orchestrator's.\<close>
theorem decision_names_its_layer:
  "d_layer (fst (fst (evaluate orc env b dir tool sid l))) =
      (if findings_verdict (or_challenge orc b) = Block then Challenge
       else if list_ex (\<lambda>rq. \<not> answered_pass (gf_timeout (or_guard orc)) (ve_guard (ee_vet env) rq)) (guard_requests (or_guard orc) b dir sid)
         then Guard
       else if lo_blocked (fst (record_turn (or_ledger_params orc) sid (orch_flags orc (ee_vet env) dir sid b) l)) then Kernel
       else Orchestrator)
    \<and> (d_layer (fst (fst (evaluate orc env b dir tool sid l))) = Orchestrator) =
        (d_verdict (fst (fst (evaluate orc env b dir tool sid l))) = Pass)"
proof -
  have c: "list_ex (\<lambda>rq. \<not> answered_pass (gf_timeout (or_guard orc)) (ve_guard (ee_vet env) rq)) (guard_requests (or_guard orc) b dir sid)
      \<longleftrightarrow> \<not> list_all (\<lambda>rq. answered_pass (gf_timeout (or_guard orc)) (ve_guard (ee_vet env) rq)) (guard_requests (or_guard orc) b dir sid)"
    by (auto simp: list_ex_iff list_all_iff)
  show ?thesis
    unfolding evaluate_layer evaluate_verdict c orch_clear_iff
    by (cases "findings_verdict (or_challenge orc b)") (auto simp: list_all_iff)
qed

definition is_decision_count :: "metric \<Rightarrow> bool" where
  "is_decision_count m \<longleftrightarrow> (case m of DecisionCount _ _ \<Rightarrow> True | _ \<Rightarrow> False)"

lemma evaluation_accounting:
  "\<exists>d ms. evaluate orc env b dir tool sid l =
      ((d, ms @ [DecisionCount (dir_label dir) (verdict_label (d_verdict d)), PipelineLatency (ee_total env)]),
       if orch_clear orc (ee_vet env) dir sid b
       then snd (record_turn (or_ledger_params orc) sid (orch_flags orc (ee_vet env) dir sid b) l) else l)
    \<and> filter is_decision_count ms = []
    \<and> (d_verdict d = Pass \<or> findings_verdict (d_findings d) = Block)
    \<and> d_session_id d = sid \<and> d_direction d = dir"
proof (cases "orch_clear orc (ee_vet env) dir sid b")
  case True
  obtain out l' where r: "record_turn (or_ledger_params orc) sid (orch_flags orc (ee_vet env) dir sid b) l = (out, l')"
    using record_turn_pair by blast
  obtain fs where e: "evaluate orc env b dir tool sid l =
    (let d = (if lo_blocked out then decision_block Kernel [finding_blocking ''anomaly_threshold''
                (crossed_reason (lo_score out)) High] sid dir (ee_elapsed env)
              else decision_pass Orchestrator fs sid dir (ee_elapsed env))
     in ((d, [LayerLatency ''challenge'' (ee_challenge_latency env), LayerLatency ''guard'' (ee_guard_latency env),
              LayerLatency ''kernel'' (ee_kernel_latency env)] @ finish_metrics env dir d), l'))"
    by (rule evaluate_clear [OF True r, where tool = tool])
  show ?thesis
    using True r by (auto simp: e Let_def finish_metrics_def record_decision_def is_decision_count_def single_blocking)
next
  case False
  obtain d ms where "evaluate orc env b dir tool sid l = ((d, ms @ finish_metrics env dir d), l)"
    "ms \<in> {[LayerLatency ''challenge'' (ee_challenge_latency env)],
       [LayerLatency ''challenge'' (ee_challenge_latency env), LayerLatency ''guard'' (ee_guard_latency env)]}"
    "findings_verdict (d_findings d) = Block" "d_session_id d = sid" "d_direction d = dir"
    by (rule evaluate_not_clear [OF False, where tool = tool]) blast
  then show ?thesis
    using False by (intro exI [of _ d] exI [of _ ms]) (auto simp: finish_metrics_def record_decision_def is_decision_count_def)
qed

text \<open>C27: Every evaluation ends in a decision and is accounted for: a BLOCK carries a blocking finding; the ledger
  changes, by one turn, exactly when all the checks before it passed; exactly one decision is counted, under the
  direction asked for and the verdict returned, and the whole latency is recorded last.\<close>
theorem evaluation_is_accounted:
  "\<exists>d ms. evaluate orc env b dir tool sid l =
      ((d, ms @ [DecisionCount (dir_label dir) (verdict_label (d_verdict d)), PipelineLatency (ee_total env)]),
       if orch_clear orc (ee_vet env) dir sid b
       then snd (record_turn (or_ledger_params orc) sid (orch_flags orc (ee_vet env) dir sid b) l) else l)
    \<and> filter is_decision_count ms = []
    \<and> (d_verdict d = Pass \<or> findings_verdict (d_findings d) = Block)
    \<and> d_session_id d = sid \<and> d_direction d = dir"
  by (rule evaluation_accounting)

section \<open>The deadlines\<close>

lemma backstop_covers: "unat t \<le> backstop_ms t"
proof -
  have "unat t < 2 ^ 64" using unsigned_less [of t] by simp
  then show ?thesis by (simp add: backstop_ms_def)
qed

lemma client_within_backstop:
  assumes "build_orchestrator tab a c = Some (Inr orc)"
  shows "cl_timeout (client_of (c_guard c)) \<le> gf_timeout (or_guard orc)"
  using assms backstop_covers [of "g_timeout_ms (c_guard c)"]
  by (auto simp: build_orchestrator_def and_then_Inr_iff fanout_new_def client_of_def ms_nanos_def)

text \<open>C25: In an assembled orchestrator every window is settled by the client's deadline, whatever the channel does:
  the fan-out's own longer timeout never fires and no task is lost, so what reaches the findings is always the
  client's own typed result.\<close>
theorem typed_result_always_surfaces:
  assumes "build_orchestrator tab a c = Some (Inr orc)"
  shows "\<exists>t r. client_check ua (client_of (c_guard c)) ch rq = Answers t r
    \<and> t \<le> ms_nanos (unat (g_timeout_ms (c_guard c)))
    \<and> run_window (gf_timeout (or_guard orc)) (client_check ua (client_of (c_guard c)) ch rq) = Joined r
    \<and> r = fst (snd (client_call ua (client_of (c_guard c)) ch rq))"
proof -
  obtain t r where "client_check ua (client_of (c_guard c)) ch rq = Answers t r" "t \<le> cl_timeout (client_of (c_guard c))"
    "run_window (gf_timeout (or_guard orc)) (client_check ua (client_of (c_guard c)) ch rq) = Joined r"
    by (rule client.settled [OF client_within_backstop [OF assms]])
  moreover then have "r = fst (snd (client_call ua (client_of (c_guard c)) ch rq))"
    using client_check_answers [of ua "client_of (c_guard c)" ch rq] by auto
  ultimately show ?thesis by (auto simp: client_of_def)
qed

section \<open>From the gateway to the model\<close>

text \<open>A channel to a guard server delivers, if anything, that server's response to the message.\<close>

definition connects :: "rpc_channel \<Rightarrow> json_api \<Rightarrow> wire_api \<Rightarrow> guard_server \<Rightarrow> bool" where
  "connects ch js ua srv \<longleftrightarrow>
     (\<forall>q t resp. ch q = Replies t (Inr resp) \<longrightarrow> (\<exists>nonce el. resp = server_classify js ua srv nonce el q))"

definition model_passed :: "json_api \<Rightarrow> guard_server \<Rightarrow> guard_request \<Rightarrow> bool" where
  "model_passed js srv rq \<longleftrightarrow>
     (\<exists>nonce raw v. be_infer (gs_backend srv) (build_prompt (gs_system_prompt srv) rq nonce) = Inr raw
        \<and> parse_strict js raw = Inr v \<and> sv_verdict v = Pass)"

lemma client_pass_is_model_pass:
  assumes ch: "connects ch js ua srv" and ua: "uuid_ok ua" and rq: "gr_tool_name rq = None"
    and pass: "answered_pass timeout (client_check ua cl ch rq)"
  shows "model_passed js srv rq \<and> length (gr_window rq) \<le> gs_max_window_bytes srv"
proof -
  obtain t v where "client_check ua cl ch rq = Answers t (Inr v)" "gv_verdict v = Pass"
    using pass by (auto simp: answered_pass_def)
  then obtain resp where resp: "ch (to_proto ua rq) = Replies t (Inr resp)" "cs_verdict resp = 1"
    using client_pass_on_wire by blast
  then obtain nonce el where s: "resp = server_classify js ua srv nonce el (to_proto ua rq)"
    using ch unfolding connects_def by blast
  have "request_of ua (to_proto ua rq) = Some rq"
    using request_of_to_proto [OF ua, of rq] rq by simp
  with resp(2) show ?thesis
    unfolding s server_verdict model_passed_def by (auto split: if_splits)
qed

lemma window_request_no_tool: "rq \<in> set (guard_requests f b dir sid) \<Longrightarrow> gr_tool_name rq = None"
  by (auto simp: guard_requests_def window_request_def Let_def)

text \<open>A PASS of the gateway means a PASS of the model on everything: with the orchestrator's client connected to a
  guard server, a payload is passed only if the model's own answer to the prompt of every window parsed strictly to
  PASS, every window being within the server's cap, and the configured challenge layer found nothing blocking.\<close>
lemma pass_means_model_passed:
  assumes built: "build_orchestrator tab a c = Some (Inr orc)"
    and guard: "ve_guard (ee_vet env) = client_check ua (client_of (c_guard c)) ch"
    and wire: "connects ch js ua srv" "uuid_ok ua"
    and pass: "d_verdict (fst (fst (evaluate orc env b dir tool sid l))) = Pass"
  shows "(\<forall>rq \<in> set (guard_requests (or_guard orc) b dir sid). model_passed js srv rq \<and> length (gr_window rq) \<le> gs_max_window_bytes srv)
    \<and> (\<exists>layer. layer_from_config tab a (c_challenge c) = Some (Inr layer) \<and> findings_verdict (challenge_findings layer b) = Pass)"
proof -
  have "orch_clear orc (ee_vet env) dir sid b"
  proof (rule ccontr)
    assume "\<not> orch_clear orc (ee_vet env) dir sid b"
    then obtain d ms where "evaluate orc env b dir tool sid l = ((d, ms @ finish_metrics env dir d), l)" "is_block d"
      by (rule evaluate_not_clear [where tool = tool]) blast
    with pass show False by (simp add: is_block_def)
  qed
  then have clear: "findings_verdict (or_challenge orc b) = Pass"
    "\<forall>rq \<in> set (guard_requests (or_guard orc) b dir sid).
       answered_pass (gf_timeout (or_guard orc)) (client_check ua (client_of (c_guard c)) ch rq)"
    by (simp_all add: orch_clear_iff guard)
  have "model_passed js srv rq \<and> length (gr_window rq) \<le> gs_max_window_bytes srv"
    if "rq \<in> set (guard_requests (or_guard orc) b dir sid)" for rq
    using client_pass_is_model_pass [OF wire window_request_no_tool [OF that]] clear(2) that by blast
  moreover obtain layer where "layer_from_config tab a (c_challenge c) = Some (Inr layer)" "or_challenge orc = challenge_findings layer"
    using built by (auto simp: build_orchestrator_def and_then_Inr_iff)
  ultimately show ?thesis using clear(1) by auto
qed

section \<open>A gateway assembled and passing\<close>

definition small_config :: ctp_config where
  "small_config = \<lparr>c_challenge = toy_challenge_config,
     c_guard = \<lparr>g_socket_path = ''/run/ctp/guard.sock'', g_backend = Mock, g_model_path = None, g_timeout_ms = 800,
       g_max_window_bytes = 64, g_window_overlap_bytes = 16, g_max_concurrent = 8, g_prompt_version = ''guard_system_v1''\<rparr>,
     c_kernel = \<lparr>k_anomaly_threshold = Fin 3, k_anomaly_decay = Fin (1 / 2), k_anomaly_floor = Fin 1, k_flag_weight = Fin (1 / 2),
       k_max_sessions = 8, k_tools = Map.empty\<rparr>,
     c_orchestrator = \<lparr>o_listen = ''127.0.0.1:50051'', o_metrics_listen = ''127.0.0.1:9464''\<rparr>\<rparr>"

definition small_layer :: challenge_layer where
  "small_layer = projr (the (layer_from_config latin_tables toy_api toy_challenge_config))"

definition small_orchestrator :: orchestrator where
  "small_orchestrator = \<lparr>or_challenge = challenge_findings small_layer, or_guard = fanout_new 64 16 (ms_nanos 1600),
     or_ledger_params = ledger_params_from_config (c_kernel small_config), or_active_rules = 3\<rparr>"

lemma small_layer: "layer_from_config latin_tables toy_api toy_challenge_config = Some (Inr small_layer)"
  by (simp add: small_layer_def layer_from_config_def from_specs_def with_limits_def toy_api_def toy_challenge_config_def
      dd_compile_def Let_def)

lemma small_rules: "length (rule_names small_layer) = 3"
  by (simp add: small_layer_def layer_from_config_def from_specs_def with_limits_def toy_api_def toy_challenge_config_def
      dd_compile_def Let_def rule_names_def)

lemma small_built: "build_orchestrator latin_tables toy_api small_config = Some (Inr small_orchestrator)"
proof -
  have "layer_from_config latin_tables toy_api (c_challenge small_config) = Some (Inr small_layer)"
    using small_layer by (simp add: small_config_def)
  moreover have "backstop_ms 800 = 1600" by (simp add: backstop_ms_def)
  ultimately show ?thesis
    using small_rules by (simp add: build_orchestrator_def small_orchestrator_def small_config_def ledger_from_config_def)
qed

lemma typed_result_always_surfaces_witness:
  "run_window (gf_timeout (or_guard small_orchestrator)) (client_check unary_uuids (client_of (c_guard small_config)) (\<lambda>_. NoReply) sample_request)
    = Joined (Inl (GuardTimeout 800))"
proof -
  obtain t r where "run_window (gf_timeout (or_guard small_orchestrator))
      (client_check unary_uuids (client_of (c_guard small_config)) (\<lambda>_. NoReply) sample_request) = Joined r"
    "r = fst (snd (client_call unary_uuids (client_of (c_guard small_config)) (\<lambda>_. NoReply) sample_request))"
    using typed_result_always_surfaces [OF small_built, of unary_uuids "\<lambda>_. NoReply" sample_request] by blast
  then show ?thesis by (simp add: client_call_def client_of_def small_config_def ms_nanos_def budget_ms_def Let_def)
qed

definition passing_json :: json_api where
  "passing_json = \<lparr>ja_parse = (\<lambda>s. Some (JArr [JStr ''PASS'', JNum 0, JArr []])), ja_error = (\<lambda>s. [])\<rparr>"

definition passing_server :: guard_server where
  "passing_server = guard_server_new \<lparr>be_model_id = ''m'', be_infer = (\<lambda>p. Inr ''{}'')\<rparr> ''sys'' 64"

definition direct_channel :: rpc_channel where
  "direct_channel q = Replies 5 (Inr (server_classify passing_json unary_uuids passing_server ''ab'' 1000 q))"

definition small_env :: eval_env where
  "small_env = \<lparr>ee_vet = hung_env\<lparr>ve_guard := client_check unary_uuids (client_of (c_guard small_config)) direct_channel\<rparr>,
     ee_challenge_latency = 1, ee_guard_latency = 2, ee_kernel_latency = 3, ee_elapsed = 6, ee_total = 6\<rparr>"

abbreviation hello_request :: guard_request where
  "hello_request \<equiv> window_request Inbound 7 1 0 ''hello''"

lemma small_requests: "guard_requests (or_guard small_orchestrator) ''hello'' Inbound 7 = [hello_request]"
  by code_simp

lemma small_challenge: "or_challenge small_orchestrator ''hello'' = []"
  by code_simp

lemma small_answer:
  "client_check unary_uuids (client_of (c_guard small_config)) direct_channel hello_request =
    Answers 5 (Inr \<lparr>gv_verdict = Pass, gv_confidence = Fin 0, gv_flags = [], gv_model_id = ''m'', gv_inference = 1000\<rparr>)"
  by code_simp

lemma small_unblocked: "\<not> lo_blocked (fst (record_turn (or_ledger_params small_orchestrator) 7 0 ledger_new))"
  by code_simp

lemma small_passes_with:
  assumes g: "ve_guard (ee_vet env) hello_request = Answers 5 (Inr v)" "gv_verdict v = Pass" "gv_flags v = []"
  shows "orch_flags small_orchestrator (ee_vet env) Inbound 7 ''hello'' = 0"
    and "d_verdict (fst (fst (evaluate small_orchestrator env ''hello'' Inbound None 7 ledger_new))) = Pass"
proof -
  have t: "gf_timeout (or_guard small_orchestrator) = 1600000000"
    by (simp add: small_orchestrator_def fanout_new_def ms_nanos_def)
  show f: "orch_flags small_orchestrator (ee_vet env) Inbound 7 ''hello'' = 0"
    using small_requests small_challenge t g by (simp add: orch_flags_def vet_flags_def wrapper_of_def window_findings_def)
  show "d_verdict (fst (fst (evaluate small_orchestrator env ''hello'' Inbound None 7 ledger_new))) = Pass"
    unfolding evaluate_verdict f using small_requests small_challenge g t small_unblocked
    by (simp add: answered_pass_def findings_verdict_Pass_iff)
qed

lemma small_guard: "ve_guard (ee_vet small_env) hello_request =
    Answers 5 (Inr \<lparr>gv_verdict = Pass, gv_confidence = Fin 0, gv_flags = [], gv_model_id = ''m'', gv_inference = 1000\<rparr>)"
  using small_answer by (simp add: small_env_def)

lemma small_hello_flags: "orch_flags small_orchestrator (ee_vet small_env) Inbound 7 ''hello'' = 0"
  by (rule small_passes_with(1) [OF small_guard]) simp_all

lemma small_passes: "d_verdict (fst (fst (evaluate small_orchestrator small_env ''hello'' Inbound None 7 ledger_new))) = Pass"
  by (rule small_passes_with(2) [OF small_guard]) simp_all

lemma direct_connects: "connects direct_channel passing_json unary_uuids passing_server"
  by (auto simp: connects_def direct_channel_def)

lemma pass_means_model_passed_witness:
  "model_passed passing_json passing_server (hd (guard_requests (or_guard small_orchestrator) ''hello'' Inbound 7))"
proof -
  have "ve_guard (ee_vet small_env) = client_check unary_uuids (client_of (c_guard small_config)) direct_channel"
    by (simp add: small_env_def)
  from pass_means_model_passed [OF small_built this direct_connects unary_uuids_ok small_passes]
  show ?thesis using hd_in_set [OF guard_requests_nonempty] by blast
qed

end
