(* ===== verification/Orch_Gateway.thy ===== *)
theory Orch_Gateway
  imports Orch_Pipeline
begin

text \<open>
  The external surface of the orchestrator, \<open>ctp-orchestrator/src/grpc.rs\<close>, over the messages of
  \<open>proto/orchestrator.proto\<close>: the envelope is translated, a bad direction is refused at the boundary,
  and everything else goes through the pipeline.
\<close>

section \<open>The messages\<close>

record evaluate_request =
  eq_payload :: bytes
  eq_direction :: int
  eq_tool_name :: string
  eq_session_id :: string

record proto_finding =
  pf_source :: string
  pf_reason :: string
  pf_severity :: string
  pf_disposition :: string

record evaluate_response =
  er_verdict :: int
  er_layer :: string
  er_findings :: "proto_finding list"
  er_elapsed_micros :: u64
  er_session_id :: string

record gateway_health =
  gh_ready :: bool
  gh_active_rules :: u32

definition to_proto_finding :: "finding \<Rightarrow> proto_finding" where
  "to_proto_finding f =
     \<lparr>pf_source = f_source f, pf_reason = f_reason f, pf_severity = show_severity (f_severity f),
      pf_disposition = (case f_disposition f of Blocking \<Rightarrow> ''blocking'' | Advisory \<Rightarrow> ''advisory'')\<rparr>"

definition to_proto_response :: "wire_api \<Rightarrow> decision \<Rightarrow> uuid \<Rightarrow> evaluate_response" where
  "to_proto_response ua d sid =
     \<lparr>er_verdict = verdict_number (case d_verdict d of Pass \<Rightarrow> VerdictPass | Block \<Rightarrow> VerdictBlock),
      er_layer = show_layer (d_layer d), er_findings = map to_proto_finding (d_findings d),
      er_elapsed_micros = of_nat (d_elapsed d div 1000), er_session_id = ua_show ua sid\<rparr>"

definition boundary_block :: "wire_api \<Rightarrow> uuid \<Rightarrow> string \<Rightarrow> evaluate_response" where
  "boundary_block ua sid reason =
     \<lparr>er_verdict = verdict_number VerdictBlock, er_layer = ''orchestrator'',
      er_findings = [\<lparr>pf_source = ''request_validation'', pf_reason = reason, pf_severity = ''high'', pf_disposition = ''blocking''\<rparr>],
      er_elapsed_micros = 0, er_session_id = ua_show ua sid\<rparr>"

section \<open>The service\<close>

text \<open>The session named by the request, or the fresh one the environment generates.\<close>

definition session_of :: "wire_api \<Rightarrow> uuid \<Rightarrow> evaluate_request \<Rightarrow> uuid" where
  "session_of ua fresh r =
     (if eq_session_id r = [] then fresh
      else case ua_parse ua (eq_session_id r) of Some u \<Rightarrow> u | None \<Rightarrow> fresh)"

definition direction_of :: "evaluate_request \<Rightarrow> direction option" where
  "direction_of r =
     (case direction_of_number (eq_direction r) of
        Some DirectionInbound \<Rightarrow> Some Inbound
      | Some DirectionOutbound \<Rightarrow> Some Outbound
      | _ \<Rightarrow> None)"

definition gateway_evaluate ::
  "wire_api \<Rightarrow> orchestrator \<Rightarrow> uuid \<Rightarrow> eval_env \<Rightarrow> evaluate_request \<Rightarrow> ledger
    \<Rightarrow> (evaluate_response \<times> metric list) \<times> ledger" where
  "gateway_evaluate ua orc fresh env r l =
     (let sid = session_of ua fresh r in
      case direction_of r of
        None \<Rightarrow> ((boundary_block ua sid ''invalid direction'', []), l)
      | Some dir \<Rightarrow>
          (let tool_name = (if eq_tool_name r = [] then None else Some (eq_tool_name r));
               ((d, ms), l') = evaluate orc env (eq_payload r) dir tool_name sid l
           in ((to_proto_response ua d sid, ms), l')))"

definition gateway_health :: "orchestrator \<Rightarrow> gateway_health" where
  "gateway_health orc = \<lparr>gh_ready = True, gh_active_rules = of_nat (active_rules orc)\<rparr>"

section \<open>The boundary fails closed\<close>

lemma direction_of_cases:
  "direction_of r = (if eq_direction r = 1 then Some Inbound else if eq_direction r = 2 then Some Outbound else None)"
  by (simp add: direction_of_def direction_of_number_simps)

text \<open>C11: On the wire the gateway answers PASS (1) exactly when the direction on the wire is the number 1 (inbound) or 2
  (outbound) and the pipeline's decision for that payload, direction and tool, in the session the request names, or in a
  fresh one when it names none or none that parses, is PASS; and BLOCK (2) otherwise, never anything else. The caller is
  told that session. With a valid direction the metrics and the ledger are those of that evaluation; a request with any other direction
  leaves both untouched.\<close>
theorem gateway_pass_iff:
  "er_verdict (fst (fst (gateway_evaluate ua orc fresh env r l))) =
      (if (eq_direction r = 1 \<or> eq_direction r = 2)
          \<and> d_verdict (fst (fst (evaluate orc env (eq_payload r) (if eq_direction r = 1 then Inbound else Outbound)
              (if eq_tool_name r = [] then None else Some (eq_tool_name r))
              (if eq_session_id r = [] then fresh
               else case ua_parse ua (eq_session_id r) of Some u \<Rightarrow> u | None \<Rightarrow> fresh) l))) = Pass
       then 1 else 2)
    \<and> er_session_id (fst (fst (gateway_evaluate ua orc fresh env r l))) =
        ua_show ua (if eq_session_id r = [] then fresh
                    else case ua_parse ua (eq_session_id r) of Some u \<Rightarrow> u | None \<Rightarrow> fresh)
    \<and> (snd (fst (gateway_evaluate ua orc fresh env r l)), snd (gateway_evaluate ua orc fresh env r l)) =
        (if eq_direction r = 1 \<or> eq_direction r = 2 then
           (snd (fst (evaluate orc env (eq_payload r) (if eq_direction r = 1 then Inbound else Outbound)
              (if eq_tool_name r = [] then None else Some (eq_tool_name r))
              (if eq_session_id r = [] then fresh
               else case ua_parse ua (eq_session_id r) of Some u \<Rightarrow> u | None \<Rightarrow> fresh) l)),
            snd (evaluate orc env (eq_payload r) (if eq_direction r = 1 then Inbound else Outbound)
              (if eq_tool_name r = [] then None else Some (eq_tool_name r))
              (if eq_session_id r = [] then fresh
               else case ua_parse ua (eq_session_id r) of Some u \<Rightarrow> u | None \<Rightarrow> fresh) l))
         else ([], l))"
proof (cases "direction_of r")
  case None
  then show ?thesis
    by (auto simp: gateway_evaluate_def direction_of_cases boundary_block_def session_of_def Let_def split: if_splits)
next
  case (Some dir)
  then have dir: "eq_direction r = 1 \<and> dir = Inbound \<or> eq_direction r = 2 \<and> dir = Outbound"
    by (auto simp: direction_of_cases split: if_splits)
  let ?tool = "if eq_tool_name r = [] then None else Some (eq_tool_name r)"
  obtain d ms l' where e: "evaluate orc env (eq_payload r) dir ?tool (session_of ua fresh r) l = ((d, ms), l')"
    by (metis prod.exhaust)
  have g: "gateway_evaluate ua orc fresh env r l = ((to_proto_response ua d (session_of ua fresh r), ms), l')"
    by (simp add: gateway_evaluate_def Some e Let_def)
  have "er_verdict (to_proto_response ua d sid) = (if d_verdict d = Pass then 1 else 2)"
    "er_session_id (to_proto_response ua d sid) = ua_show ua sid" for sid
    by (cases "d_verdict d") (simp_all add: to_proto_response_def)
  then show ?thesis using dir e g unfolding session_of_def [symmetric] by auto
qed

text \<open>What a caller is told of a block is what the pipeline found: every finding of the decision appears in the
  response, in order, with its source, reason and rendered severity, and it is marked blocking exactly if it is;
  the session echoed is the one the ledger was charged under.\<close>
theorem response_mirrors_decision:
  assumes "direction_of r = Some dir"
    and "evaluate orc env (eq_payload r) dir (if eq_tool_name r = [] then None else Some (eq_tool_name r))
      (session_of ua fresh r) l = ((d, ms), l')"
  shows "\<exists>resp. gateway_evaluate ua orc fresh env r l = ((resp, ms), l')
    \<and> map pf_source (er_findings resp) = map f_source (d_findings d)
    \<and> map pf_reason (er_findings resp) = map f_reason (d_findings d)
    \<and> map (\<lambda>f. pf_disposition f = ''blocking'') (er_findings resp) = map is_blocking (d_findings d)
    \<and> er_layer resp = show_layer (d_layer d) \<and> er_session_id resp = ua_show ua (session_of ua fresh r)"
proof -
  have "(pf_disposition (to_proto_finding f) = ''blocking'') = is_blocking f" for f
    by (cases "f_disposition f") (simp_all add: to_proto_finding_def)
  then show ?thesis
    using assms by (simp add: gateway_evaluate_def Let_def to_proto_response_def to_proto_finding_def comp_def)
qed

end
