(* ===== verification/Orch_Process.thy ===== *)
theory Orch_Process
  imports Orch_Gateway Guard_Process
begin

text \<open>
  The orchestrator as a process: \<open>ctp-orchestrator/src/main.rs\<close>, \<open>serve\<close> of
  \<open>ctp-orchestrator/src/lib.rs\<close> and the exporter of \<open>metrics.rs\<close>, from the command line to the exit
  code. A panic of the assembly (a built-in pattern that does not compile) is the result \<open>None\<close>.
\<close>

section \<open>Metrics\<close>

datatype instrument = Histogram | Counter

text \<open>\<open>describe\<close>: the instrument, its name, whether its unit is seconds, and its help text.\<close>

definition metric_descriptions :: "(instrument \<times> string \<times> bool \<times> string) list" where
  "metric_descriptions =
     [(Histogram, ''ctp_layer_latency_seconds'', True, ''Per-layer verification latency''),
      (Histogram, ''ctp_pipeline_latency_seconds'', True, ''End-to-end pipeline latency''),
      (Counter, ''ctp_decisions_total'', False, ''Pipeline decisions by direction and verdict''),
      (Counter, ''ctp_guard_timeouts_total'', False, ''Guard classify calls that timed out''),
      (Counter, ''ctp_guard_unavailable_total'', False, ''Guard classify calls that failed transport''),
      (Counter, ''ctp_guard_contract_violations_total'', False, ''Guard responses that violated the verdict contract'')]"

text \<open>The instrument a recorded event goes to.\<close>

fun metric_name :: "metric \<Rightarrow> string" where
  "metric_name (LayerLatency _ _) = ''ctp_layer_latency_seconds''"
| "metric_name (PipelineLatency _) = ''ctp_pipeline_latency_seconds''"
| "metric_name (DecisionCount _ _) = ''ctp_decisions_total''"
| "metric_name GuardTimeoutCount = ''ctp_guard_timeouts_total''"
| "metric_name GuardUnavailableCount = ''ctp_guard_unavailable_total''"
| "metric_name GuardContractViolationCount = ''ctp_guard_contract_violations_total''"

fun metric_instrument :: "metric \<Rightarrow> instrument" where
  "metric_instrument (LayerLatency _ _) = Histogram"
| "metric_instrument (PipelineLatency _) = Histogram"
| "metric_instrument _ = Counter"

lemma every_metric_described:
  "\<exists>u h. (metric_instrument m, metric_name m, u, h) \<in> set metric_descriptions"
  by (cases m) (auto simp: metric_descriptions_def)

section \<open>Serving\<close>

datatype orch_effect =
    InstalledExporter string
  | DescribedMetric "instrument \<times> string \<times> bool \<times> string"
  | ServedGateway string orchestrator

record orch_os =
  oo_args :: "string list"
  oo_read :: "string \<Rightarrow> string + string"
  oo_install :: "string \<Rightarrow> string + unit"
  oo_server_end :: "string + unit"

text \<open>The orchestrator has its own copy of \<open>shutdown_signal\<close>.\<close>

definition gateway_shutdown_signal :: "string + unit \<Rightarrow> nanos option \<Rightarrow> nanos option \<Rightarrow> nanos option" where
  "gateway_shutdown_signal terminate_handler ctrl_c term =
     (case terminate_handler of
        Inl _ \<Rightarrow> Some 0
      | Inr _ \<Rightarrow> first_ready ctrl_c term)"

lemma shutdown_signals_agree: "gateway_shutdown_signal = shutdown_signal"
  by (rule ext)+ (simp add: gateway_shutdown_signal_def shutdown_signal_def)

definition metrics_install :: "orch_os \<Rightarrow> string \<Rightarrow> (orch_effect, unit) run" where
  "metrics_install os listen =
     (case oo_install os listen of
        Inl e \<Rightarrow> ([], Inl (ConfigError (''metrics exporter: '' @ e)))
      | Inr _ \<Rightarrow> (InstalledExporter listen # map DescribedMetric metric_descriptions, Inr ()))"

definition serve_gateway :: "orch_os \<Rightarrow> string \<Rightarrow> orchestrator \<Rightarrow> (orch_effect, unit) run" where
  "serve_gateway os listen orc =
     ([ServedGateway listen orc],
      map_sum (\<lambda>e. ConfigError (''orchestrator server: '' @ e)) id (oo_server_end os))"

definition orch_serve ::
  "orch_os \<Rightarrow> unicode_tables \<Rightarrow> ('r, 'q) scan_api \<Rightarrow> ctp_config \<Rightarrow> (orch_effect, unit) run option" where
  "orch_serve os tab a c =
     (case metrics_install os (o_metrics_listen (c_orchestrator c)) of
        (es, Inl e) \<Rightarrow> Some (es, Inl e)
      | (es, Inr _) \<Rightarrow>
          map_option (\<lambda>built.
            run_then (es, built) (serve_gateway os (o_listen (c_orchestrator c))))
          (build_orchestrator tab a c))"

definition orch_main ::
  "orch_os \<Rightarrow> toml_api \<Rightarrow> unicode_tables \<Rightarrow> ('r, 'q) scan_api \<Rightarrow> (orch_effect list \<times> exit_code) option" where
  "orch_main os api tab a =
     (case config_load api (oo_read os) (config_path (oo_args os)) of
        Inl e \<Rightarrow> Some ([], ExitFailure)
      | Inr c \<Rightarrow> map_option (apsnd exit_of) (orch_serve os tab a c))"

section \<open>What a run does\<close>

definition gateway_starts ::
  "orch_os \<Rightarrow> toml_api \<Rightarrow> unicode_tables \<Rightarrow> ('r, 'q) scan_api \<Rightarrow> string \<Rightarrow> orchestrator \<Rightarrow> bool" where
  "gateway_starts os api tab a listen orc \<longleftrightarrow>
     (\<exists>c. config_load api (oo_read os) (config_path (oo_args os)) = Inr c
       \<and> oo_install os (o_metrics_listen (c_orchestrator c)) = Inr ()
       \<and> build_orchestrator tab a c = Some (Inr orc) \<and> listen = o_listen (c_orchestrator c))"

lemma described_serve_nothing [simp]: "ServedGateway p orc \<notin> DescribedMetric ` X"
  by auto

text \<open>The orchestrator serves only what is assembled from a valid configuration: a run that does not panic
  serves the gateway, on the configured address, exactly when the configuration loads, the exporter
  is installed and the pipeline is assembled, and exits with success exactly when it served and the
  server ended without an error.\<close>
theorem orchestrator_serves_only_assembled:
  assumes "orch_main os api tab a = Some (es, code)"
  shows "(ServedGateway listen orc \<in> set es \<longleftrightarrow> gateway_starts os api tab a listen orc)
    \<and> (code = ExitSuccess \<longleftrightarrow> (\<exists>listen orc. ServedGateway listen orc \<in> set es) \<and> oo_server_end os = Inr ())"
proof (cases "config_load api (oo_read os) (config_path (oo_args os))")
  case (Inl e)
  then show ?thesis using assms by (auto simp: orch_main_def gateway_starts_def)
next
  case (Inr c)
  show ?thesis
  proof (cases "oo_install os (o_metrics_listen (c_orchestrator c))")
    case i: (Inl e)
    then show ?thesis using assms Inr
      by (auto simp: orch_main_def gateway_starts_def orch_serve_def metrics_install_def exit_of_def)
  next
    case i: (Inr u)
    have r: "orch_main os api tab a = map_option (\<lambda>built. apsnd exit_of
        (run_then (fst (metrics_install os (o_metrics_listen (c_orchestrator c))), built)
          (serve_gateway os (o_listen (c_orchestrator c))))) (build_orchestrator tab a c)"
      using Inr i by (simp add: orch_main_def orch_serve_def metrics_install_def option.map_comp comp_def)
    show ?thesis
    proof (cases "build_orchestrator tab a c")
      case None
      then show ?thesis using assms r by simp
    next
      case (Some built)
      then show ?thesis using assms r Inr i
        by (cases built; cases "oo_server_end os")
          (auto simp: gateway_starts_def metrics_install_def exit_of_def serve_gateway_def)
    qed
  qed
qed

end
