(* ===== verification/Kernel_Interleave.thy ===== *)
theory Kernel_Interleave
  imports Kernel_Ledger
begin

text \<open>
  Concurrent users of one anomaly ledger. A task is a state machine whose phases are the stretches of
  an asynchronous function between its awaits; the system takes one turn of one task at a time, and a task that waits
  for something outside may stay in its phase for any number of turns, or for ever. The
  tasks share a world and the ledger, which a mutex guards for the length of one \<open>record\<close>. A ghost
  log keeps the calls of \<open>record\<close> in the order the lock was taken. What a release owes to the log is
  proved once, for every kind of task that keeps to the interface \<open>ledger_clients\<close>; the tool calls
  of the kernel and the evaluations of the gateway are its two users.
\<close>

section \<open>Tasks and schedules\<close>

text \<open>A phase of a task, on the shared world and the ledger; and the flags a phase is about to record.\<close>

type_synonym ('w, 'ph) task_step = "nat \<Rightarrow> 'ph \<Rightarrow> 'w \<times> ledger \<Rightarrow> 'ph \<times> ('w \<times> ledger)"

record ('w, 'ph) sys =
  sy_world :: 'w
  sy_ledger :: ledger
  sy_phase :: "nat \<Rightarrow> 'ph"
  sy_log :: "(nat \<times> nat) list"

definition sys_init :: "'ph \<Rightarrow> 'w \<Rightarrow> ('w, 'ph) sys" where
  "sys_init start w = \<lparr>sy_world = w, sy_ledger = ledger_new, sy_phase = (\<lambda>_. start), sy_log = []\<rparr>"

definition log_entry :: "('ph \<Rightarrow> nat option) \<Rightarrow> nat \<Rightarrow> 'ph \<Rightarrow> (nat \<times> nat) list" where
  "log_entry commit i ph = (case commit ph of Some n \<Rightarrow> [(i, n)] | None \<Rightarrow> [])"

definition sys_advance ::
  "('w, 'ph) task_step \<Rightarrow> ('ph \<Rightarrow> nat option) \<Rightarrow> nat \<Rightarrow> ('w, 'ph) sys \<Rightarrow> ('w, 'ph) sys" where
  "sys_advance step commit i s =
     (let (ph, (w, l)) = step i (sy_phase s i) (sy_world s, sy_ledger s) in
      \<lparr>sy_world = w, sy_ledger = l, sy_phase = (sy_phase s)(i := ph),
       sy_log = sy_log s @ log_entry commit i (sy_phase s i)\<rparr>)"

inductive sys_reachable :: "('w, 'ph) task_step \<Rightarrow> ('ph \<Rightarrow> nat option) \<Rightarrow> 'ph \<Rightarrow> ('w, 'ph) sys \<Rightarrow> bool"
  for step commit start where
  init: "sys_reachable step commit start (sys_init start w)"
| step: "sys_reachable step commit start s \<Longrightarrow> sys_reachable step commit start (sys_advance step commit i s)"

lemma sys_reachable_fold:
  "sys_reachable step commit start s \<Longrightarrow> sys_reachable step commit start (fold (sys_advance step commit) is s)"
  by (induction "is" arbitrary: s) (auto intro: sys_reachable.step)

lemma sys_advance_run:
  "step i (sy_phase s i) (sy_world s, sy_ledger s) = (ph, (w, l)) \<Longrightarrow>
   sys_advance step commit i s = \<lparr>sy_world = w, sy_ledger = l, sy_phase = (sy_phase s)(i := ph),
     sy_log = sy_log s @ log_entry commit i (sy_phase s i)\<rparr>"
  by (simp add: sys_advance_def)

lemma sys_advance_phase:
  "sy_phase (sys_advance step commit i s) =
    (sy_phase s)(i := fst (step i (sy_phase s i) (sy_world s, sy_ledger s)))"
  by (simp add: sys_advance_def split: prod.split)

section \<open>The calls of a log\<close>

definition calls_of :: "(nat \<Rightarrow> uuid) \<Rightarrow> (nat \<times> nat) list \<Rightarrow> call list" where
  "calls_of sess tr = map (\<lambda>e. (sess (fst e), snd e)) tr"

lemma calls_of_simps [simp]:
  "calls_of sess [] = []"
  "calls_of sess (tr @ tr') = calls_of sess tr @ calls_of sess tr'"
  "length (calls_of sess tr) = length tr"
  "take k (calls_of sess tr) = calls_of sess (take k tr)"
  by (simp_all add: calls_of_def take_map)

lemma record_all_snoc:
  "record_all p (cs @ [c]) l = snd (record_turn p (fst c) (snd c) (record_all p cs l))"
  by (simp add: record_all_fold)

section \<open>The interface of a task\<close>

locale ledger_clients =
  fixes p :: ledger_params
    and sess :: "nat \<Rightarrow> uuid"
    and step :: "('w, 'ph) task_step"
    and commit :: "'ph \<Rightarrow> nat option"
    and start :: 'ph
    and finished :: "'ph \<Rightarrow> bool"
    and released :: "'ph \<Rightarrow> bool"
    and good :: "nat \<Rightarrow> 'ph \<Rightarrow> bool"
  assumes quiet: "commit ph = None \<Longrightarrow> snd (snd (step i ph (w, l))) = l"
    and charged: "commit ph = Some n \<Longrightarrow> snd (snd (step i ph (w, l))) = snd (record_turn p (sess i) n l)"
    and commit_finishes: "commit ph = Some n \<Longrightarrow> \<not> finished ph \<and> finished (fst (step i ph st))"
    and finished_stays: "finished ph \<Longrightarrow> fst (step i ph st) = ph"
    and released_finished: "released ph \<Longrightarrow> finished ph"
    and release: "\<not> finished ph \<Longrightarrow> released (fst (step i ph (w, l))) \<Longrightarrow>
        \<exists>n. commit ph = Some n \<and> \<not> lo_blocked (fst (record_turn p (sess i) n l))"
    and start_unfinished: "\<not> finished start"
    and good_start: "good i start"
    and good_step: "good i ph \<Longrightarrow> good i (fst (step i ph st))"
begin

text \<open>The entry of the log a released task stands on: the phase that recorded it, and the ledger it saw.\<close>

definition accounted :: "(nat \<times> nat) list \<Rightarrow> nat \<Rightarrow> 'ph \<Rightarrow> nat \<Rightarrow> nat \<Rightarrow> 'ph \<Rightarrow> 'w \<Rightarrow> bool" where
  "accounted tr i ph k n before w \<longleftrightarrow>
     k < length tr \<and> tr ! k = (i, n) \<and> commit before = Some n \<and> good i before
     \<and> ph = fst (step i before (w, record_all p (calls_of sess (take k tr)) ledger_new))"

definition task_inv :: "(nat \<times> nat) list \<Rightarrow> nat \<Rightarrow> 'ph \<Rightarrow> bool" where
  "task_inv tr i ph \<longleftrightarrow> good i ph \<and> (finished ph \<or> i \<notin> fst ` set tr)
     \<and> (\<not> released ph \<or> (\<exists>k n before w. accounted tr i ph k n before w))"

definition sys_inv :: "('w, 'ph) sys \<Rightarrow> bool" where
  "sys_inv s \<longleftrightarrow>
     sy_ledger s = record_all p (calls_of sess (sy_log s)) ledger_new
     \<and> distinct (map fst (sy_log s))
     \<and> (\<forall>i. task_inv (sy_log s) i (sy_phase s i))"

lemma accounted_append: "accounted tr i ph k n before w \<Longrightarrow> accounted (tr @ tr') i ph k n before w"
  by (auto simp: accounted_def nth_append)

lemma task_inv_append: "task_inv tr i ph \<Longrightarrow> i \<notin> fst ` set tr' \<Longrightarrow> task_inv (tr @ tr') i ph"
  unfolding task_inv_def using accounted_append by (metis UnE image_Un set_append)

lemma task_inv_step:
  assumes inv: "task_inv tr i ph" and l: "l = record_all p (calls_of sess tr) ledger_new"
  shows "task_inv (tr @ log_entry commit i ph) i (fst (step i ph (w, l)))
    \<and> snd (snd (step i ph (w, l))) = record_all p (calls_of sess (tr @ log_entry commit i ph)) ledger_new"
proof (cases "commit ph")
  case None
  have "task_inv tr i (fst (step i ph (w, l)))"
  proof (cases "finished ph")
    case True
    then show ?thesis using inv finished_stays by simp
  next
    case False
    then have "\<not> released (fst (step i ph (w, l)))" using release None by fastforce
    then show ?thesis using False inv good_step unfolding task_inv_def by blast
  qed
  then show ?thesis using l None quiet [OF None] by (simp add: log_entry_def)
next
  case (Some n)
  have f: "finished (fst (step i ph (w, l)))" using commit_finishes [OF Some] by simp
  have g: "good i ph" using inv by (simp add: task_inv_def)
  have "accounted (tr @ [(i, n)]) i (fst (step i ph (w, l))) (length tr) n ph w"
    using Some g l by (simp add: accounted_def)
  then have "task_inv (tr @ [(i, n)]) i (fst (step i ph (w, l)))"
    using f good_step [OF g] unfolding task_inv_def by blast
  then show ?thesis using charged [OF Some] l by (simp add: log_entry_def Some record_all_snoc calls_of_def)
qed

lemma log_entry_fresh: "task_inv tr i ph \<Longrightarrow> e \<in> set (log_entry commit i ph) \<Longrightarrow> fst e = i \<and> i \<notin> fst ` set tr"
proof (cases "commit ph")
  case (Some n)
  then have "\<not> finished ph" using commit_finishes by blast
  then show "task_inv tr i ph \<Longrightarrow> e \<in> set (log_entry commit i ph) \<Longrightarrow> fst e = i \<and> i \<notin> fst ` set tr"
    by (auto simp: log_entry_def task_inv_def Some)
qed (simp add: log_entry_def)

lemma sys_inv_step: "sys_inv s \<Longrightarrow> sys_inv (sys_advance step commit i s)"
proof -
  assume s: "sys_inv s"
  obtain ph' w' l' where adv: "step i (sy_phase s i) (sy_world s, sy_ledger s) = (ph', (w', l'))"
    by (metis surj_pair)
  have t: "task_inv (sy_log s) j (sy_phase s j)" for j using s by (simp add: sys_inv_def)
  have l: "sy_ledger s = record_all p (calls_of sess (sy_log s)) ledger_new" using s by (simp add: sys_inv_def)
  let ?e = "log_entry commit i (sy_phase s i)"
  have e: "fst ` set ?e \<subseteq> {i}" "fst ` set ?e \<inter> fst ` set (sy_log s) = {}"
    using log_entry_fresh [OF t [of i]] by force+
  have d: "distinct (map fst ?e)" by (simp add: log_entry_def split: option.split)
  have "task_inv (sy_log s @ ?e) j (sy_phase s j)" if "j \<noteq> i" for j
    using that e(1) by (intro task_inv_append [OF t]) auto
  then show ?thesis
    using task_inv_step [OF t l, of i "sy_world s"] adv d e(2) s
    unfolding sys_inv_def sys_advance_run [where step = step and s = s and commit = commit, OF adv] by auto
qed

lemma reachable_inv: "sys_reachable step commit start s \<Longrightarrow> sys_inv s"
proof (induction rule: sys_reachable.induct)
  case (init w)
  then show ?case
    using good_start start_unfinished released_finished by (auto simp: sys_inv_def sys_init_def task_inv_def)
qed (rule sys_inv_step)

text \<open>A release stands on an entry whose turn did not block on the ledger of its time; while all sessions
  fit, that is the specification on the session's own flags up to that entry.\<close>

lemma accounted_unblocked:
  assumes "accounted tr i ph k n before w" "released ph"
  shows "\<not> lo_blocked (fst (record_turn p (sess i) n (record_all p (calls_of sess (take k tr)) ledger_new)))"
  using assms release commit_finishes by (fastforce simp: accounted_def)

lemma accounted_history:
  assumes acc: "accounted tr i ph k n before w" "released ph" and len: "length tr < 2 ^ 64"
    and fit: "card (sess ` fst ` set tr) \<le> lp_max_sessions p"
  shows "\<not> lo_blocked (spec_outcome p (own_flags (sess i) (calls_of sess (take (Suc k) tr))))"
proof -
  let ?cs = "calls_of sess (take k tr)"
  have k: "k < length tr" "tr ! k = (i, n)" using acc(1) by (simp_all add: accounted_def)
  have "fst ` set ?cs \<subseteq> sess ` fst ` set tr"
    by (force simp: calls_of_def dest: in_set_takeD)
  then have "card (fst ` set ?cs) \<le> lp_max_sessions p"
    using fit card_mono [of "sess ` fst ` set tr" "fst ` set ?cs"] by simp
  then have "fst (record_turn p (sess i) n (record_all p ?cs ledger_new))
      = spec_outcome p (own_flags (sess i) ?cs @ [n])"
    using len record_outcome_history [of ?cs p] by simp
  moreover have "calls_of sess (take (Suc k) tr) = ?cs @ [(sess i, n)]"
    using k by (simp add: take_Suc_conv_app_nth calls_of_def)
  ultimately show ?thesis using accounted_unblocked [OF acc] by simp
qed

lemma release_accounted:
  assumes "sys_reachable step commit start s" "released (sy_phase s i)"
  obtains k n before w where "accounted (sy_log s) i (sy_phase s i) k n before w"
  using reachable_inv [OF assms(1)] assms(2) unfolding sys_inv_def task_inv_def by blast

end

end
