(* ===== verification/Orch_Concurrent.thy ===== *)
theory Orch_Concurrent
  imports Orch_Pipeline Kernel_Interleave
begin

text \<open>
  Concurrent evaluations through one gateway. The service of \<open>ctp-orchestrator/src/grpc.rs\<close> runs every
  request as a task of its own, and the tasks share the ledger and the metrics recorder. An
  evaluation of \<open>pipeline.rs\<close> is split at its one await (the guard) and at the lock of the ledger; it is
  a client of the interface \<open>ledger_clients\<close>, as a tool call of the kernel is.
\<close>

section \<open>One evaluation\<close>

record eval_call =
  ec_payload :: bytes
  ec_direction :: direction
  ec_tool :: "string option"
  ec_session :: uuid

text \<open>At the guard, the challenged payload and its report ride along; at the lock, the flags and findings.\<close>

datatype eval_phase =
    Arrived
  | AtGuard "challenged payload" layer_report
  | AtLedger nat "finding list"
  | Decided decision

definition challenged_of ::
  "orchestrator \<Rightarrow> eval_env \<Rightarrow> eval_call \<Rightarrow> ctp_error + challenged payload \<times> layer_report" where
  "challenged_of orc env c =
     payload_challenge (ve_show_uuid (ee_vet env)) (or_challenge orc) (ec_session c) (ve_challenge_time (ee_vet env))
       (payload_new (ve_id (ee_vet env)) (ec_payload c) (ec_direction c))"

definition vetted_of ::
  "orchestrator \<Rightarrow> eval_env \<Rightarrow> eval_call \<Rightarrow> challenged payload \<Rightarrow> ctp_error + vetted payload \<times> layer_report" where
  "vetted_of orc env c p =
     payload_guard (ve_show_uuid (ee_vet env)) (guard_findings (or_guard orc) (ve_guard (ee_vet env)) (ve_schedule (ee_vet env)))
       (ec_session c) (ve_guard_time (ee_vet env)) p"

definition ledger_decision :: "eval_env \<Rightarrow> eval_call \<Rightarrow> finding list \<Rightarrow> ledger_outcome \<Rightarrow> decision" where
  "ledger_decision env c findings outcome =
     (if lo_blocked outcome then
        decision_block Kernel [finding_blocking ''anomaly_threshold'' (crossed_reason (lo_score outcome)) High]
          (ec_session c) (ec_direction c) (ee_elapsed env)
      else decision_pass Orchestrator findings (ec_session c) (ec_direction c) (ee_elapsed env))"

text \<open>A phase ends in a decision, with the metrics every decision is recorded under.\<close>

definition decide :: "eval_env \<Rightarrow> eval_call \<Rightarrow> decision \<Rightarrow> metric list \<Rightarrow> ledger \<Rightarrow> eval_phase \<times> (metric list \<times> ledger)" where
  "decide env c d ms l = (Decided d, (ms @ finish_metrics env (ec_direction c) d, l))"

fun eval_advance ::
  "orchestrator \<Rightarrow> eval_env \<Rightarrow> eval_call \<Rightarrow> eval_phase \<Rightarrow> metric list \<times> ledger \<Rightarrow> eval_phase \<times> (metric list \<times> ledger)"
where
  "eval_advance orc env c Arrived (ms, l) =
     (let ms1 = ms @ [LayerLatency ''challenge'' (ee_challenge_latency env)] in
      case challenged_of orc env c of
        Inl e \<Rightarrow> decide env c (to_block_decision e (ec_session c) (ec_direction c)) ms1 l
      | Inr (p, rep) \<Rightarrow> (AtGuard p rep, (ms1, l)))"
| "eval_advance orc env c (AtGuard p rep) (ms, l) =
     (let ms1 = ms @ [LayerLatency ''guard'' (ee_guard_latency env)] in
      case vetted_of orc env c p of
        Inl e \<Rightarrow> decide env c (to_block_decision e (ec_session c) (ec_direction c)) ms1 l
      | Inr (_, grep) \<Rightarrow>
          (AtLedger (length (advisory_flags rep) + length (advisory_flags grep)) (r_findings rep @ r_findings grep), (ms1, l)))"
| "eval_advance orc env c (AtLedger n findings) (ms, l) =
     (let (outcome, l') = record_turn (or_ledger_params orc) (ec_session c) n l in
      decide env c (ledger_decision env c findings outcome)
        (ms @ [LayerLatency ''kernel'' (ee_kernel_latency env)]) l')"
| "eval_advance orc env c (Decided d) (ms, l) = (Decided d, (ms, l))"

fun evaluate_alone ::
  "nat \<Rightarrow> orchestrator \<Rightarrow> eval_env \<Rightarrow> eval_call \<Rightarrow> eval_phase \<times> (metric list \<times> ledger) \<Rightarrow> eval_phase \<times> (metric list \<times> ledger)"
where
  "evaluate_alone 0 orc env c s = s"
| "evaluate_alone (Suc k) orc env c (ph, st) = evaluate_alone k orc env c (eval_advance orc env c ph st)"

lemma evaluate_alone_Decided [simp]: "evaluate_alone k orc env c (Decided d, st) = (Decided d, st)"
  by (induction k) (cases st, simp)+

text \<open>The phases are those of \<open>evaluate\<close>: an evaluation that is not interleaved with others decides in three
  phases, with the decision, the metrics and the ledger of \<open>evaluate\<close>.\<close>

lemma phases_compose_to_evaluate:
  "evaluate_alone 3 orc env c (Arrived, (ms, l)) =
    (let ((d, m), l') = evaluate orc env (ec_payload c) (ec_direction c) (ec_tool c) (ec_session c) l
     in (Decided d, (ms @ m, l')))"
proof (cases "challenged_of orc env c")
  case (Inl e)
  then show ?thesis
    by (simp add: numeral_3_eq_3 decide_def evaluate_def Let_def finish_block_def challenged_of_def)
next
  case (Inr pr)
  obtain p rep where pr: "pr = (p, rep)" by (cases pr)
  show ?thesis
  proof (cases "vetted_of orc env c p")
    case (Inl e)
    then show ?thesis using Inr pr
      by (simp add: numeral_3_eq_3 decide_def evaluate_def Let_def finish_block_def challenged_of_def vetted_of_def)
  next
    case v: (Inr wr)
    then show ?thesis using Inr pr
      by (cases wr) (simp add: numeral_3_eq_3 decide_def evaluate_def Let_def challenged_of_def vetted_of_def
          ledger_decision_def split: prod.split)
  qed
qed

section \<open>Many evaluations\<close>

definition eval_step :: "orchestrator \<Rightarrow> (nat \<Rightarrow> eval_env) \<Rightarrow> (nat \<Rightarrow> eval_call) \<Rightarrow> (metric list, eval_phase) task_step" where
  "eval_step orc env c i = eval_advance orc (env i) (c i)"

fun pending_flags :: "eval_phase \<Rightarrow> nat option" where
  "pending_flags (AtLedger n fs) = Some n"
| "pending_flags _ = None"

fun is_decided :: "eval_phase \<Rightarrow> bool" where
  "is_decided (Decided d) = True"
| "is_decided _ = False"

fun is_passed :: "eval_phase \<Rightarrow> bool" where
  "is_passed (Decided d) \<longleftrightarrow> d_verdict d = Pass"
| "is_passed _ = False"


fun eval_good :: "orchestrator \<Rightarrow> eval_env \<Rightarrow> eval_call \<Rightarrow> eval_phase \<Rightarrow> bool" where
  "eval_good orc env c (AtGuard p rep) \<longleftrightarrow> challenged_of orc env c = Inr (p, rep)"
| "eval_good orc env c (AtLedger n fs) \<longleftrightarrow>
     orch_clear orc (ee_vet env) (ec_direction c) (ec_session c) (ec_payload c)
     \<and> n = orch_flags orc (ee_vet env) (ec_direction c) (ec_session c) (ec_payload c)"
| "eval_good orc env c _ \<longleftrightarrow> True"

lemma challenged_vetted_clear:
  assumes "challenged_of orc env c = Inr (p, rep)" "vetted_of orc env c p = Inr (w, grep)"
  shows "orch_clear orc (ee_vet env) (ec_direction c) (ec_session c) (ec_payload c)
    \<and> length (advisory_flags rep) + length (advisory_flags grep)
        = orch_flags orc (ee_vet env) (ec_direction c) (ec_session c) (ec_payload c)"
proof -
  have "vet (wrapper_of orc) (ee_vet env) (ec_payload c) (ec_direction c) (ec_session c) =
      Inr (payload_release w, length (advisory_flags rep) + length (advisory_flags grep))"
    using assms by (simp add: vet_def Let_def challenged_of_def vetted_of_def wrapper_of_def)
  then show ?thesis
    using vet.run_Inr_iff [of "wrapper_of orc" "ee_vet env" "ec_payload c" "ec_direction c" "ec_session c"]
    by (simp add: orch_clear_def orch_flags_def)
qed

lemma eval_good_step:
  assumes "eval_good orc env c ph"
  shows "eval_good orc env c (fst (eval_advance orc env c ph st))"
  using assms challenged_vetted_clear [of orc env c]
  by (cases st; cases ph) (auto simp: decide_def Let_def split: sum.split prod.split)

text \<open>No error of the layers collapses to a PASS: the errors of the two scans are genuine blocks.\<close>

lemma challenge_error_blocks:
  "challenged_of orc env c = Inl e \<Longrightarrow> d_verdict (to_block_decision e sid dir) = Block"
  unfolding challenged_of_def by (drule l1.refused) auto

lemma guard_error_blocks:
  "vetted_of orc env c p = Inl e \<Longrightarrow> d_verdict (to_block_decision e sid dir) = Block"
  unfolding vetted_of_def by (drule l2.refused) (auto simp: guard_findings_total)

lemma eval_advance_quiet: "pending_flags ph = None \<Longrightarrow> snd (snd (eval_advance orc env c ph (ms, l))) = l"
  by (cases ph) (auto simp: Let_def decide_def split: sum.split prod.split)

lemma eval_advance_unpassed:
  "\<not> is_decided ph \<Longrightarrow> pending_flags ph = None \<Longrightarrow> \<not> is_passed (fst (eval_advance orc env c ph st))"
  using challenge_error_blocks [of orc env c] guard_error_blocks [of orc env c]
  by (cases st; cases ph) (auto simp: Let_def decide_def split: sum.split prod.split)

lemma eval_advance_ledger:
  "eval_advance orc env c (AtLedger n fs) (ms, l) =
    (Decided (ledger_decision env c fs (fst (record_turn (or_ledger_params orc) (ec_session c) n l))),
     (ms @ [LayerLatency ''kernel'' (ee_kernel_latency env)]
        @ finish_metrics env (ec_direction c) (ledger_decision env c fs (fst (record_turn (or_ledger_params orc) (ec_session c) n l))),
      snd (record_turn (or_ledger_params orc) (ec_session c) n l)))"
  by (simp add: decide_def split: prod.split)

lemma ledger_decision_verdict: "d_verdict (ledger_decision env c fs out) = Pass \<longleftrightarrow> \<not> lo_blocked out"
  by (simp add: ledger_decision_def)

lemma pending_flags_Some: "pending_flags ph = Some n \<longleftrightarrow> (\<exists>fs. ph = AtLedger n fs)"
  by (cases ph) auto

interpretation evals: ledger_clients "or_ledger_params orc" "\<lambda>i. ec_session (c i)"
    "eval_step orc env c" pending_flags Arrived is_decided is_passed "\<lambda>i. eval_good orc (env i) (c i)"
  for orc env c
proof unfold_locales
  fix ph i and w :: "metric list" and l :: ledger
  show "\<exists>n. pending_flags ph = Some n \<and> \<not> lo_blocked (fst (record_turn (or_ledger_params orc) (ec_session (c i)) n l))"
    if "\<not> is_decided ph" "is_passed (fst (eval_step orc env c i ph (w, l)))"
  proof (cases "pending_flags ph")
    case None
    with that eval_advance_unpassed show ?thesis by (fastforce simp: eval_step_def)
  next
    case (Some n)
    then obtain fs where "ph = AtLedger n fs" by (auto simp: pending_flags_Some)
    with that(2) show ?thesis
      by (simp add: eval_step_def eval_advance_ledger ledger_decision_verdict del: eval_advance.simps)
  qed
next
  fix ph i n and st :: "metric list \<times> ledger"
  show "\<not> is_decided ph \<and> is_decided (fst (eval_step orc env c i ph st))" if "pending_flags ph = Some n"
    using that by (cases st) (auto simp: pending_flags_Some eval_step_def eval_advance_ledger simp del: eval_advance.simps)
next
  fix ph i n and w :: "metric list" and l :: ledger
  show "snd (snd (eval_step orc env c i ph (w, l)))
      = snd (record_turn (or_ledger_params orc) (ec_session (c i)) n l)" if "pending_flags ph = Some n"
    using that by (auto simp: pending_flags_Some eval_step_def eval_advance_ledger simp del: eval_advance.simps)
next
  fix ph i and st :: "metric list \<times> ledger"
  show "fst (eval_step orc env c i ph st) = ph" if "is_decided ph"
    using that by (cases st; cases ph) (simp_all add: eval_step_def)
next
  show "is_decided ph" if "is_passed ph" for ph using that by (cases ph) simp_all
qed (simp_all add: eval_step_def eval_advance_quiet eval_good_step)

section \<open>Every decision is counted\<close>

text \<open>The decision counts in the recorder, whatever the interleaving, are those of the decided evaluations.\<close>

definition decided_count :: "(nat \<Rightarrow> eval_call) \<Rightarrow> nat \<Rightarrow> eval_phase \<Rightarrow> metric list" where
  "decided_count c i ph = (case ph of Decided d \<Rightarrow> [record_decision (ec_direction (c i)) (d_verdict d)] | _ \<Rightarrow> [])"

lemma is_decision_count_simps [simp]:
  "is_decision_count (record_decision dir v)" "\<not> is_decision_count (LayerLatency s t)" "\<not> is_decision_count (PipelineLatency t)"
  by (simp_all add: is_decision_count_def record_decision_def)

lemma eval_advance_counts:
  "filter is_decision_count (fst (snd (eval_advance orc env (c i) ph (ms, l)))) =
    filter is_decision_count ms
    @ (if is_decided ph then [] else decided_count c i (fst (eval_advance orc env (c i) ph (ms, l))))"
  by (cases ph) (auto simp: Let_def decide_def finish_metrics_def decided_count_def split: sum.split prod.split)

lemma sum_split_one: "i < (m :: nat) \<Longrightarrow> (\<Sum>j<m. f j) = (f i :: 'a multiset) + (\<Sum>j\<in>{..<m} - {i}. f j)"
  by (subst sum.remove [of "{..<m}" i]) auto

lemma eval_schedule_counts:
  assumes "list_all (\<lambda>i. i < m) is"
    and "mset (filter is_decision_count (sy_world s)) = (\<Sum>j<m. mset (decided_count c j (sy_phase s j)))"
  shows "mset (filter is_decision_count (sy_world (fold (sys_advance (eval_step orc env c) pending_flags) is s)))
    = (\<Sum>j<m. mset (decided_count c j (sy_phase (fold (sys_advance (eval_step orc env c) pending_flags) is s) j)))"
  using assms
proof (induction "is" arbitrary: s)
  case (Cons i "is")
  obtain ph ms l where adv: "eval_step orc env c i (sy_phase s i) (sy_world s, sy_ledger s) = (ph, (ms, l))"
    by (metis surj_pair)
  have i: "i < m" using Cons.prems by simp
  let ?s = "sys_advance (eval_step orc env c) pending_flags i s"
  have ph: "is_decided (sy_phase s i) \<Longrightarrow> ph = sy_phase s i"
    using adv evals.finished_stays [of "sy_phase s i" orc env c i "(sy_world s, sy_ledger s)"] by simp
  have un: "\<not> is_decided (sy_phase s i) \<Longrightarrow> decided_count c i (sy_phase s i) = []"
    by (cases "sy_phase s i") (simp_all add: decided_count_def)
  have w: "filter is_decision_count ms = filter is_decision_count (sy_world s)
      @ (if is_decided (sy_phase s i) then [] else decided_count c i ph)"
    using eval_advance_counts [of orc "env i" c i "sy_phase s i" "sy_world s" "sy_ledger s"] adv
    by (simp add: eval_step_def)
  have r: "(\<Sum>j\<in>{..<m} - {i}. mset (decided_count c j (((sy_phase s)(i := ph)) j)))
      = (\<Sum>j\<in>{..<m} - {i}. mset (decided_count c j (sy_phase s j)))"
    by (intro sum.cong) auto
  have "mset (filter is_decision_count (sy_world ?s)) = (\<Sum>j<m. mset (decided_count c j (sy_phase ?s j)))"
    using Cons.prems(2) w ph un i
    by (auto simp: sys_advance_run [where step = "eval_step orc env c" and s = s and commit = pending_flags, OF adv]
        sum_split_one [OF i] r mset_filter[symmetric] simp del: mset_filter)
  then show ?case using Cons by simp
qed simp


text \<open>C28: Concurrent evaluations keep their books: whatever the requests and however their evaluations interleave, the
  decisions counted in the metrics are, as a multiset, those of the evaluations that have decided, each once under
  its own direction and verdict; and the ledger is what the logged turns make of it one after the other, at most
  one for each evaluation.\<close>
theorem concurrent_decisions_are_counted:
  fixes orc env c "is"
  defines "s \<equiv> fold (sys_advance (eval_step orc env c) pending_flags) is (sys_init Arrived [])"
  shows "mset (filter is_decision_count (sy_world s)) =
      (\<Sum>j<Suc (Max (set (0 # is))). mset (decided_count c j (sy_phase s j)))
    \<and> sy_ledger s = record_all (or_ledger_params orc) (calls_of (\<lambda>i. ec_session (c i)) (sy_log s)) ledger_new
    \<and> distinct (map fst (sy_log s))"
proof -
  have "list_all (\<lambda>i. i < Suc (Max (set (0 # is)))) is" by (auto simp: list_all_iff less_Suc_eq_le)
  moreover have "mset (filter is_decision_count (sy_world (sys_init Arrived []))) =
      (\<Sum>j<m. mset (decided_count c j (sy_phase (sys_init Arrived []) j)))" for m
    by (simp add: sys_init_def decided_count_def)
  ultimately have "mset (filter is_decision_count (sy_world s)) =
      (\<Sum>j<Suc (Max (set (0 # is))). mset (decided_count c j (sy_phase s j)))"
    unfolding s_def by (rule eval_schedule_counts)
  moreover have "evals.sys_inv orc c env s"
    unfolding s_def by (intro evals.reachable_inv sys_reachable_fold sys_reachable.init)
  ultimately show ?thesis by (simp add: evals.sys_inv_def)
qed

text \<open>C8: Under any interleaving of concurrent evaluations no PASS escapes the ledger: an evaluation that passed was
  cleared by the challenge layer and by the guard in every window, has an entry of its own in the log of the
  ledger with the flags of both layers, and the ledger that the entries before it made did not block that turn. While the
  logged sessions fit in the table (nothing is evicted, and the counters do not saturate), this means that the session's
  whole history up to and including that entry stays below the threshold.\<close>
theorem concurrent_pass_is_accounted:
  assumes "sys_reachable (eval_step orc env c) pending_flags Arrived s" "sy_phase s i = Decided d" "d_verdict d = Pass"
  shows "findings_verdict (or_challenge orc (ec_payload (c i))) = Pass
    \<and> list_all (\<lambda>rq. answered_pass (gf_timeout (or_guard orc)) (ve_guard (ee_vet (env i)) rq))
        (guard_requests (or_guard orc) (ec_payload (c i)) (ec_direction (c i)) (ec_session (c i)))
    \<and> (\<exists>k n. k < length (sy_log s) \<and> sy_log s ! k = (i, n)
         \<and> n = orch_flags orc (ee_vet (env i)) (ec_direction (c i)) (ec_session (c i)) (ec_payload (c i))
         \<and> \<not> lo_blocked (fst (record_turn (or_ledger_params orc) (ec_session (c i)) n
               (record_all (or_ledger_params orc) (calls_of (\<lambda>i. ec_session (c i)) (take k (sy_log s))) ledger_new)))
         \<and> (length (sy_log s) < 2 ^ 64
             \<and> card ((\<lambda>i. ec_session (c i)) ` fst ` set (sy_log s)) \<le> lp_max_sessions (or_ledger_params orc)
            \<longrightarrow> \<not> lo_blocked (spec_outcome (or_ledger_params orc)
               (own_flags (ec_session (c i)) (calls_of (\<lambda>i. ec_session (c i)) (take (Suc k) (sy_log s)))))))"
proof -
  have rel: "is_passed (sy_phase s i)" by (simp add: assms(2,3))
  obtain k n before w where acc: "evals.accounted orc c env (sy_log s) i (sy_phase s i) k n before w"
    by (rule evals.release_accounted [OF assms(1) rel])
  then have k: "k < length (sy_log s)" "sy_log s ! k = (i, n)" "pending_flags before = Some n"
    "eval_good orc (env i) (c i) before"
    by (simp_all add: evals.accounted_def)
  then have "orch_clear orc (ee_vet (env i)) (ec_direction (c i)) (ec_session (c i)) (ec_payload (c i))"
    "n = orch_flags orc (ee_vet (env i)) (ec_direction (c i)) (ec_session (c i)) (ec_payload (c i))"
    by (auto simp: pending_flags_Some)
  with k(1,2) evals.accounted_unblocked [OF acc rel] evals.accounted_history [OF acc rel] show ?thesis
    by (auto simp: orch_clear_iff list_all_iff)
qed

section \<open>Two evaluations racing\<close>

definition hello_call :: eval_call where
  "hello_call = \<lparr>ec_payload = ''hello'', ec_direction = Inbound, ec_tool = None, ec_session = 7\<rparr>"

definition eval_race :: "(metric list, eval_phase) sys" where
  "eval_race = fold (sys_advance (eval_step small_orchestrator (\<lambda>_. small_env) (\<lambda>_. hello_call)) pending_flags)
     [0, 1, 1, 0, 1, 0] (sys_init Arrived [])"

lemma small_vetted:
  obtains p rep w grep where "challenged_of small_orchestrator small_env hello_call = Inr (p, rep)"
    "vetted_of small_orchestrator small_env hello_call p = Inr (w, grep)"
    "advisory_flags rep = []" "advisory_flags grep = []"
proof -
  let ?v = "ee_vet small_env"
  have flags: "orch_flags small_orchestrator ?v Inbound 7 ''hello'' = 0" and clear: "orch_clear small_orchestrator ?v Inbound 7 ''hello''"
    using small_hello_flags small_passes unfolding evaluate_verdict by (simp_all add: orch_clear_iff list_all_iff)
  then have "vet (wrapper_of small_orchestrator) ?v ''hello'' Inbound 7 = Inr (''hello'', 0)"
    using vet_clear_run by (simp add: orch_clear_def orch_flags_def)
  then show thesis
    using that by (auto simp: vet_def Let_def and_then_Inr_iff wrapper_of_def challenged_of_def vetted_of_def hello_call_def)
qed

lemma small_unblocked_twice:
  "\<not> lo_blocked (fst (record_turn (or_ledger_params small_orchestrator) 7 0
     (snd (record_turn (or_ledger_params small_orchestrator) 7 0 ledger_new))))"
  by code_simp

lemma eval_race_result: "is_passed (sy_phase eval_race 0) \<and> sy_log eval_race = [(1, 0), (0, 0)]"
proof -
  obtain p rep w grep where v: "challenged_of small_orchestrator small_env hello_call = Inr (p, rep)"
    "vetted_of small_orchestrator small_env hello_call p = Inr (w, grep)" "advisory_flags rep = []" "advisory_flags grep = []"
    by (rule small_vetted)
  have s: "ec_session hello_call = 7" by (simp add: hello_call_def)
  show ?thesis
    using v small_unblocked_twice
    by (simp add: eval_race_def sys_advance_def eval_step_def sys_init_def log_entry_def eval_advance_ledger decide_def
        ledger_decision_verdict s split_beta del: eval_advance.simps(3))
qed

lemma concurrent_pass_is_accounted_witness:
  "\<exists>k < length (sy_log eval_race). sy_log eval_race ! k = (0,
     orch_flags small_orchestrator (ee_vet small_env) (ec_direction hello_call) (ec_session hello_call) (ec_payload hello_call))"
proof -
  obtain d where d: "sy_phase eval_race 0 = Decided d" "d_verdict d = Pass"
    using eval_race_result by (cases "sy_phase eval_race 0") auto
  have r: "sys_reachable (eval_step small_orchestrator (\<lambda>_. small_env) (\<lambda>_. hello_call)) pending_flags Arrived eval_race"
    unfolding eval_race_def by (intro sys_reachable_fold sys_reachable.init)
  from concurrent_pass_is_accounted [OF r d] show ?thesis
    using eval_race_result by auto
qed

end
