(* ===== verification/Kernel_Concurrent.thy ===== *)
theory Kernel_Concurrent
  imports Kernel_Wrapper Kernel_Interleave
begin

text \<open>
  Concurrent tool calls through one wrapper. \<open>execute\<close> of \<open>ctp-kernel/src/lib.rs\<close> is an asynchronous
  function: calls of different tasks interleave at its awaits, and they share the inner tool's
  world and the ledger, which a mutex guards for the length of one \<open>record\<close>. A task is a state
  machine whose phases are the stretches between the awaits, a client of the interface
  \<open>ledger_clients\<close>. The inner tool is awaited without a timeout: it is polled, each poll may change the
  world, and it may never have a result.
\<close>

section \<open>One task\<close>

text \<open>The vetted arguments and the flags collected so far ride along; \<open>Done\<close> holds what the caller gets.\<close>

datatype phase =
    Entered
  | ToRun bytes nat
  | ToVet nat tool_output
  | ToCommit nat tool_output
  | Done "ctp_error + tool_output"

text \<open>One poll of a run of the inner tool; \<open>None\<close> while it has no result.\<close>

type_synonym 'w polled_tool = "tool_context \<Rightarrow> 'w \<Rightarrow> (ctp_error + tool_output) option \<times> 'w"

definition ready_tool :: "'w tool_executor \<Rightarrow> 'w polled_tool" where
  "ready_tool inner ctx w = apfst Some (inner ctx w)"

fun advance ::
  "kernel_wrapper \<Rightarrow> vet_env \<Rightarrow> vet_env \<Rightarrow> 'w polled_tool \<Rightarrow> tool_context \<Rightarrow> phase \<Rightarrow> 'w \<times> ledger
    \<Rightarrow> phase \<times> ('w \<times> ledger)" where
  "advance kw oe ie inner ctx Entered (w, l) =
     (if \<not> tp_enabled (tool_policy_of (kw_config kw) (tc_tool_name ctx)) then
        (Done (Inl (PolicyDenied (tc_tool_name ctx) ''tool not enabled (deny-by-default)'')), (w, l))
      else case vet kw oe (tc_arguments ctx) Outbound (tc_session_id ctx) of
        Inl e \<Rightarrow> (Done (Inl e), (w, l))
      | Inr (args, n) \<Rightarrow> (ToRun args n, (w, l)))"
| "advance kw oe ie inner ctx (ToRun args n) (w, l) =
     (case inner \<lparr>tc_session_id = tc_session_id ctx, tc_tool_name = tc_tool_name ctx, tc_arguments = args,
                  tc_turn = tc_turn ctx\<rparr> w of
        (None, w') \<Rightarrow> (ToRun args n, (w', l))
      | (Some (Inl e), w') \<Rightarrow> (Done (Inl e), (w', l))
      | (Some (Inr r), w') \<Rightarrow> (ToVet n r, (w', l)))"
| "advance kw oe ie inner ctx (ToVet n r) (w, l) =
     (let cap = tp_max_result_bytes (tool_policy_of (kw_config kw) (tc_tool_name ctx)) in
      if cap < length (to_content r) then
        (Done (Inl (kernel_block ''oversize_result''
           (oversize_reason (tc_tool_name ctx) (length (to_content r)) cap) (tc_session_id ctx))), (w, l))
      else case vet kw ie (to_content r) Inbound (tc_session_id ctx) of
        Inl e \<Rightarrow> (Done (Inl e), (w, l))
      | Inr (b, m) \<Rightarrow> (ToCommit (n + m) \<lparr>to_content = b\<rparr>, (w, l)))"
| "advance kw oe ie inner ctx (ToCommit n r) (w, l) =
     (let (outcome, l') = record_turn (ledger_params_from_config (kw_config kw)) (tc_session_id ctx) n l in
      (Done (if lo_blocked outcome then
               Inl (kernel_block ''anomaly_threshold'' (anomaly_reason (lo_score outcome)) (tc_session_id ctx))
             else Inr r), (w, l')))"
| "advance kw oe ie inner ctx (Done res) (w, l) = (Done res, (w, l))"

fun run_alone ::
  "nat \<Rightarrow> kernel_wrapper \<Rightarrow> vet_env \<Rightarrow> vet_env \<Rightarrow> 'w polled_tool \<Rightarrow> tool_context \<Rightarrow> phase \<times> ('w \<times> ledger)
    \<Rightarrow> phase \<times> ('w \<times> ledger)" where
  "run_alone 0 kw oe ie inner ctx s = s"
| "run_alone (Suc k) kw oe ie inner ctx (ph, st) =
     run_alone k kw oe ie inner ctx (advance kw oe ie inner ctx ph st)"

lemma context_eta: "\<lparr>tc_session_id = tc_session_id ctx, tc_tool_name = tc_tool_name ctx,
    tc_arguments = tc_arguments ctx, tc_turn = tc_turn ctx\<rparr> = ctx"
  by simp

lemma run_alone_Done: "run_alone k kw oe ie inner ctx (Done r, st) = (Done r, st)"
  by (induction k) (cases st, simp)+

lemma numeral_4_Suc: "(4 :: nat) = Suc (Suc (Suc (Suc 0)))"
  by simp

text \<open>The phases are those of \<open>execute\<close>: a task that is not interleaved with others and whose tool is ready at the
  first poll finishes in four phases, with the result, the world and the ledger of \<open>execute\<close>.\<close>

lemma phases_compose_to_execute:
  "run_alone 4 kw oe ie (ready_tool inner) ctx (Entered, (w, l)) =
    (Done (fst (execute kw oe ie inner ctx (w, l))), snd (execute kw oe ie inner ctx (w, l)))"
proof (cases "tp_enabled (tool_policy_of (kw_config kw) (tc_tool_name ctx))")
  case False
  then show ?thesis by (simp add: numeral_4_Suc execute_denied run_alone_Done)
next
  case en: True
  show ?thesis
  proof (cases "vet_clear kw oe Outbound (tc_session_id ctx) (tc_arguments ctx)")
    case False
    from vet_not_clear_run [OF this] en show ?thesis
      by (auto simp: numeral_4_Suc execute_def run_alone_Done Let_def)
  next
    case ob: True
    show ?thesis
      by (simp add: numeral_4_Suc execute_cleared [OF en ob] vet_clear_run [OF ob] en run_alone_Done Let_def context_eta
          ready_tool_def apfst_def split: prod.split sum.split)
  qed
qed

section \<open>Many tasks\<close>

definition call_step ::
  "kernel_wrapper \<Rightarrow> (nat \<Rightarrow> vet_env) \<Rightarrow> (nat \<Rightarrow> vet_env) \<Rightarrow> (nat \<Rightarrow> 'w polled_tool) \<Rightarrow> (nat \<Rightarrow> tool_context)
    \<Rightarrow> ('w, phase) task_step" where
  "call_step kw oe ie inner ctx i = advance kw (oe i) (ie i) (inner i) (ctx i)"

text \<open>The flags a phase is about to record.\<close>

fun turn_flags :: "phase \<Rightarrow> nat option" where
  "turn_flags (ToCommit n r) = Some n"
| "turn_flags _ = None"

fun is_done :: "phase \<Rightarrow> bool" where
  "is_done (Done res) = True"
| "is_done _ = False"

fun has_result :: "phase \<Rightarrow> bool" where
  "has_result (Done (Inr r)) = True"
| "has_result _ = False"

text \<open>The checks a task has passed: outbound only, or both.\<close>

definition out_passed :: "kernel_wrapper \<Rightarrow> vet_env \<Rightarrow> tool_context \<Rightarrow> nat \<Rightarrow> bool" where
  "out_passed kw oe ctx n \<longleftrightarrow> tp_enabled (tool_policy_of (kw_config kw) (tc_tool_name ctx))
     \<and> vet_clear kw oe Outbound (tc_session_id ctx) (tc_arguments ctx)
     \<and> n = vet_flags kw oe Outbound (tc_session_id ctx) (tc_arguments ctx)"

definition both_passed :: "kernel_wrapper \<Rightarrow> vet_env \<Rightarrow> vet_env \<Rightarrow> tool_context \<Rightarrow> nat \<Rightarrow> tool_output \<Rightarrow> bool" where
  "both_passed kw oe ie ctx n r \<longleftrightarrow>
     length (to_content r) \<le> tp_max_result_bytes (tool_policy_of (kw_config kw) (tc_tool_name ctx))
     \<and> vet_clear kw ie Inbound (tc_session_id ctx) (to_content r)
     \<and> (\<exists>k. out_passed kw oe ctx k \<and> n = k + vet_flags kw ie Inbound (tc_session_id ctx) (to_content r))"

fun phase_good :: "kernel_wrapper \<Rightarrow> vet_env \<Rightarrow> vet_env \<Rightarrow> tool_context \<Rightarrow> phase \<Rightarrow> bool" where
  "phase_good kw oe ie ctx (ToRun args n) \<longleftrightarrow> out_passed kw oe ctx n"
| "phase_good kw oe ie ctx (ToVet n r) \<longleftrightarrow> out_passed kw oe ctx n"
| "phase_good kw oe ie ctx (ToCommit n r) \<longleftrightarrow> both_passed kw oe ie ctx n r"
| "phase_good kw oe ie ctx _ \<longleftrightarrow> True"

lemma phase_good_step:
  assumes "phase_good kw oe ie ctx ph"
  shows "phase_good kw oe ie ctx (fst (advance kw oe ie inner ctx ph st))"
proof (cases st)
  case (Pair w l)
  show ?thesis
  proof (cases ph)
    case Entered
    then show ?thesis
      by (cases rule: vet.run_cases [of kw oe Outbound "tc_session_id ctx" "tc_arguments ctx"])
        (auto simp: Pair out_passed_def)
  next
    case (ToRun args n)
    then show ?thesis using assms by (auto simp: Pair split: prod.split option.split sum.split)
  next
    case (ToVet n r)
    then show ?thesis using assms
      by (cases rule: vet.run_cases [of kw ie Inbound "tc_session_id ctx" "to_content r"])
        (auto simp: Pair both_passed_def Let_def)
  next
    case (ToCommit n r)
    then show ?thesis by (auto simp: Pair Let_def split: prod.split)
  next
    case (Done res)
    then show ?thesis by (simp add: Pair)
  qed
qed

lemma advance_commit:
  "advance kw oe ie inner ctx (ToCommit n r) (w, l) =
    (let (outcome, l') = record_turn (ledger_params_from_config (kw_config kw)) (tc_session_id ctx) n l in
      (Done (if lo_blocked outcome then
               Inl (kernel_block ''anomaly_threshold'' (anomaly_reason (lo_score outcome)) (tc_session_id ctx))
             else Inr r), (w, l')))"
  by simp

lemma advance_quiet: "turn_flags ph = None \<Longrightarrow> snd (snd (advance kw oe ie inner ctx ph (w, l))) = l"
  by (cases ph) (auto simp: Let_def split: sum.splits option.splits prod.splits)

lemma advance_result: "\<not> is_done ph \<Longrightarrow> turn_flags ph = None \<Longrightarrow> \<not> has_result (fst (advance kw oe ie inner ctx ph st))"
  by (cases st; cases ph) (auto simp: Let_def split: sum.splits option.splits prod.splits)

interpretation calls: ledger_clients "ledger_params_from_config (kw_config kw)" "\<lambda>i. tc_session_id (ctx i)"
    "call_step kw oe ie inner ctx" turn_flags Entered is_done has_result "\<lambda>i. phase_good kw (oe i) (ie i) (ctx i)"
  for kw oe ie inner ctx
proof unfold_locales
  fix ph i and w and l :: ledger
  show "\<exists>n. turn_flags ph = Some n
      \<and> \<not> lo_blocked (fst (record_turn (ledger_params_from_config (kw_config kw)) (tc_session_id (ctx i)) n l))"
    if "\<not> is_done ph" "has_result (fst (call_step kw oe ie inner ctx i ph (w, l)))"
  proof (cases "turn_flags ph")
    case None
    with that advance_result show ?thesis by (fastforce simp: call_step_def)
  next
    case (Some n)
    with that show ?thesis
      by (cases ph) (auto simp: call_step_def Let_def split: prod.splits if_splits)
  qed
next
  fix ph i n and st :: "'a \<times> ledger"
  show "\<not> is_done ph \<and> is_done (fst (call_step kw oe ie inner ctx i ph st))" if "turn_flags ph = Some n"
    using that by (cases st; cases ph) (simp_all add: call_step_def Let_def split: prod.split)
next
  fix ph i n and w and l :: ledger
  show "snd (snd (call_step kw oe ie inner ctx i ph (w, l)))
      = snd (record_turn (ledger_params_from_config (kw_config kw)) (tc_session_id (ctx i)) n l)" if "turn_flags ph = Some n"
    using that by (cases ph) (simp_all add: call_step_def Let_def split: prod.split)
next
  fix ph i and st :: "'a \<times> ledger"
  show "fst (call_step kw oe ie inner ctx i ph st) = ph" if "is_done ph"
    using that by (cases st; cases ph) (simp_all add: call_step_def)
next
  show "is_done ph" if "has_result ph" for ph using that by (cases ph) simp_all
qed (simp_all add: call_step_def advance_quiet phase_good_step)

section \<open>Properties\<close>

text \<open>C7: Under any interleaving of concurrent calls, no release escapes the ledger and no update is
  lost: the ledger is what the logged turns make of it one after the other, every task is logged at
  most once, and a task that released a result passed both vettings and the size cap, has its own
  entry in the log with the flags of both directions, and the ledger that the entries before it made did not block
  that turn. While the logged sessions fit in the table (nothing is evicted, and the counters do not saturate), this means
  that the session's whole history up to and including that entry stays below the threshold.\<close>
theorem concurrent_release_is_accounted:
  assumes "sys_reachable (call_step kw oe ie inner ctx) turn_flags Entered s" "sy_phase s i = Done (Inr r)"
  shows "sy_ledger s = record_all (ledger_params_from_config (kw_config kw))
        (calls_of (\<lambda>i. tc_session_id (ctx i)) (sy_log s)) ledger_new
    \<and> distinct (map fst (sy_log s))
    \<and> tp_enabled (tool_policy_of (kw_config kw) (tc_tool_name (ctx i)))
    \<and> vet_clear kw (oe i) Outbound (tc_session_id (ctx i)) (tc_arguments (ctx i))
    \<and> vet_clear kw (ie i) Inbound (tc_session_id (ctx i)) (to_content r)
    \<and> length (to_content r) \<le> tp_max_result_bytes (tool_policy_of (kw_config kw) (tc_tool_name (ctx i)))
    \<and> (\<exists>k n. k < length (sy_log s) \<and> sy_log s ! k = (i, n)
         \<and> n = vet_flags kw (oe i) Outbound (tc_session_id (ctx i)) (tc_arguments (ctx i))
                 + vet_flags kw (ie i) Inbound (tc_session_id (ctx i)) (to_content r)
         \<and> \<not> lo_blocked (fst (record_turn (ledger_params_from_config (kw_config kw)) (tc_session_id (ctx i)) n
               (record_all (ledger_params_from_config (kw_config kw))
                  (calls_of (\<lambda>i. tc_session_id (ctx i)) (take k (sy_log s))) ledger_new)))
         \<and> (length (sy_log s) < 2 ^ 64
             \<and> card ((\<lambda>i. tc_session_id (ctx i)) ` fst ` set (sy_log s)) \<le> k_max_sessions (kw_config kw)
            \<longrightarrow> \<not> lo_blocked (spec_outcome (ledger_params_from_config (kw_config kw))
               (own_flags (tc_session_id (ctx i)) (calls_of (\<lambda>i. tc_session_id (ctx i)) (take (Suc k) (sy_log s)))))))"
proof -
  have inv: "calls.sys_inv kw ctx oe ie inner s" by (rule calls.reachable_inv [OF assms(1)])
  have rel: "has_result (sy_phase s i)" by (simp add: assms(2))
  obtain k n before w where acc: "calls.accounted kw ctx oe ie inner (sy_log s) i (sy_phase s i) k n before w"
    by (rule calls.release_accounted [OF assms(1) rel])
  have kn: "k < length (sy_log s)" "sy_log s ! k = (i, n)" "turn_flags before = Some n"
    "phase_good kw (oe i) (ie i) (ctx i) before"
    using acc by (simp_all add: calls.accounted_def)
  then obtain r' where b: "before = ToCommit n r'" by (cases before) simp_all
  have "r' = r" using acc assms(2) by (auto simp: calls.accounted_def call_step_def b Let_def split: prod.splits if_splits)
  then have "both_passed kw (oe i) (ie i) (ctx i) n r" using kn(4) b by simp
  moreover have "lp_max_sessions (ledger_params_from_config (kw_config kw)) = k_max_sessions (kw_config kw)"
    by (simp add: ledger_params_from_config_def)
  moreover note calls.accounted_unblocked [OF acc rel] calls.accounted_history [OF acc rel]
  ultimately show ?thesis
    using kn(1,2) inv by (auto simp: both_passed_def out_passed_def calls.sys_inv_def)
qed

text \<open>Two calls racing; the tool of the second has no result at its first poll.\<close>

definition slow_echo :: "nat polled_tool" where
  "slow_echo ctx w = (if w = 0 then (None, 1) else (Some (Inr \<lparr>to_content = ''r''\<rparr>), w))"

definition race :: "(nat, phase) sys" where
  "race = fold (sys_advance (call_step open_wrapper (\<lambda>_. passing_env) (\<lambda>_. passing_env) (\<lambda>_. slow_echo) (\<lambda>_. search_call)) turn_flags)
     [0, 1, 1, 0, 1, 0, 1, 1, 0] (sys_init Entered 0)"

theorem concurrent_release_is_accounted_witness:
  "sy_phase race 0 = Done (Inr \<lparr>to_content = ''r''\<rparr>) \<and> sy_log race = [(1, 0), (0, 0)]
    \<and> distinct (map fst (sy_log race))"
proof -
  have r: "sys_reachable (call_step open_wrapper (\<lambda>_. passing_env) (\<lambda>_. passing_env) (\<lambda>_. slow_echo) (\<lambda>_. search_call))
      turn_flags Entered race"
    unfolding race_def by (intro sys_reachable_fold sys_reachable.init)
  have d: "sy_phase race 0 = Done (Inr \<lparr>to_content = ''r''\<rparr>)" "sy_log race = [(1, 0), (0, 0)]"
    by code_simp+
  from concurrent_release_is_accounted [OF r d(1)] d show ?thesis by simp
qed

end
