(* ===== verification/Guard_Deployed.thy ===== *)
theory Guard_Deployed
  imports Guard_Startup
begin

text \<open>
  The guard as it is deployed: the server of \<open>server.rs\<close> over the llama backend of \<open>inference.rs\<close>, whose sampler
  is bound to the embedded grammar, with the strict parser behind it. What the pieces add up to: the
  server's reply is the model's sentence, or a block.
\<close>

section \<open>A JSON parser that reads the sentences\<close>

text \<open>
  What is relied on of the JSON parser: a sentence of the grammar is read as the object it spells, and
  a text that breaks off inside a sentence is not a document.
\<close>

definition spells :: "json_api \<Rightarrow> string \<Rightarrow> string \<Rightarrow> string list \<Rightarrow> bool" where
  "spells js v c fs \<longleftrightarrow>
     (\<exists>x. ja_parse js (verdict_json v c fs) =
        Some (JObj [(''verdict'', JStr v), (''confidence'', JNum x), (''flags'', JArr (map JStr fs))]))"

definition reads_sentences :: "json_api \<Rightarrow> bool" where
  "reads_sentences js \<longleftrightarrow>
     (\<forall>v c fs. v \<in> {''PASS'', ''BLOCK''} \<longrightarrow> confidence_text c \<longrightarrow> list_all tag_text fs \<longrightarrow> spells js v c fs)
     \<and> (\<forall>s rest. verdict_sentence (s @ rest) \<longrightarrow> \<not> verdict_sentence s \<longrightarrow> ja_parse js s = None)"

definition within_limits :: "string \<Rightarrow> string list \<Rightarrow> bool" where
  "within_limits s fs \<longleftrightarrow> length s \<le> 512 \<and> length fs \<le> 8 \<and> list_all (\<lambda>f. length f \<le> 48) fs"

lemma sentence_accepted:
  assumes "reads_sentences js" "confidence_text c" "list_all tag_text fs"
  shows "within_limits (verdict_json (show_verdict v) c fs) fs \<Longrightarrow>
      \<exists>sv. parse_strict js (verdict_json (show_verdict v) c fs) = Inr sv \<and> sv_verdict sv = v \<and> sv_flags sv = fs"
    and "\<not> within_limits (verdict_json (show_verdict v) c fs) fs \<Longrightarrow>
      \<exists>e. parse_strict js (verdict_json (show_verdict v) c fs) = Inl e"
proof -
  have "show_verdict v \<in> {''PASS'', ''BLOCK''}" by (cases v) simp_all
  then obtain x where "ja_parse js (verdict_json (show_verdict v) c fs) =
      Some (JObj [(''verdict'', JStr (show_verdict v)), (''confidence'', JNum x), (''flags'', JArr (map JStr fs))])"
    using assms unfolding reads_sentences_def spells_def by blast
  note p = parse_sentence [OF this assms(3), folded within_limits_def]
  show "within_limits (verdict_json (show_verdict v) c fs) fs \<Longrightarrow>
      \<exists>sv. parse_strict js (verdict_json (show_verdict v) c fs) = Inr sv \<and> sv_verdict sv = v \<and> sv_flags sv = fs"
    using p by (cases "parse_strict js (verdict_json (show_verdict v) c fs)") auto
  show "\<not> within_limits (verdict_json (show_verdict v) c fs) fs \<Longrightarrow>
      \<exists>e. parse_strict js (verdict_json (show_verdict v) c fs) = Inl e"
    using p by (cases "parse_strict js (verdict_json (show_verdict v) c fs)") auto
qed

lemma broken_sentence_refused:
  assumes "reads_sentences js" "verdict_sentence (s @ rest)" "\<not> verdict_sentence s"
  shows "\<exists>e. parse_strict js s = Inl e"
proof -
  have "ja_parse js s = None" using assms unfolding reads_sentences_def by blast
  then show ?thesis by (simp add: parse_strict_def json_from_str_def)
qed

section \<open>The reply of the deployed guard\<close>

definition llama_server :: "('c, 'b, 's, 't) llama_api \<Rightarrow> string \<Rightarrow> string \<Rightarrow> nat \<Rightarrow> guard_server" where
  "llama_server api model_id system cap = guard_server_new (llama_backend api verdict_gbnf model_id) system cap"

text \<open>What a reply may be, given the model's output.\<close>

definition faithful_reply :: "string \<Rightarrow> classify_response \<Rightarrow> bool" where
  "faithful_reply out resp \<longleftrightarrow>
     (\<exists>v c fs. out = verdict_json (show_verdict v) c fs \<and> within_limits out fs
        \<and> cs_verdict resp = (case v of Pass \<Rightarrow> 1 | Block \<Rightarrow> 2) \<and> cs_flags resp = fs)
     \<or> (cs_verdict resp = 2 \<and> cs_flags resp = [''guard_contract_violation'']
        \<and> (\<not> verdict_sentence out \<or> (\<exists>v c fs. out = verdict_json (show_verdict v) c fs \<and> \<not> within_limits out fs)))"

lemma llama_server_reply:
  assumes js: "reads_sentences js"
    and sampler: "\<And>s. la_sampler api verdict_gbnf ''root'' = Inr s \<Longrightarrow> constrained api verdict_sentence rel s"
    and rq: "request_of ua r = Some rq" "length (gr_window rq) \<le> cap"
    and out: "llama_infer api verdict_gbnf (build_prompt system rq nonce) = Inr out"
  shows "faithful_reply out (server_classify js ua (llama_server api model_id system cap) nonce t r)"
proof -
  let ?srv = "llama_server api model_id system cap"
  have inner: "server_classify js ua ?srv nonce t r =
      response_of (case parse_strict js out of
        Inr v \<Rightarrow> \<lparr>gv_verdict = sv_verdict v, gv_confidence = sv_confidence v, gv_flags = sv_flags v,
                  gv_model_id = model_id, gv_inference = t\<rparr>
      | Inl e \<Rightarrow> server_block ?srv ''guard_contract_violation'' t)"
    using rq out by (simp add: server_classify_def classify_inner_def llama_server_def guard_server_new_def llama_backend_def
        split: sum.split)
  have blocked: "cs_verdict (server_classify js ua ?srv nonce t r) = 2
      \<and> cs_flags (server_classify js ua ?srv nonce t r) = [''guard_contract_violation'']" if "parse_strict js out = Inl e" for e
    using that by (simp add: inner response_of_def)
  obtain rest where rest: "verdict_sentence (out @ rest)"
    using llama_output [OF sampler out] by blast
  show ?thesis
  proof (cases "verdict_sentence out")
    case False
    with broken_sentence_refused [OF js rest] blocked show ?thesis by (auto simp: faithful_reply_def)
  next
    case True
    then obtain vs c fs where s: "vs \<in> {''PASS'', ''BLOCK''}" "confidence_text c" "list_all tag_text fs" "out = verdict_json vs c fs"
      unfolding verdict_sentence_def by blast
    obtain v where v: "vs = show_verdict v" using s(1) by (metis empty_iff insert_iff show_verdict.simps)
    show ?thesis
    proof (cases "within_limits out fs")
      case True
      then obtain sv where "parse_strict js out = Inr sv" "sv_verdict sv = v" "sv_flags sv = fs"
        using sentence_accepted(1) [OF js s(2,3)] s(4) v by blast
      then have "cs_verdict (server_classify js ua ?srv nonce t r) = (case v of Pass \<Rightarrow> 1 | Block \<Rightarrow> 2)
          \<and> cs_flags (server_classify js ua ?srv nonce t r) = fs"
        by (cases v) (simp_all add: inner response_of_def)
      with True s(4) v show ?thesis unfolding faithful_reply_def by blast
    next
      case False
      then obtain e where "parse_strict js out = Inl e"
        using sentence_accepted(2) [OF js s(2,3)] s(4) v by blast
      with blocked False s(4) v show ?thesis unfolding faithful_reply_def by blast
    qed
  qed
qed

text \<open>C12: The deployed guard repeats its model or blocks: with the llama backend, a sampler that keeps to the embedded
  grammar and a JSON parser that reads its sentences, the reply to a window within the cap carries exactly the
  verdict and the flags of the sentence the model wrote, or it is a BLOCK for a contract violation, because the
  output broke off inside a sentence or exceeds the limits of the strict parser; in particular a PASS is the model's
  own.\<close>
theorem deployed_guard_repeats_model:
  assumes "reads_sentences js"
    and "\<And>s. la_sampler api verdict_gbnf ''root'' = Inr s \<Longrightarrow> constrained api verdict_sentence rel s"
    and "request_of ua r = Some rq" "length (gr_window rq) \<le> cap"
    and "llama_infer api verdict_gbnf (build_prompt system rq nonce) = Inr out"
  shows "faithful_reply out (server_classify js ua (llama_server api model_id system cap) nonce t r)"
  using assms by (rule llama_server_reply)

section \<open>A parser and a model\<close>

text \<open>The maximal runs of tag characters of a text, and a parser that reads nothing but the sentences.\<close>

function tag_runs :: "string \<Rightarrow> string list" where
  "tag_runs s =
     (case dropWhile (\<lambda>c. \<not> flag_byte c) s of
        [] \<Rightarrow> []
      | x # xs \<Rightarrow> (x # takeWhile flag_byte xs) # tag_runs (dropWhile flag_byte xs))"
  by pat_completeness auto
termination
proof (relation "measure length")
  fix s x and xs :: string
  assume d: "dropWhile (\<lambda>c. \<not> flag_byte c) s = x # xs"
  have "length (dropWhile flag_byte xs) \<le> length xs" by (rule length_dropWhile_le)
  also have "\<dots> < length (dropWhile (\<lambda>c. \<not> flag_byte c) s)" by (simp add: d)
  also have "\<dots> \<le> length s" by (rule length_dropWhile_le)
  finally show "(dropWhile flag_byte xs, s) \<in> measure length" by simp
qed simp

declare tag_runs.simps [simp del]

lemma tag_runs_none:
  assumes "list_all (\<lambda>c. \<not> flag_byte c) s"
  shows "tag_runs s = []"
proof -
  have "dropWhile (\<lambda>c. \<not> flag_byte c) s = []" using assms by (simp add: list_all_iff)
  then show ?thesis by (subst tag_runs.simps) (simp only: list.case)
qed

lemma tag_runs_skip: "\<not> flag_byte c \<Longrightarrow> tag_runs (c # s) = tag_runs s"
  by (subst (1 2) tag_runs.simps) simp

lemma tag_runs_tag:
  assumes "tag_text f" "\<not> flag_byte c"
  shows "tag_runs (f @ c # s) = f # tag_runs (c # s)"
proof -
  obtain x xs where f: "f = x # xs" "flag_byte x" "list_all flag_byte xs"
    using assms(1) by (cases f) (auto simp: tag_text_def)
  then have "takeWhile flag_byte (xs @ c # s) = xs" "dropWhile flag_byte (xs @ c # s) = c # s"
    using assms(2) by (auto simp: list_all_iff takeWhile_append dropWhile_append takeWhile_eq_all_conv)
  then show ?thesis using f by (subst tag_runs.simps) simp
qed

lemma separators [simp]:
  "\<not> flag_byte (CHR 0x22)" "\<not> flag_byte (CHR '','')" "\<not> flag_byte (CHR '']'')" "\<not> flag_byte (CHR ''['')" "\<not> flag_byte (CHR ''}'')"
  by (simp_all add: flag_byte_def byte_val_def)

lemma tag_runs_joined:
  "list_all tag_text fs \<Longrightarrow> tag_runs (join_with '','' (map quoted fs) @ '']}'') = fs"
proof (induction fs)
  case Nil
  show ?case by (rule trans [OF _ tag_runs_none [of "'']}''"]]) simp_all
next
  case (Cons f fs)
  show ?case
  proof (cases fs)
    case Nil
    with Cons.prems show ?thesis
      by (simp add: quoted_def tag_runs_skip tag_runs_tag) (rule tag_runs_none, simp)
  next
    case (Cons g gs)
    with Cons.IH Cons.prems show ?thesis
      by (simp add: quoted_def tag_runs_skip tag_runs_tag)
  qed
qed

definition read_sentence :: "string \<Rightarrow> json" where
  "read_sentence s =
     (let v = takeWhile (\<lambda>c. c \<noteq> CHR 0x22) (drop 12 s);
          fs = tag_runs (dropWhile (\<lambda>c. c \<noteq> CHR ''['') (drop (27 + length v) s))
      in JObj [(''verdict'', JStr v), (''confidence'', JNum 0), (''flags'', JArr (map JStr fs))])"

definition grammar_json :: json_api where
  "grammar_json = \<lparr>ja_parse = (\<lambda>s. if grammar_accepts (6 * (length (str_chars s) + 1)) verdict_rules s = Some True
       then Some (read_sentence s) else None), ja_error = (\<lambda>s. ''not a sentence'')\<rparr>"

lemma read_sentence_json:
  assumes v: "v \<in> {''PASS'', ''BLOCK''}" and c: "confidence_text c" and fs: "list_all tag_text fs"
  shows "read_sentence (verdict_json v c fs) = JObj [(''verdict'', JStr v), (''confidence'', JNum 0), (''flags'', JArr (map JStr fs))]"
proof -
  let ?t = "join_with '','' (map quoted fs) @ '']}''"
  have "\<not> digit_byte (CHR ''['')" by (simp add: digit_byte_def byte_val_def)
  then have no: "CHR ''['' \<notin> set c" using c by (auto simp: confidence_text_def list_all_iff)
  have s: "verdict_json v c fs = ''{'' @ quoted ''verdict'' @ '':'' @ [CHR 0x22] @ v @ [CHR 0x22] @ '',''
      @ quoted ''confidence'' @ '':'' @ c @ '','' @ quoted ''flags'' @ '':['' @ ?t"
    by (simp add: verdict_json_def quoted_def)
  have "takeWhile (\<lambda>c. c \<noteq> CHR 0x22) (drop 12 (verdict_json v c fs)) = v"
    using v by (auto simp: s quoted_def)
  moreover have "drop (27 + length v) (verdict_json v c fs) = c @ '','' @ quoted ''flags'' @ '':['' @ ?t"
    using v by (auto simp: s quoted_def)
  moreover have "dropWhile (\<lambda>c. c \<noteq> CHR ''['') (c @ '','' @ quoted ''flags'' @ '':['' @ ?t) = ''['' @ ?t"
    using no by (subst dropWhile_append2) (auto simp: quoted_def)
  ultimately show ?thesis
    using tag_runs_joined [OF fs] by (simp add: read_sentence_def tag_runs_skip)
qed

lemma grammar_json_reads: "reads_sentences grammar_json"
proof -
  have g: "grammar_accepts (6 * (length (str_chars s) + 1)) verdict_rules s = Some True \<longleftrightarrow> verdict_sentence s" for s
    using accepts_sentences [of s 0] by simp
  have "spells grammar_json v c fs" if "v \<in> {''PASS'', ''BLOCK''}" "confidence_text c" "list_all tag_text fs" for v c fs
  proof -
    have "verdict_sentence (verdict_json v c fs)" using that unfolding verdict_sentence_def by blast
    then show ?thesis
      using read_sentence_json [OF that] g by (simp add: spells_def grammar_json_def)
  qed
  moreover have "ja_parse grammar_json s = None" if "\<not> verdict_sentence s" for s
    using that g by (simp add: grammar_json_def)
  ultimately show ?thesis unfolding reads_sentences_def by blast
qed

definition hello_classify :: classify_request where
  "hello_classify = \<lparr>cq_payload_window = ''hello'', cq_window_index = 0, cq_window_count = 1, cq_direction = 1,
     cq_tool_name = [], cq_anomaly_flags = [], cq_session_id = ''s''\<rparr>"

definition nil_uuids :: wire_api where
  "nil_uuids = \<lparr>ua_show = (\<lambda>u. []), ua_parse = (\<lambda>s. None), ua_code = (\<lambda>c. ''Unknown'')\<rparr>"

lemma deployed_guard_repeats_model_witness:
  "faithful_reply pass_answer
     (server_classify grammar_json nil_uuids (llama_server (scripted_api [pass_answer]) ''m'' ''sys'' 64) ''ab'' 1000 hello_classify)"
proof (rule deployed_guard_repeats_model [OF grammar_json_reads])
  let ?api = "scripted_api [pass_answer]"
  show "constrained ?api verdict_sentence (\<lambda>s out. out @ concat s = concat [pass_answer]) s"
    if "la_sampler ?api verdict_gbnf ''root'' = Inr s" for s
    by (rule scripted_sampler [OF that])
  show "request_of nil_uuids hello_classify = Some \<lparr>gr_window = ''hello'', gr_window_index = 0, gr_window_count = 1,
      gr_direction = Inbound, gr_tool_name = None, gr_anomaly_flags = [], gr_session_id = 0\<rparr>"
    by (simp add: request_of_def hello_classify_def nil_uuids_def direction_of_number_simps)
qed (simp_all add: scripted_infer)

end
