(* ===== verification/Ctp_System.thy ===== *)
theory Ctp_System
  imports Orch_Concurrent Kernel_Concurrent Guard_Deployed Guard_Startup
begin

text \<open>
  The system put together: the two places where bytes are let through (the tool wrapper of the kernel
  and the evaluation of the gateway), the client of the guard, the wire, the guard's server, the llama
  backend with its grammar, and the strict parser. What a release rests on is followed across all of
  them to what the model itself wrote.
\<close>

section \<open>What the model wrote\<close>

text \<open>The model's own output on the prompt of a window, under some nonce, is a sentence of the grammar that says PASS.\<close>

definition wrote_pass :: "('c, 'b, 's, 't) llama_api \<Rightarrow> string \<Rightarrow> guard_request \<Rightarrow> bool" where
  "wrote_pass api system rq \<longleftrightarrow>
     (\<exists>nonce c fs. confidence_text c \<and> list_all tag_text fs
        \<and> llama_infer api verdict_gbnf (build_prompt system rq nonce) = Inr (verdict_json ''PASS'' c fs))"

lemma model_passed_wrote_pass:
  assumes js: "reads_sentences js"
    and sampler: "\<And>s. la_sampler api verdict_gbnf ''root'' = Inr s \<Longrightarrow> constrained api verdict_sentence rel s"
    and passed: "model_passed js (llama_server api model_id system cap) rq"
  shows "wrote_pass api system rq"
proof -
  obtain nonce raw v where raw: "llama_infer api verdict_gbnf (build_prompt system rq nonce) = Inr raw"
    and p: "parse_strict js raw = Inr v" "sv_verdict v = Pass"
    using passed by (auto simp: model_passed_def llama_server_def guard_server_new_def llama_backend_def)
  obtain rest where rest: "verdict_sentence (raw @ rest)" using llama_output [OF sampler raw] by blast
  have "verdict_sentence raw" using broken_sentence_refused [OF js rest] p(1) by auto
  then obtain vs c fs where s: "vs \<in> {''PASS'', ''BLOCK''}" "confidence_text c" "list_all tag_text fs" "raw = verdict_json vs c fs"
    unfolding verdict_sentence_def by blast
  obtain w where w: "vs = show_verdict w" using s(1) by (metis empty_iff insert_iff show_verdict.simps)
  have "within_limits raw fs" using sentence_accepted(2) [OF js s(2,3), of w] p(1) s(4) w by auto
  then have "sv_verdict v = w" using sentence_accepted(1) [OF js s(2,3), of w] p(1) s(4) w by auto
  then have "vs = ''PASS''" using p(2) w by simp
  with s raw show ?thesis unfolding wrote_pass_def by blast
qed

section \<open>The kernel over a real guard\<close>

lemma vet_clear_model_passed:
  assumes "connects ch js ua srv" "uuid_ok ua" "ve_guard env = client_check ua cl ch" "vet_clear kw env dir sid b"
    and "rq \<in> set (guard_requests (kw_guard kw) b dir sid)"
  shows "model_passed js srv rq \<and> length (gr_window rq) \<le> gs_max_window_bytes srv"
  using assms by (intro client_pass_is_model_pass [OF assms(1,2) window_request_no_tool [OF assms(5)],
        where timeout = "gf_timeout (kw_guard kw)" and cl = cl]) (auto simp: vet_clear_def)

text \<open>C4: A tool result is released only if the model wrote PASS in both directions: with the kernel's guard behind the
  client, the wire and a deployed guard server, whenever a call returns a result, the model's own output on the prompt
  of every window of the arguments and of every window of the result was a sentence that says PASS, and the result
  is what the tool returned for these arguments.\<close>
theorem release_means_model_wrote_pass:
  assumes wire: "connects ch js ua (llama_server api model_id system cap)" "uuid_ok ua"
    and guard: "ve_guard oe = client_check ua cl ch" "ve_guard ie = client_check ua cl ch"
    and model: "reads_sentences js"
      "\<And>s. la_sampler api verdict_gbnf ''root'' = Inr s \<Longrightarrow> constrained api verdict_sentence rel s"
    and released: "fst (execute kw oe ie inner ctx (w, l)) = Inr out"
  shows "list_all (wrote_pass api system) (guard_requests (kw_guard kw) (tc_arguments ctx) Outbound (tc_session_id ctx))
    \<and> list_all (wrote_pass api system) (guard_requests (kw_guard kw) (to_content out) Inbound (tc_session_id ctx))
    \<and> fst (inner ctx w) = Inr out"
proof -
  have rel: "vet_clear kw oe Outbound (tc_session_id ctx) (tc_arguments ctx)"
    "vet_clear kw ie Inbound (tc_session_id ctx) (to_content out)" "fst (inner ctx w) = Inr out"
    using released by (cases rule: execute_cases [where kw = kw and ctx = ctx and oe = oe and ie = ie
        and inner = inner and w = w and l = l]; auto)+
  have "list_all (wrote_pass api system) (guard_requests (kw_guard kw) b dir (tc_session_id ctx))"
    if "ve_guard env = client_check ua cl ch" "vet_clear kw env dir (tc_session_id ctx) b" for env dir b
    unfolding list_all_iff
    using vet_clear_model_passed [OF wire that] model_passed_wrote_pass [OF model] by blast
  with guard rel show ?thesis by blast
qed

section \<open>The gateway over a real guard\<close>

text \<open>C1: A PASS of the gateway was written by the model, over everything: in a gateway assembled from its
  configuration and connected to a deployed guard server, a payload is passed only if the model's own output on
  the prompt of every window was a sentence of the embedded grammar that says PASS; and any phrase of the payload of
  at most one byte more than the configured overlap lies whole in such a window.\<close>
theorem gateway_pass_means_model_wrote_pass:
  assumes built: "build_orchestrator tab a conf = Some (Inr orc)"
    and guard: "ve_guard (ee_vet env) = client_check ua (client_of (c_guard conf)) ch"
    and wire: "connects ch js ua (llama_server api model_id system cap)" "uuid_ok ua"
    and model: "reads_sentences js"
      "\<And>s. la_sampler api verdict_gbnf ''root'' = Inr s \<Longrightarrow> constrained api verdict_sentence rel s"
    and phrase: "has_block q b" "length q \<le> Suc (g_window_overlap_bytes (c_guard conf))"
      "g_window_overlap_bytes (c_guard conf) < g_max_window_bytes (c_guard conf)"
    and pass: "d_verdict (fst (fst (evaluate orc env b dir tool sid l))) = Pass"
  shows "list_all (wrote_pass api system) (guard_requests (or_guard orc) b dir sid)
    \<and> list_ex (\<lambda>rq. has_block q (gr_window rq) \<and> wrote_pass api system rq) (guard_requests (or_guard orc) b dir sid)"
proof -
  have "list_all (wrote_pass api system) (guard_requests (or_guard orc) b dir sid)"
    unfolding list_all_iff
    using pass_means_model_passed [OF built guard wire pass] model_passed_wrote_pass [OF model] by blast
  moreover obtain t where "or_guard orc = fanout_new (g_max_window_bytes (c_guard conf)) (g_window_overlap_bytes (c_guard conf)) t"
    using built by (auto simp: build_orchestrator_def and_then_Inr_iff)
  ultimately show ?thesis
    using phrase_in_request [OF phrase, of t dir sid] by (auto simp: list_all_iff list_ex_iff)
qed

text \<open>
  The same from the configurations of both processes: the gateway is assembled from its own, and the guard it is
  connected to was started from one that selects the llama backend. Then a model was loaded, and it is that model
  that wrote PASS, under the built-in prompt, for every window.
\<close>

lemma processes_pass_means_model_wrote_pass:
  assumes built: "build_orchestrator tab a conf = Some (Inr orc)"
    and started: "guard_startup uni (Some (llama_load init load_from_file)) gconf = Inr srv" "g_backend (c_guard gconf) = Llama"
    and guard: "ve_guard (ee_vet env) = client_check ua (client_of (c_guard conf)) ch"
    and wire: "connects ch js ua srv" "uuid_ok ua"
    and model: "reads_sentences js"
      "\<And>lib path api s. load_from_file lib path = Inr api \<Longrightarrow> la_sampler api verdict_gbnf ''root'' = Inr s
        \<Longrightarrow> constrained api verdict_sentence (rel api) s"
    and pass: "d_verdict (fst (fst (evaluate orc env b dir tool sid l))) = Pass"
  shows "\<exists>lib path api. init = Inr lib \<and> g_model_path (c_guard gconf) = Some path \<and> load_from_file lib path = Inr api
    \<and> list_all (wrote_pass api system_prompt_v1) (guard_requests (or_guard orc) b dir sid)"
proof -
  obtain lib path api where loaded: "init = Inr lib" "g_model_path (c_guard gconf) = Some path" "load_from_file lib path = Inr api"
    "srv = guard_server_new (llama_backend api verdict_gbnf (llama_model_id (c_guard gconf) path)) system_prompt_v1
       (g_max_window_bytes (c_guard gconf))"
    using started by (rule guard_starts_on_loaded_model)
  then have srv: "srv = llama_server api (llama_model_id (c_guard gconf) path) system_prompt_v1 (g_max_window_bytes (c_guard gconf))"
    by (simp add: llama_server_def)
  have "list_all (wrote_pass api system_prompt_v1) (guard_requests (or_guard orc) b dir sid)"
    unfolding list_all_iff
    using pass_means_model_passed [OF built guard wire pass] model_passed_wrote_pass [OF model(1) model(2) [OF loaded(3)]]
    unfolding srv by blast
  with loaded show ?thesis by blast
qed

section \<open>The system running\<close>

definition deployed_server :: guard_server where
  "deployed_server = llama_server (scripted_api [pass_answer]) ''m'' ''sys'' 64"

definition deployed_channel :: rpc_channel where
  "deployed_channel q = Replies 5 (Inr (server_classify grammar_json unary_uuids deployed_server ''ab'' 1000 q))"

lemma deployed_connects: "connects deployed_channel grammar_json unary_uuids (llama_server (scripted_api [pass_answer]) ''m'' ''sys'' 64)"
  by (auto simp: connects_def deployed_channel_def deployed_server_def)

lemma pass_answer_parsed: "\<exists>sv. parse_strict grammar_json pass_answer = Inr sv \<and> sv_verdict sv = Pass \<and> sv_flags sv = []"
proof -
  have c: "confidence_text ''0.10''" by (rule confidence_010)
  have "within_limits (verdict_json (show_verdict Pass) ''0.10'' []) []" by code_simp
  from sentence_accepted(1) [OF grammar_json_reads c _ this] show ?thesis by (simp add: pass_answer_def)
qed

text \<open>Every window the client sends over this channel comes back as a PASS without flags.\<close>

lemma deployed_answer:
  assumes "gr_tool_name rq = None" "length (gr_window rq) \<le> 64" "5 \<le> cl_timeout cl"
  shows "\<exists>v. client_check unary_uuids cl deployed_channel rq = Answers 5 (Inr v) \<and> gv_verdict v = Pass \<and> gv_flags v = []"
proof -
  obtain sv where sv: "parse_strict grammar_json pass_answer = Inr sv" "sv_verdict sv = Pass" "sv_flags sv = []"
    using pass_answer_parsed by blast
  have "request_of unary_uuids (to_proto unary_uuids rq) = Some rq"
    using request_of_to_proto [OF unary_uuids_ok, of rq] assms(1) by simp
  then have "server_classify grammar_json unary_uuids deployed_server ''ab'' 1000 (to_proto unary_uuids rq) =
      response_of \<lparr>gv_verdict = Pass, gv_confidence = sv_confidence sv, gv_flags = [], gv_model_id = ''m'', gv_inference = 1000\<rparr>"
    using sv assms(2) by (simp add: server_classify_def classify_inner_def deployed_server_def llama_server_def
        guard_server_new_def llama_backend_def scripted_infer)
  then show ?thesis
    using assms(3) by (simp add: client_check_def client_call_def deployed_channel_def from_proto_response_of Let_def)
qed

definition deployed_env :: eval_env where
  "deployed_env = small_env\<lparr>ee_vet := (ee_vet small_env)
     \<lparr>ve_guard := client_check unary_uuids (client_of (c_guard small_config)) deployed_channel\<rparr>\<rparr>"

lemma deployed_passes: "d_verdict (fst (fst (evaluate small_orchestrator deployed_env ''hello'' Inbound None 7 ledger_new))) = Pass"
proof -
  have "5 \<le> cl_timeout (client_of (c_guard small_config))"
    by (simp add: client_of_def small_config_def ms_nanos_def)
  then obtain v where "client_check unary_uuids (client_of (c_guard small_config)) deployed_channel hello_request = Answers 5 (Inr v)"
    "gv_verdict v = Pass" "gv_flags v = []"
    using deployed_answer [of hello_request "client_of (c_guard small_config)"] by (auto simp: window_request_def)
  then show ?thesis by (intro small_passes_with(2) [of deployed_env v]) (simp_all add: deployed_env_def)
qed

lemma gateway_pass_means_model_wrote_pass_witness:
  "list_ex (\<lambda>rq. has_block ''ell'' (gr_window rq) \<and> wrote_pass (scripted_api [pass_answer]) ''sys'' rq)
     (guard_requests (or_guard small_orchestrator) ''hello'' Inbound 7)"
proof -
  have g: "ve_guard (ee_vet deployed_env) = client_check unary_uuids (client_of (c_guard small_config)) deployed_channel"
    by (simp add: deployed_env_def)
  have q: "has_block ''ell'' ''hello''" by (simp add: has_block_def)
  have l: "length ''ell'' \<le> Suc (g_window_overlap_bytes (c_guard small_config))"
    "g_window_overlap_bytes (c_guard small_config) < g_max_window_bytes (c_guard small_config)"
    by (simp_all add: small_config_def)
  show ?thesis
    by (rule conjunct2, rule gateway_pass_means_model_wrote_pass
      [OF small_built g deployed_connects unary_uuids_ok grammar_json_reads _ q l deployed_passes]) (rule scripted_sampler)
qed

definition guarded_env :: vet_env where
  "guarded_env = hung_env\<lparr>ve_guard := client_check unary_uuids (client_of (c_guard small_config)) deployed_channel\<rparr>"

lemma release_means_model_wrote_pass_witness:
  "list_all (wrote_pass (scripted_api [pass_answer]) ''sys'') (guard_requests (kw_guard open_wrapper) ''r'' Inbound 7)"
proof -
  let ?cl = "client_of (c_guard small_config)"
  have t: "5 \<le> cl_timeout ?cl" by (simp add: client_of_def small_config_def ms_nanos_def)
  have clear: "vet_clear open_wrapper guarded_env dir 7 b \<and> vet_flags open_wrapper guarded_env dir 7 b = 0"
    if r: "guard_requests (kw_guard open_wrapper) b dir 7 = [rq]" "gr_tool_name rq = None" "length (gr_window rq) \<le> 64" for dir b rq
  proof -
    obtain v where v: "client_check unary_uuids ?cl deployed_channel rq = Answers 5 (Inr v)" "gv_verdict v = Pass" "gv_flags v = []"
      using deployed_answer [OF r(2,3) t] by blast
    have "kw_challenge open_wrapper b = []" "gf_timeout (kw_guard open_wrapper) = 1000"
      by (simp_all add: open_wrapper_def closed_wrapper_def)
    with v r(1) show ?thesis
      by (simp add: vet_clear_def vet_flags_def guarded_env_def answered_pass_def window_findings_def findings_verdict_Pass_iff)
  qed
  have "guard_requests (kw_guard open_wrapper) ''q'' Outbound 7 = [window_request Outbound 7 1 0 ''q'']"
    "guard_requests (kw_guard open_wrapper) ''r'' Inbound 7 = [window_request Inbound 7 1 0 ''r'']"
    by code_simp+
  then have c: "vet_clear open_wrapper guarded_env Outbound 7 ''q''" "vet_flags open_wrapper guarded_env Outbound 7 ''q'' = 0"
    "vet_clear open_wrapper guarded_env Inbound 7 ''r''" "vet_flags open_wrapper guarded_env Inbound 7 ''r'' = 0"
    using clear [of "''q''" Outbound] clear [of "''r''" Inbound] by (simp_all add: window_request_def)
  have l: "\<not> lo_blocked (fst (record_turn (ledger_params_from_config (kw_config open_wrapper)) 7 0 ledger_new))"
    by code_simp
  have p: "tp_enabled (tool_policy_of (kw_config open_wrapper) ''search'')"
    "tp_max_result_bytes (tool_policy_of (kw_config open_wrapper) ''search'') = 100"
    by (simp_all add: tool_policy_of_def open_wrapper_def)
  have rel: "fst (execute open_wrapper guarded_env guarded_env echo_tool search_call ((), ledger_new)) = Inr \<lparr>to_content = ''r''\<rparr>"
    using c l p by (simp add: execute_def Let_def vet_clear_run search_call_def echo_tool_def split_beta)
  have g: "ve_guard guarded_env = client_check unary_uuids ?cl deployed_channel" by (simp add: guarded_env_def)
  have "list_all (wrote_pass (scripted_api [pass_answer]) ''sys'')
      (guard_requests (kw_guard open_wrapper) (tc_arguments search_call) Outbound (tc_session_id search_call))
    \<and> list_all (wrote_pass (scripted_api [pass_answer]) ''sys'')
      (guard_requests (kw_guard open_wrapper) (to_content \<lparr>to_content = ''r''\<rparr>) Inbound (tc_session_id search_call))
    \<and> fst (echo_tool search_call ()) = Inr \<lparr>to_content = ''r''\<rparr>"
    by (rule release_means_model_wrote_pass [OF deployed_connects unary_uuids_ok g g grammar_json_reads _ rel])
      (rule scripted_sampler)
  then show ?thesis by (simp add: search_call_def)
qed

end
