(* ===== verification/Ctp_Format.thy ===== *)
theory Ctp_Format
  imports Ctp_Float
begin

text \<open>
  What the benchmark client needs of \<open>f64\<close> beyond the ledger: division, \<open>Duration::as_secs_f64\<close>, and
  \<open>{:.k}\<close> formatting with any number of decimals. The two decimals of the messages of the kernel are
  the case \<open>k = 2\<close>.
\<close>

section \<open>Division\<close>

fun f64_div :: "f64 \<Rightarrow> f64 \<Rightarrow> f64" where
  "f64_div (Fin a) (Fin b) = (if b = 0 then inf_of_sgn (f64_sgn (Fin a)) else to_f64 (a / b))"
| "f64_div NaN _ = NaN"
| "f64_div _ NaN = NaN"
| "f64_div (Fin a) _ = Fin 0"
| "f64_div a (Fin b) = (if b < 0 then f64_mul a (Fin (- 1)) else a)"
| "f64_div _ _ = NaN"

text \<open>\<open>Duration::as_secs_f64\<close>: the whole seconds and the rest in nanoseconds are converted on their own.\<close>

definition as_secs_f64 :: "nanos \<Rightarrow> f64" where
  "as_secs_f64 t = f64_add (f64_of_nat (t div 10 ^ 9)) (f64_div (f64_of_nat (t mod 10 ^ 9)) (f64_of_nat (10 ^ 9)))"

section \<open>Formatting\<close>

text \<open>The last \<open>k\<close> decimal digits of a number.\<close>

fun show_frac :: "nat \<Rightarrow> nat \<Rightarrow> string" where
  "show_frac 0 n = []"
| "show_frac (Suc k) n = show_frac k (n div 10) @ [digit_char (n mod 10)]"

definition show_fixed :: "nat \<Rightarrow> nat \<Rightarrow> string" where
  "show_fixed k c = show_nat (c div 10 ^ k) @ (if k = 0 then [] else ''.'' @ show_frac k c)"

text \<open>\<open>{:.k}\<close>: the exact value, rounded half to even at the last decimal printed.\<close>

fun fmt_prec :: "nat \<Rightarrow> f64 \<Rightarrow> string" where
  "fmt_prec k NaN = ''NaN''"
| "fmt_prec k PosInf = ''inf''"
| "fmt_prec k NegInf = ''-inf''"
| "fmt_prec k (Fin x) =
     (if x < 0 then ''-'' @ show_fixed k (nat (rne (- x * 10 ^ k))) else show_fixed k (nat (rne (x * 10 ^ k))))"

lemma fmt_prec_two: "fmt_prec 2 x = fmt2 x"
  by (cases x) (simp_all add: show_fixed_def show_cents_def numeral_2_eq_2)

lemma show_frac_length [simp]: "length (show_frac k n) = k"
  by (induction k arbitrary: n) simp_all

text \<open>What a formatted double is made of.\<close>

definition number_char :: "char \<Rightarrow> bool" where
  "number_char c \<longleftrightarrow> c \<in> set ''0123456789.-NaNinf''"

lemma digit_char_number: "d < 10 \<Longrightarrow> number_char (digit_char d)"
proof -
  assume "d < 10"
  then have "d \<in> set [0, 1, 2, 3, 4, 5, 6, 7, 8, 9]" by auto
  moreover have "list_all (\<lambda>d. number_char (digit_char d)) [0, 1, 2, 3, 4, 5, 6, 7, 8, 9]" by code_simp
  ultimately show ?thesis unfolding list_all_iff by blast
qed

lemma show_nat_number: "list_all number_char (show_nat n)"
proof (induction n rule: show_nat.induct)
  case (1 n)
  then show ?case by (cases "n < 10") (simp_all add: show_nat_step digit_char_number)
qed

lemma show_frac_number: "list_all number_char (show_frac k n)"
  by (induction k arbitrary: n) (simp_all add: digit_char_number)

lemma show_fixed_number: "list_all number_char (show_fixed k n)"
  by (simp add: show_fixed_def show_nat_number show_frac_number number_char_def)

lemma fmt_prec_number: "list_all number_char (fmt_prec k x)"
proof -
  have "list_all number_char ''NaN''" "list_all number_char ''inf''" "list_all number_char ''-inf''" "number_char CHR ''-''"
    by code_simp+
  then show ?thesis by (cases x) (simp_all add: show_fixed_number)
qed

end
