(* ===== verification/Bench_Client.thy ===== *)
theory Bench_Client
  imports Orch_Gateway Ctp_Format
begin

text \<open>
  The benchmark client of the gateway, \<open>ctp-orchestrator/examples/bench_client.rs\<close>: it reads two files
  of payloads, sends each payload through \<open>Evaluate\<close>, prints a table, and writes the results as
  CSV. The server is a function on a state, with the measured latency of each call; the effects on the
  terminal and on the file system are a list, in order, and what a call to the system returns is a
  field of an argument. A terminal that refuses output, and a line that is written in part, are not
  modelled.
\<close>

section \<open>Reading the payloads\<close>

record row =
  row_expected :: string
  row_payload :: string
  row_verdict :: string
  row_layer :: string
  row_latency_ms :: f64

text \<open>\<open>fs::read_to_string\<close> fails where the file cannot be read and where it is not UTF-8.\<close>

definition read_to_string :: "(string \<Rightarrow> string + bytes) \<Rightarrow> string \<Rightarrow> string + uchar list" where
  "read_to_string read path =
     (case read path of
        Inl e \<Rightarrow> Inl e
      | Inr bs \<Rightarrow>
          (case from_utf8 bs of
             None \<Rightarrow> Inl ''stream did not contain valid UTF-8''
           | Some cs \<Rightarrow> Inr cs))"

definition payload_lines :: "uchar list \<Rightarrow> uchar list list" where
  "payload_lines text = filter (\<lambda>l. l \<noteq> [] \<and> hd l \<noteq> 0x23) (map trim_chars (str_lines text))"

definition read_payloads :: "(string \<Rightarrow> string + bytes) \<Rightarrow> string \<Rightarrow> string + string list" where
  "read_payloads read path =
     (case read_to_string read path of
        Inl e \<Rightarrow> Inl e
      | Inr text \<Rightarrow> Inr (map utf8_encode (payload_lines text)))"

section \<open>Sending them\<close>

definition bench_request :: "string \<Rightarrow> evaluate_request" where
  "bench_request payload =
     \<lparr>eq_payload = payload, eq_direction = direction_number DirectionInbound, eq_tool_name = ''bench'',
      eq_session_id = []\<rparr>"

definition bench_verdict :: "evaluate_response \<Rightarrow> string" where
  "bench_verdict resp =
     (case verdict_of_number (er_verdict resp) of
        Some VerdictPass \<Rightarrow> ''PASS''
      | Some VerdictBlock \<Rightarrow> ''BLOCK''
      | _ \<Rightarrow> ''UNKNOWN'')"

definition latency_ms :: "nanos \<Rightarrow> f64" where
  "latency_ms t = f64_mul (as_secs_f64 t) (Fin 1000)"

definition row_of :: "string \<times> string \<Rightarrow> evaluate_response \<Rightarrow> nanos \<Rightarrow> row" where
  "row_of c resp t =
     \<lparr>row_expected = fst c, row_payload = snd c, row_verdict = bench_verdict resp, row_layer = er_layer resp,
      row_latency_ms = latency_ms t\<rparr>"

text \<open>A server: a status or a response, how long it took, and the state it leaves.\<close>

type_synonym 's evaluator = "evaluate_request \<Rightarrow> 's \<Rightarrow> (string + evaluate_response) \<times> nanos \<times> 's"

definition bench_cases :: "string list \<Rightarrow> string list \<Rightarrow> (string \<times> string) list" where
  "bench_cases benign injections = map (Pair ''PASS'') benign @ map (Pair ''BLOCK'') injections"

text \<open>The first call that fails ends the run, and the rows so far are lost.\<close>

fun bench_rows :: "'s evaluator \<Rightarrow> (string \<times> string) list \<Rightarrow> 's \<Rightarrow> (string + row list) \<times> 's" where
  "bench_rows srv [] s = (Inr [], s)"
| "bench_rows srv (c # cs) s =
     (case srv (bench_request (snd c)) s of
        (Inl e, _, s') \<Rightarrow> (Inl e, s')
      | (Inr resp, t, s') \<Rightarrow> apfst (\<lambda>r. and_then r (\<lambda>rows. Inr (row_of c resp t # rows))) (bench_rows srv cs s'))"

section \<open>The report\<close>

text \<open>\<open>truncate\<close>, which is called with 48: at most \<open>n\<close> characters, the last one an ellipsis if some are cut.\<close>

definition truncate_to :: "nat \<Rightarrow> string \<Rightarrow> string" where
  "truncate_to n s =
     (if length (str_chars s) \<le> n then s
      else utf8_encode (take (n - 1) (str_chars s)) @ utf8_encode [0x2026])"

definition row_ok :: "row \<Rightarrow> bool" where
  "row_ok r \<longleftrightarrow> row_verdict r = row_expected r"

definition newline :: string where
  "newline = [CHR 0x0A]"

definition table_row :: "row \<Rightarrow> string" where
  "table_row r =
     ''| '' @ truncate_to 48 (row_payload r) @ '' | '' @ row_expected r @ '' | '' @ row_verdict r @ '' | ''
       @ row_layer r @ '' | '' @ fmt_prec 1 (row_latency_ms r) @ '' | ''
       @ utf8_encode [if row_ok r then 0x2713 else 0x2717] @ '' |''"

definition table_head :: "string list" where
  "table_head = [''| Payload | Expected | Verdict | Layer | Latency (ms) | OK |'', ''|---|---|---|---|---:|:-:|'']"

definition bench_correct :: "row list \<Rightarrow> nat" where
  "bench_correct rows = length (filter row_ok rows)"

definition max_latency :: "row list \<Rightarrow> f64" where
  "max_latency rows = fold (\<lambda>r m. f64_max m (row_latency_ms r)) rows (Fin 0)"

definition mean_latency :: "row list \<Rightarrow> f64" where
  "mean_latency rows =
     (if rows = [] then Fin 0
      else f64_div (fold (\<lambda>r acc. f64_add acc (row_latency_ms r)) rows (Fin 0)) (f64_of_nat (length rows)))"

definition accuracy_line :: "row list \<Rightarrow> string" where
  "accuracy_line rows =
     newline @ ''Accuracy: '' @ show_nat (bench_correct rows) @ ''/'' @ show_nat (length rows)
       @ '' correct. Latency mean '' @ fmt_prec 0 (mean_latency rows) @ '' ms, max '' @ fmt_prec 0 (max_latency rows) @ '' ms.''"

section \<open>The CSV file\<close>

text \<open>\<open>replace('"', "\"\"")\<close>.\<close>

definition csv_escape :: "string \<Rightarrow> string" where
  "csv_escape s = concat (map (\<lambda>c. if c = CHR 0x22 then [c, c] else [c]) s)"

definition csv_head :: string where
  "csv_head = ''expected,verdict,layer,latency_ms,payload''"

definition csv_row :: "row \<Rightarrow> string" where
  "csv_row r =
     row_expected r @ '','' @ row_verdict r @ '','' @ row_layer r @ '','' @ fmt_prec 3 (row_latency_ms r)
       @ '','' @ [CHR 0x22] @ csv_escape (row_payload r) @ [CHR 0x22]"

section \<open>The run\<close>

datatype bench_effect =
    Printed string
  | PrintedErr string
  | CreatedFile string
  | WroteLine string string

datatype bench_exit = Finished | BadUsage | Failed string

record bench_os =
  bo_args :: "string list"
  bo_read :: "string \<Rightarrow> string + bytes"
  bo_connect :: "string \<Rightarrow> string + unit"
  bo_create :: "string \<Rightarrow> string + unit"
  bo_writeln :: "nat \<Rightarrow> string + unit"

fun write_lines :: "(nat \<Rightarrow> string + unit) \<Rightarrow> string \<Rightarrow> nat \<Rightarrow> string list \<Rightarrow> bench_effect list \<times> bench_exit" where
  "write_lines wr path i [] = ([], Finished)"
| "write_lines wr path i (l # ls) =
     (case wr i of
        Inl e \<Rightarrow> ([], Failed e)
      | Inr _ \<Rightarrow> apfst ((#) (WroteLine path l)) (write_lines wr path (Suc i) ls))"

definition write_csv :: "bench_os \<Rightarrow> string \<Rightarrow> row list \<Rightarrow> bench_effect list \<times> bench_exit" where
  "write_csv os path rows =
     (case bo_create os path of
        Inl e \<Rightarrow> ([], Failed e)
      | Inr _ \<Rightarrow>
          (case write_lines (bo_writeln os) path 0 (csv_head # map csv_row rows) of
             (es, Finished) \<Rightarrow> (CreatedFile path # es @ [PrintedErr (''wrote '' @ path)], Finished)
           | (es, x) \<Rightarrow> (CreatedFile path # es, x)))"

definition bench_report :: "bench_os \<Rightarrow> row list \<Rightarrow> bench_effect list \<times> bench_exit" where
  "bench_report os rows =
     apfst ((@) (map Printed (table_head @ map table_row rows @ [accuracy_line rows])))
       (case drop 4 (bo_args os) of
          path # _ \<Rightarrow> write_csv os path rows
        | [] \<Rightarrow> ([], Finished))"

definition bench_main :: "bench_os \<Rightarrow> 's evaluator \<Rightarrow> 's \<Rightarrow> (bench_effect list \<times> bench_exit) \<times> 's" where
  "bench_main os srv s =
     (if length (bo_args os) < 4 then
        (([PrintedErr ''usage: bench_client <addr> <benign_file> <injection_file> [csv_out]''], BadUsage), s)
      else
        case and_then (read_payloads (bo_read os) (bo_args os ! 2)) (\<lambda>benign.
             and_then (read_payloads (bo_read os) (bo_args os ! 3)) (\<lambda>injections.
             and_then (bo_connect os (bo_args os ! 1)) (\<lambda>_. Inr (bench_cases benign injections)))) of
          Inl e \<Rightarrow> (([], Failed e), s)
        | Inr cs \<Rightarrow>
            (case bench_rows srv cs s of
               (Inl e, s') \<Rightarrow> (([], Failed e), s')
             | (Inr rows, s') \<Rightarrow> (bench_report os rows, s')))"

section \<open>The text files\<close>

text \<open>What is sent is neither empty nor a comment, and has no blanks at its ends.\<close>

lemma trim_chars_ends:
  "trim_chars s \<noteq> [] \<Longrightarrow> \<not> is_whitespace (hd (trim_chars s)) \<and> \<not> is_whitespace (last (trim_chars s))"
proof -
  assume ne: "trim_chars s \<noteq> []"
  define m where "m = dropWhile is_whitespace s"
  have t: "trim_chars s = rev (dropWhile is_whitespace (rev m))" by (simp add: trim_chars_def m_def)
  then have r: "dropWhile is_whitespace (rev m) \<noteq> []" using ne by simp
  then have last: "\<not> is_whitespace (last (trim_chars s))"
    using hd_dropWhile [of is_whitespace "rev m"] by (simp add: t last_rev dropWhile_eq_Nil_conv)
  have "m \<noteq> []" using r by auto
  then have hm: "\<not> is_whitespace (hd m)"
    using hd_dropWhile [of is_whitespace s] by (simp add: m_def dropWhile_eq_Nil_conv)
  obtain us where "rev m = us @ dropWhile is_whitespace (rev m)" by (metis takeWhile_dropWhile_id)
  then have "m = trim_chars s @ rev us" by (metis rev_append rev_rev_ident t)
  with ne have "hd m = hd (trim_chars s)" by simp
  with hm last show ?thesis by simp
qed

lemma payload_lines_clean:
  "l \<in> set (payload_lines text) \<Longrightarrow>
    l \<noteq> [] \<and> hd l \<noteq> 0x23 \<and> \<not> is_whitespace (hd l) \<and> \<not> is_whitespace (last l)"
  using trim_chars_ends by (auto simp: payload_lines_def)

section \<open>Reading the CSV file back\<close>

text \<open>
  The reader of CSV as RFC 4180 has it: fields are separated by commas, records end in a line feed, a field may be
  quoted, and inside quotes a quote is doubled.
\<close>

datatype csv_mode = FieldStart | PlainField | QuotedField | QuoteSeen

fun csv_scan :: "csv_mode \<Rightarrow> string \<Rightarrow> string list \<Rightarrow> string \<Rightarrow> string list list option" where
  "csv_scan m f r [] = (if m = FieldStart \<and> r = [] then Some [] else None)"
| "csv_scan QuotedField f r (c # cs) =
     (if c = CHR 0x22 then csv_scan QuoteSeen f r cs else csv_scan QuotedField (f @ [c]) r cs)"
| "csv_scan m f r (c # cs) =
     (if c = CHR '','' then csv_scan FieldStart [] (r @ [f]) cs
      else if c = CHR 0x0A then map_option ((#) (r @ [f])) (csv_scan FieldStart [] [] cs)
      else if c = CHR 0x22 then
        (case m of
           FieldStart \<Rightarrow> csv_scan QuotedField f r cs
         | QuoteSeen \<Rightarrow> csv_scan QuotedField (f @ [c]) r cs
         | _ \<Rightarrow> None)
      else if m = QuoteSeen then None
      else csv_scan PlainField (f @ [c]) r cs)"

definition csv_read :: "string \<Rightarrow> string list list option" where
  "csv_read s = csv_scan FieldStart [] [] s"

definition csv_fields :: "row \<Rightarrow> string list" where
  "csv_fields r = [row_expected r, row_verdict r, row_layer r, fmt_prec 3 (row_latency_ms r), row_payload r]"

definition csv_text :: "row list \<Rightarrow> string" where
  "csv_text rows = concat (map (\<lambda>l. l @ newline) (csv_head # map csv_row rows))"

definition csv_plain :: "string \<Rightarrow> bool" where
  "csv_plain s \<longleftrightarrow> list_all (\<lambda>c. c \<notin> set [CHR '','', CHR 0x22, CHR 0x0A]) s"

lemma csv_scan_plain:
  "csv_plain s \<Longrightarrow> m \<in> {FieldStart, PlainField} \<Longrightarrow>
    csv_scan m f r (s @ CHR '','' # cs) = csv_scan FieldStart [] (r @ [f @ s]) cs"
  by (induction s arbitrary: m f) (auto simp: csv_plain_def)

lemma csv_scan_plain_end:
  "csv_plain s \<Longrightarrow> m \<in> {FieldStart, PlainField} \<Longrightarrow>
    csv_scan m f r (s @ CHR 0x0A # cs) = map_option ((#) (r @ [f @ s])) (csv_scan FieldStart [] [] cs)"
  by (induction s arbitrary: m f) (auto simp: csv_plain_def)

text \<open>Whatever a quoted payload contains, it is read back as it is.\<close>

lemma csv_scan_quoted:
  "csv_scan QuotedField f r (csv_escape s @ CHR 0x22 # CHR 0x0A # cs) =
    map_option ((#) (r @ [f @ s])) (csv_scan FieldStart [] [] cs)"
  by (induction s arbitrary: f) (auto simp: csv_escape_def)

lemma number_plain: "list_all number_char s \<Longrightarrow> csv_plain s"
  by (induction s) (auto simp: csv_plain_def number_char_def)

definition row_plain :: "row \<Rightarrow> bool" where
  "row_plain r \<longleftrightarrow> csv_plain (row_expected r) \<and> csv_plain (row_verdict r) \<and> csv_plain (row_layer r)"

lemma csv_scan_row:
  assumes "row_plain r"
  shows "csv_scan FieldStart [] [] (csv_row r @ newline @ cs) = map_option ((#) (csv_fields r)) (csv_scan FieldStart [] [] cs)"
  using assms number_plain [OF fmt_prec_number]
  by (simp add: csv_row_def newline_def row_plain_def csv_scan_plain csv_scan_quoted csv_fields_def)

lemma csv_scan_rows:
  "list_all row_plain rows \<Longrightarrow> csv_scan FieldStart [] [] (concat (map (\<lambda>r. csv_row r @ newline) rows)) = Some (map csv_fields rows)"
  by (induction rows) (simp_all add: csv_scan_row)

lemma csv_head_read:
  "csv_scan FieldStart [] [] (csv_head @ newline @ cs) =
    map_option ((#) [''expected'', ''verdict'', ''layer'', ''latency_ms'', ''payload'']) (csv_scan FieldStart [] [] cs)"
  by (simp add: csv_head_def newline_def)

lemma csv_roundtrip:
  "list_all row_plain rows \<Longrightarrow>
    csv_read (csv_text rows) = Some ([''expected'', ''verdict'', ''layer'', ''latency_ms'', ''payload''] # map csv_fields rows)"
  by (simp add: csv_read_def csv_text_def csv_head_read csv_scan_rows comp_def)

end
