(* ===== verification/Bench_Gateway.thy ===== *)
theory Bench_Gateway
  imports Bench_Client
begin

text \<open>
  The benchmark client run against the gateway: every request comes without a session, so each
  evaluation has a session of its own, and what is measured for a payload does not depend on the
  payloads sent before it.
\<close>

section \<open>Sessions do not see each other's turns\<close>

lemma outcome_own_session:
  "Kernel_Ledger.session_of l sid = Kernel_Ledger.session_of l' sid \<Longrightarrow>
    fst (record_turn p sid n l) = fst (record_turn p sid n l')"
  by (simp add: record_turn_outcome)

lemma record_turn_untracked:
  assumes "Kernel_Ledger.session_of l sid' = None" "sid' \<noteq> sid"
  shows "Kernel_Ledger.session_of (snd (record_turn p sid n l)) sid' = None"
proof -
  have "map_of (evict p sid (l_sessions l)) sid' = None"
    using assms(1) evict_subset [of p sid "l_sessions l"]
    by (auto simp: Kernel_Ledger.session_of_def map_of_eq_None_iff)
  then show ?thesis
    using assms(2) by (simp add: record_turn_def Kernel_Ledger.session_of_def Let_def map_of_update_eq)
qed

lemma evaluate_own_session:
  assumes "Kernel_Ledger.session_of l sid = Kernel_Ledger.session_of l' sid"
  shows "fst (evaluate orc env b dir tool sid l) = fst (evaluate orc env b dir tool sid l')"
proof -
  have o: "fst (record_turn (or_ledger_params orc) sid n l) = fst (record_turn (or_ledger_params orc) sid n l')" for n
    by (rule outcome_own_session [OF assms])
  show ?thesis
    unfolding evaluate_def Let_def by (simp add: o split_beta split: sum.split)
qed

lemma evaluate_untracked:
  assumes "Kernel_Ledger.session_of l sid' = None" "sid' \<noteq> sid"
  shows "Kernel_Ledger.session_of (snd (evaluate orc env b dir tool sid l)) sid' = None"
  using evaluation_accounting [of orc env b dir tool sid l] assms record_turn_untracked [OF assms]
  by (auto split: if_splits)

section \<open>The gateway as the server of the benchmark\<close>

text \<open>The state is the ledger and the number of the call; the identifier of the session the gateway makes up for a
  call, what the environment decides in it, and its latency are functions of that number.\<close>

definition gateway_server ::
  "wire_api \<Rightarrow> orchestrator \<Rightarrow> (nat \<Rightarrow> uuid) \<Rightarrow> (nat \<Rightarrow> eval_env) \<Rightarrow> (nat \<Rightarrow> nanos) \<Rightarrow> (ledger \<times> nat) evaluator" where
  "gateway_server ua orc fresh env lat rq st =
     (case st of (l, i) \<Rightarrow>
        (case gateway_evaluate ua orc (fresh i) (env i) rq l of
           ((resp, _), l') \<Rightarrow> (Inr resp, lat i, (l', Suc i))))"

abbreviation bench_evaluate ::
  "orchestrator \<Rightarrow> eval_env \<Rightarrow> string \<Rightarrow> uuid \<Rightarrow> ledger \<Rightarrow> (decision \<times> metric list) \<times> ledger" where
  "bench_evaluate orc env b sid l \<equiv> evaluate orc env b Inbound (Some ''bench'') sid l"

lemma gateway_on_bench_request:
  "gateway_evaluate ua orc fresh env (bench_request b) l =
    (let ((d, ms), l') = bench_evaluate orc env b fresh l in ((to_proto_response ua d fresh, ms), l'))"
  by (simp add: gateway_evaluate_def bench_request_def Orch_Gateway.session_of_def direction_of_cases Let_def)

lemma gateway_server_run:
  "gateway_server ua orc fresh env lat (bench_request b) (l, i) =
    (Inr (to_proto_response ua (fst (fst (bench_evaluate orc (env i) b (fresh i) l))) (fresh i)), lat i,
     (snd (bench_evaluate orc (env i) b (fresh i) l), Suc i))"
  by (simp add: gateway_server_def gateway_on_bench_request Let_def split_beta)

text \<open>The row of the \<open>i\<close>-th payload, evaluated by a gateway that has seen nothing else.\<close>

definition lone_row ::
  "wire_api \<Rightarrow> orchestrator \<Rightarrow> (nat \<Rightarrow> uuid) \<Rightarrow> (nat \<Rightarrow> eval_env) \<Rightarrow> (nat \<Rightarrow> nanos) \<Rightarrow> nat \<Rightarrow> string \<times> string \<Rightarrow> row" where
  "lone_row ua orc fresh env lat i c =
     row_of c (fst (fst (gateway_evaluate ua orc (fresh i) (env i) (bench_request (snd c)) ledger_new))) (lat i)"

lemma bench_rows_from:
  assumes "inj_on fresh {k..<k + length cs}" "\<And>i. k \<le> i \<Longrightarrow> i < k + length cs \<Longrightarrow> Kernel_Ledger.session_of l (fresh i) = None"
  shows "fst (bench_rows (gateway_server ua orc fresh env lat) cs (l, k)) =
    Inr (map2 (lone_row ua orc fresh env lat) [k..<k + length cs] cs)"
  using assms
proof (induction cs arbitrary: k l)
  case (Cons c cs)
  let ?l' = "snd (bench_evaluate orc (env k) (snd c) (fresh k) l)"
  have "Kernel_Ledger.session_of l (fresh k) = Kernel_Ledger.session_of ledger_new (fresh k)"
    using Cons.prems(2) [of k] by (simp add: session_of_new)
  then have "fst (bench_evaluate orc (env k) (snd c) (fresh k) l) = fst (bench_evaluate orc (env k) (snd c) (fresh k) ledger_new)"
    by (rule evaluate_own_session)
  then have row: "row_of c (to_proto_response ua (fst (fst (bench_evaluate orc (env k) (snd c) (fresh k) l))) (fresh k)) (lat k) =
      lone_row ua orc fresh env lat k c"
    by (simp add: lone_row_def gateway_on_bench_request Let_def split_beta)
  have "Kernel_Ledger.session_of ?l' (fresh i) = None" if "Suc k \<le> i" "i < Suc k + length cs" for i
  proof (rule evaluate_untracked)
    show "Kernel_Ledger.session_of l (fresh i) = None" using that by (intro Cons.prems(2)) simp_all
    show "fresh i \<noteq> fresh k" using that inj_onD [OF Cons.prems(1), of i k] by auto
  qed
  then have IH: "fst (bench_rows (gateway_server ua orc fresh env lat) cs (?l', Suc k)) =
      Inr (map2 (lone_row ua orc fresh env lat) [Suc k..<Suc k + length cs] cs)"
    using inj_on_subset [OF Cons.prems(1), of "{Suc k..<Suc k + length cs}"] by (intro Cons.IH) auto
  have "[k..<k + length (c # cs)] = k # [Suc k..<Suc k + length cs]"
    by (simp add: upt_conv_Cons del: upt_Suc)
  then show ?case using IH by (simp add: gateway_server_run row)
qed simp

text \<open>A run over the gateway always ends with a row per payload.\<close>

lemma bench_rows_gateway:
  "\<exists>rows. fst (bench_rows (gateway_server ua orc fresh env lat) cs st) = Inr rows
    \<and> map row_payload rows = map snd cs \<and> map row_expected rows = map fst cs
    \<and> (\<forall>r \<in> set rows. row_verdict r \<in> {''PASS'', ''BLOCK''} \<and> (\<exists>ly. row_layer r = show_layer ly))"
proof (induction cs arbitrary: st)
  case (Cons c cs)
  obtain l i where st: "st = (l, i)" by (cases st)
  let ?d = "fst (fst (bench_evaluate orc (env i) (snd c) (fresh i) l))"
  let ?r = "row_of c (to_proto_response ua ?d (fresh i)) (lat i)"
  obtain rows where rows: "fst (bench_rows (gateway_server ua orc fresh env lat) cs
      (snd (bench_evaluate orc (env i) (snd c) (fresh i) l), Suc i)) = Inr rows"
    "map row_payload rows = map snd cs" "map row_expected rows = map fst cs"
    "\<forall>r \<in> set rows. row_verdict r \<in> {''PASS'', ''BLOCK''} \<and> (\<exists>ly. row_layer r = show_layer ly)"
    using Cons.IH by blast
  have "row_verdict ?r \<in> {''PASS'', ''BLOCK''}"
    by (cases "d_verdict ?d") (simp_all add: row_of_def bench_verdict_def to_proto_response_def verdict_of_number_simps)
  moreover have "row_layer ?r = show_layer (d_layer ?d)" "row_payload ?r = snd c" "row_expected ?r = fst c"
    by (simp_all add: row_of_def to_proto_response_def)
  moreover have "fst (bench_rows (gateway_server ua orc fresh env lat) (c # cs) st) = Inr (?r # rows)"
    by (simp add: st gateway_server_run rows(1))
  ultimately show ?case using rows(2-) by (intro exI [of _ "?r # rows"]) auto
qed simp

lemma lone_row_fields:
  "row_payload (lone_row ua orc fresh env lat i c) = snd c"
  "row_expected (lone_row ua orc fresh env lat i c) = fst c"
  "row_verdict (lone_row ua orc fresh env lat i c) =
    (if d_verdict (fst (fst (bench_evaluate orc (env i) (snd c) (fresh i) ledger_new))) = Pass then ''PASS'' else ''BLOCK'')"
  "row_layer (lone_row ua orc fresh env lat i c) =
    show_layer (d_layer (fst (fst (bench_evaluate orc (env i) (snd c) (fresh i) ledger_new))))"
proof -
  let ?d = "fst (fst (bench_evaluate orc (env i) (snd c) (fresh i) ledger_new))"
  have "bench_verdict (to_proto_response ua d sid) = (if d_verdict d = Pass then ''PASS'' else ''BLOCK'')" for d sid
    by (cases "d_verdict d") (simp_all add: bench_verdict_def to_proto_response_def verdict_of_number_simps)
  then show "row_verdict (lone_row ua orc fresh env lat i c) = (if d_verdict ?d = Pass then ''PASS'' else ''BLOCK'')"
    by (simp add: lone_row_def row_of_def gateway_on_bench_request Let_def split_beta)
qed (simp_all add: lone_row_def row_of_def gateway_on_bench_request Let_def split_beta to_proto_response_def)

lemma lone_row_ok:
  assumes "fst c \<in> {''PASS'', ''BLOCK''}"
  shows "row_ok (lone_row ua orc fresh env lat i c) \<longleftrightarrow>
    (d_verdict (fst (fst (bench_evaluate orc (env i) (snd c) (fresh i) ledger_new))) = Pass) = (fst c = ''PASS'')"
  using assms by (auto simp: row_ok_def lone_row_fields)

section \<open>What a benchmark shows\<close>

lemma bench_cases_expected: "c \<in> set (bench_cases benign injections) \<Longrightarrow> fst c \<in> {''PASS'', ''BLOCK''}"
  by (auto simp: bench_cases_def)

lemma bench_case_nth:
  "i < length benign + length injections \<Longrightarrow>
    bench_cases benign injections ! i = (if i < length benign then ''PASS'' else ''BLOCK'', (benign @ injections) ! i)"
  by (auto simp: bench_cases_def nth_append)

text \<open>C38: A benchmark measures the gateway on each payload alone. Run against a gateway whose made-up sessions are
  all different and not yet in its ledger, it ends with one row per payload, the lines of the benign file first and
  then those of the other. The row of a payload names that payload, expects PASS for the benign ones and BLOCK for the
  others, reports the verdict and the layer that the pipeline gives when it evaluates that payload (inbound, for the tool
  bench) with an empty ledger, and counts as correct exactly when that pipeline passes it and it
  is benign, or blocks it and it is not.\<close>
theorem bench_measures_payload_alone:
  assumes "inj_on fresh {..<length benign + length injections}"
    and "\<And>i. i < length benign + length injections \<Longrightarrow> Kernel_Ledger.session_of l (fresh i) = None"
  shows "\<exists>rows. fst (bench_rows (gateway_server ua orc fresh env lat) (bench_cases benign injections) (l, 0)) = Inr rows
    \<and> length rows = length benign + length injections
    \<and> (\<forall>i < length benign + length injections.
        row_payload (rows ! i) = (benign @ injections) ! i
        \<and> row_expected (rows ! i) = (if i < length benign then ''PASS'' else ''BLOCK'')
        \<and> row_verdict (rows ! i) = (if d_verdict (fst (fst (evaluate orc (env i) ((benign @ injections) ! i) Inbound
              (Some ''bench'') (fresh i) ledger_new))) = Pass then ''PASS'' else ''BLOCK'')
        \<and> row_layer (rows ! i) = show_layer (d_layer (fst (fst (evaluate orc (env i) ((benign @ injections) ! i) Inbound
              (Some ''bench'') (fresh i) ledger_new))))
        \<and> (row_ok (rows ! i) \<longleftrightarrow> (d_verdict (fst (fst (evaluate orc (env i) ((benign @ injections) ! i) Inbound
              (Some ''bench'') (fresh i) ledger_new))) = Pass) = (i < length benign)))"
proof -
  define cs where "cs = bench_cases benign injections"
  have n: "length cs = length benign + length injections" by (simp add: cs_def bench_cases_def)
  let ?rows = "map2 (lone_row ua orc fresh env lat) [0..<length cs] cs"
  have "fst (bench_rows (gateway_server ua orc fresh env lat) cs (l, 0)) =
      Inr (map2 (lone_row ua orc fresh env lat) [0..<0 + length cs] cs)"
  proof (rule bench_rows_from)
    show "inj_on fresh {0..<0 + length cs}" using assms(1) by (simp add: n lessThan_atLeast0)
    show "Kernel_Ledger.session_of l (fresh i) = None" if "0 \<le> i" "i < 0 + length cs" for i
      using assms(2) that by (simp add: n)
  qed
  moreover have r: "?rows ! i = lone_row ua orc fresh env lat i
      (if i < length benign then ''PASS'' else ''BLOCK'', (benign @ injections) ! i)" if "i < length cs" for i
  proof -
    have "?rows ! i = lone_row ua orc fresh env lat i (cs ! i)" using that by simp
    then show ?thesis unfolding cs_def using that by (simp only: bench_case_nth n)
  qed
  ultimately show ?thesis
    by (intro exI [of _ ?rows]) (auto simp: n r lone_row_fields lone_row_ok simp flip: cs_def)
qed

lemma bench_measures_payload_alone_witness:
  "\<exists>rows. fst (bench_rows (gateway_server unary_uuids small_orchestrator (\<lambda>_. 7) (\<lambda>_. small_env) (\<lambda>_. 5))
      (bench_cases [''hello''] []) (ledger_new, 0)) = Inr rows \<and> length rows = 1
    \<and> row_expected (rows ! 0) = ''PASS'' \<and> row_verdict (rows ! 0) = ''PASS'' \<and> row_ok (rows ! 0)"
proof -
  have p: "d_verdict (fst (fst (bench_evaluate small_orchestrator small_env ''hello'' 7 ledger_new))) = Pass"
    using small_passes unfolding evaluate_verdict by simp
  have "inj_on (\<lambda>_. 7 :: uuid) {..<length [''hello''] + length ([] :: string list)}" by (auto simp: inj_on_def)
  from bench_measures_payload_alone [OF this, of ledger_new unary_uuids small_orchestrator "\<lambda>_. small_env" "\<lambda>_. 5"]
  obtain rows where r: "fst (bench_rows (gateway_server unary_uuids small_orchestrator (\<lambda>_. 7) (\<lambda>_. small_env) (\<lambda>_. 5))
      (bench_cases [''hello''] []) (ledger_new, 0)) = Inr rows" "length rows = 1"
    "row_expected (rows ! 0) = ''PASS''" "row_verdict (rows ! 0) = ''PASS''" "row_ok (rows ! 0)"
    by (auto simp: session_of_new p simp del: bench_rows.simps)
  then show ?thesis by blast
qed

section \<open>The results file\<close>

text \<open>The text written to a file.\<close>

fun written :: "string \<Rightarrow> bench_effect list \<Rightarrow> string" where
  "written p [] = []"
| "written p (WroteLine q l # es) = (if q = p then l @ newline else []) @ written p es"
| "written p (_ # es) = written p es"

lemma written_append [simp]: "written p (es @ es') = written p es @ written p es'"
  by (induction p es rule: written.induct) simp_all

lemma written_printed [simp]: "written p (map Printed ls) = []"
  by (induction ls) simp_all

lemma write_lines_written:
  "snd (write_lines wr path i ls) = Finished \<Longrightarrow> written path (fst (write_lines wr path i ls)) = concat (map (\<lambda>l. l @ newline) ls)"
  by (induction wr path i ls rule: write_lines.induct) (auto split: sum.splits)

lemma write_csv_written:
  assumes "snd (write_csv os path rows) = Finished"
  shows "written path (fst (write_csv os path rows)) = csv_text rows"
proof -
  obtain es x where w: "write_lines (bo_writeln os) path 0 (csv_head # map csv_row rows) = (es, x)" by fastforce
  have "snd (write_lines (bo_writeln os) path 0 (csv_head # map csv_row rows)) = Finished"
    using assms w by (simp add: write_csv_def del: write_lines.simps split: sum.splits bench_exit.splits)
  then have "x = Finished" "written path es = csv_text rows"
    using write_lines_written [of "bo_writeln os" path 0 "csv_head # map csv_row rows"] w by (simp_all add: csv_text_def del: write_lines.simps)
  then show ?thesis
    using assms w by (simp add: write_csv_def del: write_lines.simps split: sum.splits)
qed

lemma bench_report_written:
  assumes "bench_report os rows = (es, Finished)" "drop 4 (bo_args os) = path # rest"
  shows "snd (write_csv os path rows) = Finished" "written path es = written path (fst (write_csv os path rows))"
proof -
  obtain es' x where w: "write_csv os path rows = (es', x)" by fastforce
  define out where "out = table_head @ map table_row rows @ [accuracy_line rows]"
  have "bench_report os rows = (map Printed out @ es', x)"
    by (simp only: bench_report_def assms(2) list.case w apfst_conv out_def)
  then show "snd (write_csv os path rows) = Finished" "written path es = written path (fst (write_csv os path rows))"
    using assms(1) w by auto
qed

lemma bench_main_finished:
  assumes "bench_main os srv s = ((es, Finished), s')"
  obtains benign injections rows where "read_payloads (bo_read os) (bo_args os ! 2) = Inr benign"
    "read_payloads (bo_read os) (bo_args os ! 3) = Inr injections"
    "bench_rows srv (bench_cases benign injections) s = (Inr rows, s')" "bench_report os rows = (es, Finished)"
  using assms
  by (auto simp: bench_main_def and_then_Inr_iff split: if_splits sum.splits prod.splits)

lemma map_snd_cases: "map snd (bench_cases benign injections) = benign @ injections"
  by (simp add: bench_cases_def comp_def)

lemma gateway_rows_plain:
  assumes "fst (bench_rows (gateway_server ua orc fresh env lat) (bench_cases benign injections) st) = Inr rows"
  shows "list_all row_plain rows" "map row_payload rows = benign @ injections"
proof -
  have r: "map row_payload rows = map snd (bench_cases benign injections)"
    "map row_expected rows = map fst (bench_cases benign injections)"
    "\<forall>r \<in> set rows. row_verdict r \<in> {''PASS'', ''BLOCK''} \<and> (\<exists>ly. row_layer r = show_layer ly)"
    using bench_rows_gateway [of ua orc fresh env lat "bench_cases benign injections" st] assms by auto
  show "map row_payload rows = benign @ injections" using r(1) by (simp add: map_snd_cases)
  have p: "csv_plain ''PASS''" "csv_plain ''BLOCK''" by code_simp+
  have "list_all (\<lambda>ly. csv_plain (show_layer ly)) [Challenge, Guard, Kernel, Orchestrator]" by code_simp
  then have ly: "csv_plain (show_layer ly)" for ly by (cases ly) simp_all
  have "row_plain r" if "r \<in> set rows" for r
  proof -
    have "row_expected r \<in> fst ` set (bench_cases benign injections)"
      using imageI [OF that, of row_expected] r(2) by (metis set_map)
    then obtain c where "c \<in> set (bench_cases benign injections)" "row_expected r = fst c" by blast
    then have "row_expected r \<in> {''PASS'', ''BLOCK''}" using bench_cases_expected by metis
    moreover have "row_verdict r \<in> {''PASS'', ''BLOCK''}" "\<exists>ly. row_layer r = show_layer ly" using r(3) that by blast+
    ultimately show ?thesis unfolding row_plain_def using p ly by (metis empty_iff insert_iff)
  qed
  then show "list_all row_plain rows" by (simp add: list_all_iff)
qed

text \<open>C39: The results file reads back: whenever a run of the benchmark against the gateway finishes with a file to
  write, what it wrote, read as CSV, is the header and one record of five fields per payload, in the order of the
  two input files; the last field is the payload that was sent, byte for byte, whatever quotes and commas it contains.\<close>
theorem bench_results_read_back:
  assumes "bench_main os (gateway_server ua orc fresh env lat) st = ((es, Finished), st')"
    and "drop 4 (bo_args os) = path # rest"
  shows "\<exists>benign injections rows. read_payloads (bo_read os) (bo_args os ! 2) = Inr benign
    \<and> read_payloads (bo_read os) (bo_args os ! 3) = Inr injections
    \<and> csv_read (written path es) = Some ([''expected'', ''verdict'', ''layer'', ''latency_ms'', ''payload''] # map csv_fields rows)
    \<and> map (\<lambda>r. csv_fields r ! 4) rows = benign @ injections"
proof -
  obtain benign injections rows where r: "read_payloads (bo_read os) (bo_args os ! 2) = Inr benign"
    "read_payloads (bo_read os) (bo_args os ! 3) = Inr injections"
    "bench_rows (gateway_server ua orc fresh env lat) (bench_cases benign injections) st = (Inr rows, st')"
    "bench_report os rows = (es, Finished)"
    using assms(1) by (rule bench_main_finished)
  have "snd (write_csv os path rows) = Finished" "written path es = written path (fst (write_csv os path rows))"
    by (rule bench_report_written [OF r(4) assms(2)])+
  then have w: "written path es = csv_text rows" using write_csv_written by simp
  have g: "fst (bench_rows (gateway_server ua orc fresh env lat) (bench_cases benign injections) st) = Inr rows"
    by (simp only: r(3) fst_conv)
  have p: "map (\<lambda>r. csv_fields r ! 4) rows = map row_payload rows" by (simp add: csv_fields_def)
  show ?thesis
    by (intro exI conjI, rule r(1), rule r(2), unfold w, rule csv_roundtrip [OF gateway_rows_plain(1) [OF g]],
      unfold p, rule gateway_rows_plain(2) [OF g])
qed

text \<open>Against the gateway, a run whose files can be read and written finishes.\<close>

lemma write_lines_finishes: "(\<And>i. wr i = Inr ()) \<Longrightarrow> snd (write_lines wr path i ls) = Finished"
  by (induction ls arbitrary: i) simp_all

lemma write_csv_finishes:
  assumes "bo_create os path = Inr ()" "\<And>i. bo_writeln os i = Inr ()"
  shows "snd (write_csv os path rows) = Finished"
proof -
  obtain es x where w: "write_lines (bo_writeln os) path 0 (csv_head # map csv_row rows) = (es, x)" by fastforce
  then have "x = Finished" using write_lines_finishes [of "bo_writeln os"] assms(2) by (metis snd_conv)
  with w assms(1) show ?thesis by (simp add: write_csv_def del: write_lines.simps)
qed

lemma bench_finishes:
  assumes "4 \<le> length (bo_args os)" "bo_connect os (bo_args os ! 1) = Inr ()" "\<And>p. bo_create os p = Inr ()" "\<And>i. bo_writeln os i = Inr ()"
    and "read_payloads (bo_read os) (bo_args os ! 2) = Inr benign" "read_payloads (bo_read os) (bo_args os ! 3) = Inr injections"
  shows "\<exists>es st'. bench_main os (gateway_server ua orc fresh env lat) st = ((es, Finished), st')"
proof -
  obtain rows st' where r: "bench_rows (gateway_server ua orc fresh env lat) (bench_cases benign injections) st = (Inr rows, st')"
    using bench_rows_gateway [of ua orc fresh env lat "bench_cases benign injections" st] by (metis prod.collapse)
  have "snd (bench_report os rows) = Finished"
    using write_csv_finishes assms(3,4) unfolding bench_report_def by (simp split: list.split)
  moreover have "bench_main os (gateway_server ua orc fresh env lat) st = (bench_report os rows, st')"
    using assms(1,2,5,6) r by (simp add: bench_main_def)
  ultimately show ?thesis by (metis prod.collapse)
qed

definition demo_os :: bench_os where
  "demo_os = \<lparr>bo_args = [''bench_client'', ''http://gateway'', ''benign.txt'', ''injections.txt'', ''out.csv''],
     bo_read = (\<lambda>p. if p = ''benign.txt'' then Inr (''say '' @ [CHR 0x22] @ ''hi, all'' @ [CHR 0x22, CHR 0x0D, CHR 0x0A])
                    else if p = ''injections.txt'' then Inr (''# none yet'' @ [CHR 0x0A, CHR 0x0A]) else Inl ''not found''),
     bo_connect = (\<lambda>_. Inr ()), bo_create = (\<lambda>_. Inr ()), bo_writeln = (\<lambda>_. Inr ())\<rparr>"

lemma demo_reads:
  "read_payloads (bo_read demo_os) (bo_args demo_os ! 2) = Inr [''say '' @ [CHR 0x22] @ ''hi, all'' @ [CHR 0x22]]"
  "read_payloads (bo_read demo_os) (bo_args demo_os ! 3) = Inr []"
  by code_simp+

lemma bench_results_read_back_witness:
  "\<exists>es st' rows. bench_main demo_os (gateway_server unary_uuids small_orchestrator of_nat (\<lambda>_. small_env) (\<lambda>_. 5)) (ledger_new, 0)
      = ((es, Finished), st')
    \<and> csv_read (written ''out.csv'' es) = Some ([''expected'', ''verdict'', ''layer'', ''latency_ms'', ''payload''] # map csv_fields rows)
    \<and> map (\<lambda>r. csv_fields r ! 4) rows = [''say '' @ [CHR 0x22] @ ''hi, all'' @ [CHR 0x22]]"
proof -
  have os: "4 \<le> length (bo_args demo_os)" "bo_connect demo_os (bo_args demo_os ! 1) = Inr ()" "drop 4 (bo_args demo_os) = [''out.csv'']"
    "\<And>p. bo_create demo_os p = Inr ()" "\<And>i. bo_writeln demo_os i = Inr ()"
    by (simp_all add: demo_os_def)
  obtain es st' where m: "bench_main demo_os (gateway_server unary_uuids small_orchestrator of_nat (\<lambda>_. small_env) (\<lambda>_. 5)) (ledger_new, 0)
      = ((es, Finished), st')"
    using bench_finishes [OF os(1,2,4,5) demo_reads] by blast
  obtain benign injections rows where
    "Inr [''say '' @ [CHR 0x22] @ ''hi, all'' @ [CHR 0x22]] = (Inr benign :: string + string list)" "(Inr [] :: string + string list) = Inr injections"
    "csv_read (written ''out.csv'' es) = Some ([''expected'', ''verdict'', ''layer'', ''latency_ms'', ''payload''] # map csv_fields rows)"
    "map (\<lambda>r. csv_fields r ! 4) rows = benign @ injections"
    using bench_results_read_back [OF m os(3)] unfolding demo_reads by blast
  then show ?thesis by (intro exI [of _ es] exI [of _ st'] exI [of _ rows] conjI m) simp_all
qed

section \<open>The table\<close>

text \<open>A cell of the table is not escaped: a payload with a bar in it gives a row with more cells than the head.\<close>

definition table_cells :: "string \<Rightarrow> nat" where
  "table_cells l = length (filter (\<lambda>c. c = CHR ''|'') l) - 1"

lemma bar_shifts_cells:
  "table_cells (hd table_head) = 6"
  "table_cells (table_row \<lparr>row_expected = ''BLOCK'', row_payload = ''cat x | sh'', row_verdict = ''BLOCK'', row_layer = ''guard'', row_latency_ms = Fin 3\<rparr>) = 7"
  by code_simp+

end
