(* ===== verification/Replay_Kernel.thy ===== *)
theory Replay_Kernel
  imports Kernel_Wrapper Guard_Parse
begin

text \<open>
  The unit tests of \<open>ctp-kernel\<close> (the \<open>tests\<close> modules of \<open>ledger.rs\<close> and \<open>lib.rs\<close>) run against
  the model: each test is a bool-valued definition, the conjunction of its assertions over the
  model's operations, and a lemma that it holds. The fresh session identifiers are parameters. A
  test of the ledger is a list of calls; its loops are \<open>replicate\<close>d calls. The order in which the
  windows of a fan-out return is a parameter too. Left out is what a test says of the wall clock.
\<close>

section \<open>The ledger\<close>

definition test_params :: ledger_params where
  "test_params = \<lparr>lp_decay = Fin (1 / 2), lp_floor = Fin (1 / 2), lp_flag_weight = Fin 1,
     lp_threshold = to_f64 (12 / 10), lp_max_sessions = 1000\<rparr>"

text \<open>The outcome of one more call on a ledger that has seen the given ones.\<close>

definition after_calls :: "ledger_params \<Rightarrow> call list \<Rightarrow> uuid \<Rightarrow> nat \<Rightarrow> ledger_outcome" where
  "after_calls p cs sid n = fst (record_turn p sid n (record_all p cs ledger_new))"

lemma after_calls_own:
  assumes "length cs < 2 ^ 64" "set cs \<subseteq> {sid} \<times> UNIV" "0 < lp_max_sessions p"
  shows "after_calls p cs sid n = spec_outcome p (map snd cs @ [n])"
proof -
  have "fst ` set cs \<subseteq> {sid}" using assms(2) by auto
  then have "card (fst ` set cs) \<le> 1"
    using card_mono [of "{sid}" "fst ` set cs"] by simp
  then have "card (fst ` set cs) \<le> lp_max_sessions p" using assms(3) by linarith
  moreover have "own_flags sid cs = map snd cs"
    using assms(2) by (induction cs) (auto simp: own_flags_def)
  ultimately show ?thesis
    unfolding after_calls_def by (simp add: record_outcome_history [OF assms(1)])
qed

lemma test_params_ok: "params_ok test_params"
  by (simp add: params_ok_def test_params_def f64_zero_def) code_simp

lemma test_params_room [simp]: "lp_max_sessions test_params = 1000"
  by (simp add: test_params_def)

definition test_benign_session :: "uuid \<Rightarrow> bool" where
  "test_benign_session sid =
     list_all (\<lambda>i. let out = after_calls test_params (replicate i (sid, 0)) sid 0 in
         lo_score out = f64_zero \<and> \<not> lo_blocked out) [0..<100]"

lemma benign_session_holds: "test_benign_session sid"
proof -
  have "after_calls test_params (replicate i (sid, 0)) sid 0 = \<lparr>lo_score = f64_zero, lo_blocked = False\<rparr>"
    if "i < 100" for i
  proof -
    have "after_calls test_params (replicate i (sid, 0)) sid 0 = spec_outcome test_params (replicate i 0 @ [0])"
      using that by (subst after_calls_own) auto
    then show ?thesis
      using benign_session_never_blocked [OF test_params_ok, of "replicate i 0 @ [0]"]
      by (simp add: set_replicate_conv_if)
  qed
  then show ?thesis by (simp add: test_benign_session_def list_all_iff)
qed

definition floorless_params :: ledger_params where
  "floorless_params = test_params\<lparr>lp_floor := Fin 0\<rparr>"

definition test_floor :: "uuid \<Rightarrow> bool" where
  "test_floor sid =
     (let quiet = \<lambda>k. (sid, 1) # replicate k (sid, 0);
          held = after_calls test_params (quiet 50) sid 0;
          decayed = after_calls floorless_params (quiet 50) sid 0;
          blocked = after_calls test_params (quiet 51) sid 1;
          bypassed = after_calls floorless_params (quiet 51) sid 1
      in lo_score (after_calls test_params [] sid 1) = Fin 1
         \<and> lo_score (after_calls floorless_params [] sid 1) = Fin 1
         \<and> lo_score held = Fin (1 / 2)
         \<and> f64_lt (lo_score decayed) (to_f64 (1 / 1000000))
         \<and> lo_blocked blocked \<and> \<not> lo_blocked bypassed)"

lemma spec_history_quiet: "spec_history p (1 # replicate k 0) = (spec_turn p 0 ^^ k) (spec_turn p 1 (f64_zero, False))"
proof (induction k)
  case (Suc k)
  have "spec_history p (1 # replicate (Suc k) 0) = spec_history p ((1 # replicate k 0) @ [0])"
    by (simp add: replicate_append_same)
  with Suc show ?case by (simp only: spec_history_snoc) simp
qed (simp add: spec_history_def)

lemma test_roundings:
  "to_f64 1 = Fin 1" "to_f64 (1 / 2) = Fin (1 / 2)" "to_f64 (1 / 4) = Fin (1 / 4)"
  "to_f64 (3 / 2) = Fin (3 / 2)" "f64_le (to_f64 (12 / 10)) (Fin (3 / 2))"
  by code_simp+

lemmas turn_simps = spec_turn_def test_params_def floorless_params_def f64_zero_def f64_of_nat_def
  test_roundings

lemma first_turn:
  "spec_turn test_params 1 (f64_zero, False) = (Fin 1, True)"
  "spec_turn floorless_params 1 (f64_zero, False) = (Fin 1, True)"
  by (simp_all add: turn_simps)

lemma held_turn:
  "spec_turn test_params 0 (Fin 1, True) = (Fin (1 / 2), True)"
  "spec_turn test_params 0 (Fin (1 / 2), True) = (Fin (1 / 2), True)"
  by (simp_all add: turn_simps)

lemma halved_turn:
  assumes "k \<le> 1000"
  shows "spec_turn floorless_params 0 (Fin (2 powi - int k), True) = (Fin (2 powi - int (Suc k)), True)"
proof -
  have "2 powi - int k * (1 / 2) = (2 :: rat) powi - int (Suc k)"
    unfolding power_int_minus power_int_of_nat by simp
  moreover have "\<not> 2 powi - int (Suc k) < (0 :: rat)" by (simp only: not_less) simp
  ultimately show ?thesis
    using to_f64_pow [of "- int (Suc k)"] assms
    by (simp only: floorless_params_def test_params_def spec_turn_def Let_def)
      (simp del: of_nat_Suc power_int_minus)
qed

text \<open>With the floor a quiet session stays at it; without, its score is halved every turn.\<close>

lemma quiet_held: "0 < k \<Longrightarrow> spec_history test_params (1 # replicate k 0) = (Fin (1 / 2), True)"
  unfolding spec_history_quiet first_turn
proof (induction k)
  case (Suc k)
  then show ?case by (cases "k = 0") (simp_all add: held_turn)
qed simp

lemma quiet_decays:
  "k \<le> 1000 \<Longrightarrow> spec_history floorless_params (1 # replicate k 0) = (Fin (2 powi - int k), True)"
  unfolding spec_history_quiet first_turn by (induction k) (simp_all add: halved_turn del: of_nat_Suc)

lemma quiet_outcome:
  assumes "k < 1000" "0 < lp_max_sessions p"
  shows "after_calls p ((sid, 1) # replicate k (sid, 0)) sid n
    = outcome_of p (fst (spec_turn p n (spec_history p (1 # replicate k 0))))"
proof -
  have "after_calls p ((sid, 1) # replicate k (sid, 0)) sid n = spec_outcome p ((1 # replicate k 0) @ [n])"
    using assms by (subst after_calls_own) auto
  then show ?thesis by (simp only: spec_outcome_def spec_history_snoc)
qed

lemma late_turn:
  "f64_lt (Fin (2 powi - 51)) (to_f64 (1 / 1000000))"
  "\<not> f64_le (to_f64 (12 / 10)) (to_f64 (2 powi - 52 + 1))"
  "f64_le (to_f64 (12 / 10)) (to_f64 (1 / 2 + 1))"
  by code_simp+

text \<open>
  The late attack on the tainted session scores 1.5: the decay to 0.25 does not happen, since the
  floor holds the score at 0.5 before the flag is added. (The comment of the test expects 1.25,
  the score of a ledger that decays below its floor.)
\<close>

lemma late_attack_held: "fst (spec_turn test_params 1 (Fin (1 / 2), True)) = Fin (3 / 2)"
  by (simp add: turn_simps)

lemma late_attack_decayed:
  "fst (spec_turn floorless_params 1 (Fin (2 powi - 51), True)) = to_f64 (2 powi - 52 + 1)"
  using halved_turn [of 51]
  by (simp add: turn_simps split: if_splits)

lemma floor_test_holds: "test_floor sid"
proof -
  have t: "lp_threshold test_params = to_f64 (12 / 10)" "lp_threshold floorless_params = to_f64 (12 / 10)"
    "0 < lp_max_sessions test_params" "0 < lp_max_sessions floorless_params"
    by (simp_all add: test_params_def floorless_params_def)
  have one: "after_calls p [] sid 1 = outcome_of p (fst (spec_turn p 1 (f64_zero, False)))"
    if "0 < lp_max_sessions p" for p
    using that by (subst after_calls_own) (auto simp: spec_outcome_def spec_history_def)
  have held: "after_calls test_params ((sid, 1) # replicate k (sid, 0)) sid n
      = outcome_of test_params (fst (spec_turn test_params n (Fin (1 / 2), True)))" if "0 < k" "k < 1000" for k n
    by (simp only: quiet_outcome [OF that(2) t(3)] quiet_held [OF that(1)])
  have decayed: "after_calls floorless_params ((sid, 1) # replicate k (sid, 0)) sid n
      = outcome_of floorless_params (fst (spec_turn floorless_params n (Fin (2 powi - int k), True)))"
    if "k < 1000" for k n
    by (simp only: quiet_outcome [OF that t(4)] quiet_decays [OF less_imp_le [OF that]])
  have "after_calls test_params ((sid, 1) # replicate 50 (sid, 0)) sid 0 = outcome_of test_params (Fin (1 / 2))"
    by (subst held) (simp_all add: held_turn)
  moreover have "after_calls floorless_params ((sid, 1) # replicate 50 (sid, 0)) sid 0
      = outcome_of floorless_params (Fin (2 powi - 51))"
    using halved_turn [of 50] by (subst decayed) simp_all
  moreover have "after_calls test_params ((sid, 1) # replicate 51 (sid, 0)) sid 1
      = outcome_of test_params (Fin (3 / 2))"
    using held [of 51 1] by (simp only: late_attack_held)
  moreover have "after_calls floorless_params ((sid, 1) # replicate 51 (sid, 0)) sid 1
      = outcome_of floorless_params (to_f64 (2 powi - 52 + 1))"
    using decayed [of 51 1] by (simp only: of_nat_numeral late_attack_decayed)
  ultimately show ?thesis
    using late_turn
    by (simp only: test_floor_def Let_def one [OF t(3)] one [OF t(4)] first_turn) (simp add: outcome_of_def t test_roundings)
qed

definition test_slow_burn :: "uuid \<Rightarrow> bool" where
  "test_slow_burn sid = lo_blocked (after_calls test_params [] sid 2)"

lemma slow_burn_holds: "test_slow_burn sid"
proof -
  have "after_calls test_params [] sid 2 = spec_outcome test_params [2]"
    by (subst after_calls_own) auto
  moreover have "lo_blocked (spec_outcome test_params [2])" by code_simp
  ultimately show ?thesis by (simp add: test_slow_burn_def)
qed

definition test_independent_sessions :: "uuid \<Rightarrow> uuid \<Rightarrow> bool" where
  "test_independent_sessions attacker bystander =
     (let other = after_calls test_params [(attacker, 2)] bystander 0
      in lo_score other = f64_zero \<and> \<not> lo_blocked other)"

lemma independent_sessions_hold:
  assumes "attacker \<noteq> bystander"
  shows "test_independent_sessions attacker bystander"
proof -
  have "after_calls test_params [(attacker, 2)] bystander 0 = spec_outcome test_params [0]"
    using assms record_outcome_history [of "[(attacker, 2)]" test_params bystander 0]
    by (simp add: after_calls_def own_flags_def del: record_all.simps)
  then show ?thesis
    by (simp add: test_independent_sessions_def benign_session_never_blocked [OF test_params_ok])
qed

definition test_eviction_bounds :: "uuid list \<Rightarrow> bool" where
  "test_eviction_bounds fresh =
     (length (l_sessions (record_all (test_params\<lparr>lp_max_sessions := 4\<rparr>) (map (\<lambda>sid. (sid, 1)) fresh) ledger_new)) \<le> 4)"

lemma eviction_bounds_hold: "test_eviction_bounds fresh"
  using ledger_table_bounded [of "test_params\<lparr>lp_max_sessions := 4\<rparr>" "map (\<lambda>sid. (sid, 1)) fresh"]
  by (simp add: test_eviction_bounds_def)

section \<open>The fan-out\<close>

text \<open>The fixtures. \<open>windows(n).any(..)\<close> is the search for a block; the marker is never empty.\<close>

definition marker_guard :: "bytes \<Rightarrow> nanos \<Rightarrow> guard_check" where
  "marker_guard marker block_delay rq =
     (if has_block marker (gr_window rq) then
        Answers block_delay (Inr \<lparr>gv_verdict = Block, gv_confidence = to_f32 (9 / 10), gv_flags = [''intent_shift''],
          gv_model_id = ''marker'', gv_inference = 0\<rparr>)
      else
        Answers 0 (Inr \<lparr>gv_verdict = Pass, gv_confidence = to_f32 (1 / 10), gv_flags = [],
          gv_model_id = ''marker'', gv_inference = 0\<rparr>))"

text \<open>The guard sleeps an hour, then reaches \<open>unreachable!\<close>.\<close>

definition hanging_guard :: guard_check where
  "hanging_guard rq = Panics (3600 * 1000000000)"

definition blocking_count :: "finding list \<Rightarrow> nat" where
  "blocking_count fs = length (filter is_blocking fs)"

lemma blocking_count_Pass: "findings_verdict fs = Pass \<longleftrightarrow> blocking_count fs = 0"
  by (simp add: blocking_count_def findings_verdict_Pass_iff advisory_iff filter_empty_conv)

lemma marker_guard_passes [simp]:
  "answered_pass timeout (marker_guard m d rq) \<longleftrightarrow> \<not> has_block m (gr_window rq)"
  by (simp add: answered_pass_def marker_guard_def)

lemma guard_findings_ok: "\<exists>fs. guard_findings f g sched p dir sid = Inr fs"
  using guard_findings_total by (metis sumE)

definition test_late_block :: "nat list \<Rightarrow> uuid \<Rightarrow> bool" where
  "test_late_block sched sid =
     (let fanout = fanout_new 16 8 (5 * 1000000000);
          payload = replicate 50 (CHR ''a'') @ ''BLOCKME''
      in 16 < length payload
         \<and> (case guard_findings fanout (marker_guard ''BLOCKME'' (80 * 1000000)) sched payload Inbound sid of
              Inl _ \<Rightarrow> False
            | Inr findings \<Rightarrow> 1 \<le> blocking_count findings))"

lemma late_block_holds: "test_late_block sched sid"
proof -
  let ?f = "fanout_new 16 8 (5 * 1000000000)" and ?p = "replicate 50 (CHR ''a'') @ ''BLOCKME''"
  obtain fs where fs: "guard_findings ?f (marker_guard ''BLOCKME'' (80 * 1000000)) sched ?p Inbound sid = Inr fs"
    using guard_findings_ok by blast
  have "has_block ''BLOCKME'' ?p" unfolding has_block_iff by blast
  then obtain rq where "rq \<in> set (guard_requests ?f ?p Inbound sid)" "has_block ''BLOCKME'' (gr_window rq)"
    using phrase_in_request [of "''BLOCKME''" ?p 8 16 "5 * 1000000000" Inbound sid] by auto
  then have "findings_verdict fs \<noteq> Pass" using guard_findings_verdict [OF fs] by auto
  then have "1 \<le> blocking_count fs" by (simp add: blocking_count_Pass)
  with fs show ?thesis by (simp only: test_late_block_def Let_def sum.case) simp
qed

definition test_all_pass :: "nat list \<Rightarrow> uuid \<Rightarrow> bool" where
  "test_all_pass sched sid =
     (case guard_findings (fanout_new 16 8 (5 * 1000000000)) (marker_guard ''BLOCKME'' 0) sched
             ''a wholly benign tool result with nothing to see'' Inbound sid of
        Inl _ \<Rightarrow> False
      | Inr findings \<Rightarrow> blocking_count findings = 0)"

lemma all_pass_holds: "test_all_pass sched sid"
proof -
  let ?f = "fanout_new 16 8 (5 * 1000000000)" and ?p = "''a wholly benign tool result with nothing to see''"
  obtain fs where fs: "guard_findings ?f (marker_guard ''BLOCKME'' 0) sched ?p Inbound sid = Inr fs"
    using guard_findings_ok by blast
  have no: "\<not> has_block ''BLOCKME'' ?p" by code_simp
  have "\<not> has_block ''BLOCKME'' (gr_window rq)" if "rq \<in> set (guard_requests ?f ?p Inbound sid)" for rq
  proof -
    have "has_block (gr_window rq) ?p"
      using windows_are_blocks [OF _ guard_requests_window [OF that]] by simp
    then show ?thesis using no unfolding has_block_iff by (metis append.assoc)
  qed
  then have "blocking_count fs = 0"
    using guard_findings_verdict [OF fs] by (simp add: blocking_count_Pass)
  with fs show ?thesis by (simp add: test_all_pass_def)
qed

definition test_hung_guard :: "nat list \<Rightarrow> uuid \<Rightarrow> bool" where
  "test_hung_guard sched sid =
     (case guard_findings (fanout_new 2048 256 (50 * 1000000)) hanging_guard sched ''anything'' Outbound sid of
        Inl _ \<Rightarrow> False
      | Inr findings \<Rightarrow> blocking_count findings = 1 \<and> f_source (findings ! 0) = ''guard_timeout'')"

lemma hung_guard_holds: "test_hung_guard sched sid"
proof -
  have "join_order sched [x] = [x]" for x :: joined
    by (cases sched) simp_all
  then show ?thesis
    by (simp add: test_hung_guard_def guard_findings_def guard_requests_def windows_def hanging_guard_def
      blocking_count_def Let_def)
qed

section \<open>The wrapper\<close>

text \<open>A tool that counts its calls: the count is its world.\<close>

definition counting_tool :: "bytes \<Rightarrow> nat tool_executor" where
  "counting_tool output ctx calls = (Inr \<lparr>to_content = output\<rparr>, calls + 1)"

text \<open>The configuration of the test, as the table its text denotes.\<close>

definition tool_table :: "string \<Rightarrow> bool \<Rightarrow> toml_table" where
  "tool_table tool enabled =
     [(''challenge'', TomlTable []), (''guard'', TomlTable [(''backend'', TomlString ''mock'')]),
      (''kernel'', TomlTable [(''tools'', TomlTable [(tool, TomlTable [(''enabled'', TomlBool enabled)])])]),
      (''orchestrator'', TomlTable [])]"

definition tool_config :: "string \<Rightarrow> bool \<Rightarrow> ctp_error + kernel_config" where
  "tool_config tool enabled =
     and_then (from_toml_str (table_api (tool_table tool enabled)) [])
       (\<lambda>c. Inr (c_kernel c))"

lemma tool_config_loads:
  "\<exists>k. tool_config ''web_fetch'' enabled = Inr k \<and> tp_enabled (tool_policy_of k ''web_fetch'') = enabled"
proof -
  have "\<exists>c. de_config (table_api (tool_table ''web_fetch'' enabled)) (tool_table ''web_fetch'' enabled) = Inr c \<and> validate c = Inr ()
      \<and> tp_enabled (tool_policy_of (c_kernel c) ''web_fetch'') = enabled"
    by (simp add: tool_table_def de_simps field_def de_backend_def de_variant_def de_tools_def
        validate_def validate_guard_def validate_kernel_def default_max_payload_bytes_def
        default_timeout_ms_def default_max_window_bytes_def default_window_overlap_bytes_def
        default_anomaly_threshold_def default_anomaly_decay_def default_anomaly_floor_def
        default_flag_weight_def tool_policy_of_def f64_zero_def)
  then show ?thesis
    by (auto simp: tool_config_def and_then_Inr_iff from_toml_str_Inr_iff)
qed

definition pass_guard :: "vet_env \<Rightarrow> vet_env" where
  "pass_guard env = env\<lparr>ve_guard := marker_guard ([CHR 0x00] @ ''NEVER'' @ [CHR 0x00]) 0\<rparr>"

definition test_denied_tool :: "vet_env \<Rightarrow> uuid \<Rightarrow> bool" where
  "test_denied_tool env sid =
     (case tool_config ''web_fetch'' False of
        Inl _ \<Rightarrow> False
      | Inr config \<Rightarrow>
          (let kernel = \<lparr>kw_challenge = (\<lambda>_. []), kw_guard = fanout_new 2048 256 1000000000, kw_config = config\<rparr>;
               ctx = \<lparr>tc_session_id = sid, tc_tool_name = ''web_fetch'', tc_arguments = ''{}'', tc_turn = 0\<rparr>;
               (result, (calls, _)) = execute kernel (pass_guard env) (pass_guard env) (counting_tool ''ok'') ctx
                 (0, ledger_new)
           in (case result of Inl (PolicyDenied _ _) \<Rightarrow> True | _ \<Rightarrow> False) \<and> calls = 0))"

lemma denied_tool_holds: "test_denied_tool env sid"
proof -
  obtain k where "tool_config ''web_fetch'' False = Inr k" "\<not> tp_enabled (tool_policy_of k ''web_fetch'')"
    using tool_config_loads [of False] by auto
  then show ?thesis by (simp add: test_denied_tool_def execute_denied)
qed

end
