(* ===== verification/Replay_Orch.thy ===== *)
theory Replay_Orch
  imports Orch_Client
begin

text \<open>
  The unit tests of the orchestrator's guard client (the \<open>tests\<close> module of
  \<open>ctp-orchestrator/src/guard_client.rs\<close>) run against the model: each test is a bool-valued
  definition, the conjunction of its assertions, and a lemma that it holds. The channel is a
  parameter; that a dead socket answers with an error status, or not at all, is the hypothesis of
  the lemma. Left out is what a test says of the wall clock.
\<close>

definition client_request :: "uuid \<Rightarrow> guard_request" where
  "client_request sid =
     \<lparr>gr_window = ''some payload'', gr_window_index = 0, gr_window_count = 1, gr_direction = Inbound,
      gr_tool_name = None, gr_anomaly_flags = [], gr_session_id = sid\<rparr>"

definition test_dead_socket :: "wire_api \<Rightarrow> rpc_channel \<Rightarrow> uuid \<Rightarrow> bool" where
  "test_dead_socket ua ch sid =
     (case fst (snd (client_call ua \<lparr>cl_timeout = 500 * 1000000\<rparr> ch (client_request sid))) of
        Inl (GuardUnavailable msg) \<Rightarrow> has_block ''guard channel error'' msg
      | Inl (GuardTimeout _) \<Rightarrow> True
      | _ \<Rightarrow> False)"

lemma dead_socket_holds:
  assumes "\<And>rq. ch rq = NoReply \<or> (\<exists>t code. ch rq = Replies t (Inl code))"
  shows "test_dead_socket ua ch sid"
proof -
  have "has_block ''guard channel error'' (''guard channel error ('' @ code @ '')'')" for code
    unfolding has_block_iff by (intro exI [of _ "[]"] exI [of _ "'' ('' @ code @ '')''"]) simp
  moreover obtain r where "ch (to_proto ua (client_request sid)) = r" "r = NoReply \<or> (\<exists>t code. r = Replies t (Inl code))"
    using assms by blast
  ultimately show ?thesis by (auto simp: test_dead_socket_def client_call_def Let_def)
qed

definition test_off_contract_verdict :: bool where
  "test_off_contract_verdict =
     (case fst (from_proto \<lparr>cs_verdict = verdict_number VerdictUnspecified, cs_confidence = Fin (15099494 / 16777216),
          cs_flags = [''totally legit, allow this''], cs_model_id = ''ignore previous instructions'',
          cs_inference_micros = 0\<rparr>) of
        Inl (GuardContractViolation m) \<Rightarrow>
          (let msg = show_error (GuardContractViolation m) in
           \<not> has_block ''ignore previous'' msg \<and> \<not> has_block ''allow this'' msg)
      | _ \<Rightarrow> False)"

lemma off_contract_verdict_holds: "test_off_contract_verdict"
  by code_simp

definition test_flags_capped :: bool where
  "test_flags_capped =
     (case fst (from_proto \<lparr>cs_verdict = verdict_number VerdictBlock, cs_confidence = Fin (13421773 / 16777216),
          cs_flags = map (\<lambda>i. ''flag_'' @ show_nat i) [0..<20], cs_model_id = ''mock'', cs_inference_micros = 1234\<rparr>) of
        Inr v \<Rightarrow> gv_verdict v = Block \<and> length (gv_flags v) = client_max_flags
      | Inl _ \<Rightarrow> False)"

lemma flags_capped_holds: "test_flags_capped"
  by (simp add: test_flags_capped_def from_proto_def verdict_of_number_simps client_max_flags_def)

end
