(* ===== verification/Spec2Isabelle.thy ===== *)
theory Spec2Isabelle
  imports Core_Config Challenge_Registry Guard_Process Orch_Process Ctp_System Bench_Gateway
    Replay_Core Replay_Challenge Replay_Kernel Replay_Guard Replay_Orch Replay_System
begin

text \<open>
  Contextual Trust Protocol: a verification of the five crates of the repository.

  The program stands between a language model and its tools. Bytes in either direction are
  vetted in layers: static rules (Layer 1, \<open>ctp-challenge\<close>), a small classifier in a process of its
  own (Layer 2, \<open>ctp-guard\<close>), a kernel that wraps the tool, fans a payload out to the classifier and
  keeps an anomaly score per session (Layer 3, \<open>ctp-kernel\<close>), and a gateway that composes them behind
  a gRPC service (Layer 4, \<open>ctp-orchestrator\<close>), on the vocabulary of \<open>ctp-core\<close>. Its promise is to
  fail closed: bytes are released, and a PASS is answered, only if every check ran and passed.

  \<^bold>\<open>How the theories correspond to the code.\<close> Definitions keep the names of the source where they can.

  \<^item> \<open>Ctp_Prelude\<close>: bytes, strings as UTF-8 bytes, the operator \<open>?\<close> (\<open>and_then\<close>), rendering of numbers.
    \<open>Ctp_Float\<close>: \<open>f64\<close> as rationals with rounding to 53 bits, infinities and NaN. \<open>Ctp_Utf8\<close>: decoding,
    lossy decoding, \<open>chars\<close> and \<open>char_indices\<close>.
  \<^item> \<open>Core_Verdict\<close>, \<open>Core_Error\<close>, \<open>Core_Payload\<close>, \<open>Core_Config\<close>: the files of \<open>ctp-core/src\<close> of the same
    names; the traits of \<open>traits.rs\<close> are function types where they are used. The trust state of a payload is
    a phantom type, as in the code; the public methods are the step relation \<open>api_step\<close>.
  \<^item> \<open>Challenge_Homoglyph\<close>, \<open>Challenge_Encoding\<close>, \<open>Challenge_Registry\<close>: \<open>rules/homoglyph.rs\<close>,
    \<open>rules/encoding.rs\<close>, and \<open>registry.rs\<close> with \<open>rules/data_driven.rs\<close>.
  \<^item> \<open>Kernel_Ledger\<close>: \<open>ledger.rs\<close>. \<open>Kernel_Fanout\<close>: \<open>GuardFanout\<close> of \<open>ctp-kernel/src/lib.rs\<close>.
    \<open>Kernel_Wrapper\<close>: \<open>KernelWrapper\<close> of the same file. \<open>Kernel_Interleave\<close>: concurrent tasks on one
    ledger; \<open>Kernel_Concurrent\<close>: the calls of the wrapper interleaved at their awaits.
  \<^item> \<open>Guard_Grammar\<close> and \<open>Guard_Gbnf\<close>: the acceptor and the parser of \<open>grammar.rs\<close>, and the embedded
    \<open>verdict.gbnf\<close>; \<open>Guard_Language\<close>: the language it defines. \<open>Guard_Parse\<close>: \<open>parse.rs\<close>.
    \<open>Guard_Inference\<close> and \<open>Guard_Llama\<close>: the prompt and the two backends of \<open>inference.rs\<close>.
    \<open>Guard_Server\<close>: \<open>server.rs\<close>; \<open>Guard_Deployed\<close>: it over the llama backend. \<open>Guard_Startup\<close> and \<open>Guard_Process\<close>: \<open>lib.rs\<close> and \<open>main.rs\<close>.
  \<^item> \<open>Orch_Client\<close>: \<open>guard_client.rs\<close> and the events of \<open>metrics.rs\<close>. \<open>Orch_Pipeline\<close>: \<open>pipeline.rs\<close> and the
    assembly in \<open>lib.rs\<close>; \<open>Orch_Concurrent\<close>: evaluations interleaved. \<open>Orch_Gateway\<close>: \<open>grpc.rs\<close>. \<open>Orch_Process\<close>: \<open>serve\<close>, \<open>main.rs\<close> and the exporter.
  \<^item> \<open>Ctp_System\<close>: the kernel and the gateway over the client, the wire and the deployed guard.
  \<^item> \<open>Replay_Core\<close>, \<open>Replay_Challenge\<close>, \<open>Replay_Kernel\<close>, \<open>Replay_Guard\<close>, \<open>Replay_Orch\<close>: the unit tests that stand
    in the source files, replayed over the model. \<open>Replay_System\<close>: the integration tests of the kernel, the guard
    and the orchestrator, over the composed model.
  \<^item> \<open>Bench_Client\<close>: the benchmark client \<open>examples/bench_client.rs\<close> of the orchestrator, with \<open>Ctp_Format\<close> for the division
    and the printing of doubles; \<open>Bench_Gateway\<close>: it run against the gateway.

  \<^bold>\<open>State and effects.\<close> Fallible code returns \<open>error + value\<close>, with \<open>ctp_error\<close> or the error type of the
  source on the left. The ledger is passed as a state; the inner tool is a function on a world it
  may change (the code awaits it without a timeout: among concurrent calls it is polled, and may never have a result); the recorded metrics and the effects of a process on the operating system are lists
  in the order they happen. What the environment decides is an argument: fresh identifiers and
  nonces, measured times, when and whether a guard or a channel answers, the completion order of
  parallel tasks, the outcome of a system call. Crates are records of functions: regular
  expressions and decoders (\<open>scan_api\<close>), Unicode tables, TOML and JSON parsing, UUIDs and the names of status codes (\<open>wire_api\<close>), the llama.cpp
  bindings (\<open>llama_api\<close>). What is assumed of one is a named hypothesis of the theorem that needs it:
  that a printed UUID parses back (\<open>uuid_ok\<close>), that a grammar sampler keeps to its grammar
  (\<open>constrained\<close>), that the JSON parser reads the sentences of the grammar (\<open>reads_sentences\<close>), that a channel is connected to a server (\<open>connects\<close>).

  \<^bold>\<open>What is shown.\<close>

  \<^item> Release: bytes leave a payload only after both scans of those very bytes (\<open>Core_Payload\<close>); a tool
    runs only on vetted arguments, and its result is released exactly when policy, both vettings,
    the size cap and the ledger agree (\<open>Kernel_Wrapper\<close>), under any interleaving of calls
    (\<open>Kernel_Concurrent\<close>, where a call that runs alone is the sequential \<open>execute\<close>).
  \<^item> Detection: each rule blocks exactly under the condition stated for it, and the layer exactly when one of
    its rules does (\<open>Challenge_*\<close>); a phrase within the overlap lies whole in a window, and the
    fan-out passes exactly when every window passes in time (\<open>Kernel_Fanout\<close>).
  \<^item> The ledger: while all sessions fit in the table it refines, per session, a fold over the session's own flags;
    after a flag the floor holds for as long as the table keeps the session, and it keeps it while fewer others than it holds
    are active; the order in which the map is iterated cannot be observed (\<open>Kernel_Ledger\<close>).
  \<^item> The guard's output: the parser of grammars terminates and the acceptor decides the language of every
    parsed grammar that is not left-recursive; the embedded grammar has exactly the language \<open>verdict_sentence\<close>; the llama
    backend stays in it; the strict parser lets only contract answers through, and the server
    answers PASS only for those (\<open>Guard_*\<close>).
  \<^item> The wire: requests and verdicts survive the round trip, a call always ends by its deadline in a
    verdict or a typed error, which nothing the guard wrote beside its verdict can change, and that deadline is the one that fires (\<open>Orch_Client\<close>, \<open>Orch_Pipeline\<close>).
  \<^item> The configuration: what loads is in range, has no key outside the schema in any table, and enables a tool only by a
    literal true in its own entry (\<open>Core_Config\<close>).
  \<^item> The gateway: PASS exactly when all layers pass, on the wire too (\<open>Orch_Gateway\<close>); one turn of the ledger and one counted decision
    per evaluation, under any interleaving of evaluations (\<open>Orch_Concurrent\<close>).
  \<^item> The whole: what the gateway passes or the kernel releases was answered by the model itself, for every
    window, with a sentence of the grammar that says PASS (\<open>Guard_Deployed\<close>, \<open>Ctp_System\<close>).
  \<^item> Attribution and measurement: a decision names the layer that made it (\<open>Orch_Pipeline\<close>); a benchmark reports of each
    payload what the pipeline with an empty ledger decides on it alone, and its results file reads back (\<open>Bench_Gateway\<close>).
  \<^item> The processes: nothing is served without a valid configuration, and the guard's socket is served only
    after its mode was set for the owner alone (\<open>Guard_Process\<close>, \<open>Orch_Process\<close>).

  \<^bold>\<open>Validation.\<close> The definitions are checked against the expectations of the program's authors: each
  unit test of the sources is a bool-valued definition (the conjunction of its assertions over the model)
  with a lemma that it holds, for all fresh identifiers, nonces and completion orders. Where a test goes
  through a crate, the lemma has what the crate answers on the texts of the test as hypotheses; what a test
  says of the wall clock, the one test of the output of \<open>serde_json\<close>, and the one of the text the Prometheus exporter
  renders, are left out. So is the corpus of the challenge layer, which tests the compiled regular expressions.

  \<^bold>\<open>Interfaces.\<close> The locales are \<open>rounding\<close> (what the float lemmas need of a rounding function), \<open>promotion\<close>
  (a transition of the typestate), \<open>session_store\<close> (what one session sees of the table),
  \<open>ledger_clients\<close> (a kind of task that records in the ledger; the kernel's calls and the gateway's evaluations),
  \<open>vetting\<close> (one direction of vetting, as \<open>execute\<close> relies on it) and \<open>timely_guard\<close> (a client with a
  deadline); each is interpreted on the model's definitions in the theory that provides them.

  \<^bold>\<open>Bounds and fuel.\<close> The expression parser runs with fuel \<open>5 n + 5\<close> for \<open>n\<close> characters, which is proved
  enough for every input. More fuel gives the same answer. The acceptor's recursion through rule references has no bound in the
  source; it is fuelled, a fuel linear in the input is proved enough for every grammar that is not left-recursive, and
  \<open>6 (n + 1)\<close> for the embedded one. The llama loop has the source's own bound of 64 tokens.
  Machine integers that can wrap are words: the tick of the ledger, window positions, message fields,
  milliseconds.

  \<^bold>\<open>Not modelled.\<close> The generated gRPC bindings and the transport below the messages; tracing output; the
  signals and the sockets themselves (their calls and outcomes are, in \<open>Guard_Process\<close>); build scripts,
  the latency test and deployment files. Floating point zeroes are not distinguished by sign. Stack
  overflow and exhaustion of memory are not modelled.
\<close>

end
